(* ===== verification/Lru.thy ===== *)
theory Lru
  imports Prelude
begin

text \<open>
  The contract of the \<open>lru\<close> crate's \<open>LruCache\<close>, which \<open>dns/cache.rs\<close> and \<open>proxy/egress.rs\<close>
  are clients of. The crate is not part of the program: a client is written against a record of
  its operations, and the locale \<open>lru_cache\<close> states their documented behaviour through the
  list of the entries from the most to the least recently used one. The reference
  implementation at the end satisfies it.
\<close>

record ('c, 'k, 'v) lru_ops =
  lru_new :: "nat \<Rightarrow> 'c"
  lru_get :: "'k \<Rightarrow> 'c \<Rightarrow> 'v option \<times> 'c"
  lru_put :: "'k \<Rightarrow> 'v \<Rightarrow> 'c \<Rightarrow> 'c"
  lru_pop :: "'k \<Rightarrow> 'c \<Rightarrow> 'c"
  lru_resize :: "nat \<Rightarrow> 'c \<Rightarrow> 'c"
  lru_clear :: "'c \<Rightarrow> 'c"
  lru_len :: "'c \<Rightarrow> nat"
  lru_cap :: "'c \<Rightarrow> nat"

definition without :: "'k \<Rightarrow> ('k \<times> 'v) list \<Rightarrow> ('k \<times> 'v) list" where
  "without k xs = filter (\<lambda>p. fst p \<noteq> k) xs"

definition promote :: "'k \<Rightarrow> ('k \<times> 'v) list \<Rightarrow> ('k \<times> 'v) list" where
  "promote k xs = (case map_of xs k of None \<Rightarrow> xs | Some v \<Rightarrow> (k, v) # without k xs)"

lemma distinct_take_map: "distinct (map f xs) \<Longrightarrow> distinct (map f (take n xs))"
  by (metis distinct_take take_map)

lemma map_of_take_Some: "map_of (take n xs) j = Some w \<Longrightarrow> map_of xs j = Some w"
proof -
  assume "map_of (take n xs) j = Some w"
  then have "map_of (take n xs @ drop n xs) j = Some w" by (simp only: map_of_append map_add_Some_iff) simp
  then show ?thesis by simp
qed

lemma map_of_without: "map_of (without k xs) j = (if j = k then None else map_of xs j)"
  by (induction xs) (auto simp: without_def)

lemma without_keys: "k \<notin> fst ` set (without k xs)"
  by (auto simp: without_def)

lemma set_without_subset: "set (without k xs) \<subseteq> set xs"
  by (auto simp: without_def)

lemma distinct_without: "distinct (map fst xs) \<Longrightarrow> distinct (map fst (without k xs))"
  by (simp add: without_def distinct_map_filter)

lemma length_without: "length (without k xs) \<le> length xs"
  by (simp add: without_def)

lemma length_without_less: "map_of xs k = Some v \<Longrightarrow> length (without k xs) < length xs"
  unfolding without_def by (rule length_filter_less [of "(k, v)"]) (auto dest: map_of_SomeD)

lemma map_of_promote: "map_of (promote k xs) j = map_of xs j"
  by (auto simp: promote_def map_of_without split: option.splits)

lemma set_promote: "distinct (map fst xs) \<Longrightarrow> set (promote k xs) = set xs"
  by (auto simp: promote_def without_def split: option.splits dest: map_of_SomeD eq_key_imp_eq_value)

lemma distinct_promote: "distinct (map fst xs) \<Longrightarrow> distinct (map fst (promote k xs))"
  using without_keys [of k xs] distinct_without [of xs k]
  by (simp add: promote_def split: option.splits)

lemma length_promote: "length xs \<le> n \<Longrightarrow> length (promote k xs) \<le> n"
  by (auto simp: promote_def split: option.splits dest: length_without_less)

definition lru_inv :: "('c, 'k, 'v) lru_ops \<Rightarrow> ('c \<Rightarrow> ('k \<times> 'v) list) \<Rightarrow> 'c \<Rightarrow> bool" where
  "lru_inv L content c \<longleftrightarrow>
     distinct (map fst (content c)) \<and> length (content c) \<le> lru_cap L c \<and> 0 < lru_cap L c"

locale lru_cache =
  fixes L :: "('c, 'k, 'v) lru_ops" and content :: "'c \<Rightarrow> ('k \<times> 'v) list"
  assumes new_content: "0 < n \<Longrightarrow> content (lru_new L n) = []"
    and new_cap: "0 < n \<Longrightarrow> lru_cap L (lru_new L n) = n"
    and get_value: "fst (lru_get L k c) = map_of (content c) k"
    and get_content: "content (snd (lru_get L k c)) = promote k (content c)"
    and get_cap: "lru_cap L (snd (lru_get L k c)) = lru_cap L c"
    and put_content: "content (lru_put L k v c) = take (lru_cap L c) ((k, v) # without k (content c))"
    and put_cap: "lru_cap L (lru_put L k v c) = lru_cap L c"
    and pop_content: "content (lru_pop L k c) = without k (content c)"
    and pop_cap: "lru_cap L (lru_pop L k c) = lru_cap L c"
    and resize_content: "0 < n \<Longrightarrow> content (lru_resize L n c) = take n (content c)"
    and resize_cap: "0 < n \<Longrightarrow> lru_cap L (lru_resize L n c) = n"
    and clear_content: "content (lru_clear L c) = []"
    and clear_cap: "lru_cap L (lru_clear L c) = lru_cap L c"
    and len_content: "lru_len L c = length (content c)"
begin

lemmas lru_laws =
  new_content new_cap get_value get_content get_cap put_content put_cap pop_content pop_cap
  resize_content resize_cap clear_content clear_cap len_content

lemma inv_new: "0 < n \<Longrightarrow> lru_inv L content (lru_new L n)"
  by (simp add: lru_inv_def lru_laws)

lemma inv_get: "lru_inv L content c \<Longrightarrow> lru_inv L content (snd (lru_get L k c))"
  by (simp add: lru_inv_def lru_laws distinct_promote length_promote)

lemma inv_put: "lru_inv L content c \<Longrightarrow> lru_inv L content (lru_put L k v c)"
proof -
  assume i: "lru_inv L content c"
  let ?xs = "(k, v) # without k (content c)"
  have "distinct (map fst ?xs)"
    using i distinct_without [of "content c" k] without_keys [of k "content c"]
    by (simp add: lru_inv_def)
  then have "distinct (map fst (take (lru_cap L c) ?xs))" by (rule distinct_take_map)
  moreover have "length (take (lru_cap L c) ?xs) \<le> lru_cap L c"
    unfolding length_take by (rule min.cobounded2)
  ultimately show ?thesis
    using i unfolding lru_inv_def put_content put_cap by blast
qed

lemma inv_pop: "lru_inv L content c \<Longrightarrow> lru_inv L content (lru_pop L k c)"
  using length_without [of k "content c"] by (auto simp: lru_inv_def lru_laws distinct_without)

lemma inv_resize: "lru_inv L content c \<Longrightarrow> 0 < n \<Longrightarrow> lru_inv L content (lru_resize L n c)"
  unfolding lru_inv_def by (simp add: resize_content resize_cap distinct_take_map)

lemma inv_clear: "lru_inv L content c \<Longrightarrow> lru_inv L content (lru_clear L c)"
  by (simp add: lru_inv_def lru_laws)

lemmas lru_inv_intros = inv_new inv_get inv_put inv_pop inv_resize inv_clear

text \<open>A value put is the value got, and no other key gains one.\<close>

lemma get_put_same: "0 < lru_cap L c \<Longrightarrow> fst (lru_get L k (lru_put L k v c)) = Some v"
  by (cases "lru_cap L c") (simp_all add: lru_laws)

lemma get_put_other:
  "j \<noteq> k \<Longrightarrow> fst (lru_get L j (lru_put L k v c)) = Some w \<Longrightarrow> fst (lru_get L j c) = Some w"
  by (auto simp: get_value put_content map_of_without dest!: map_of_take_Some)

end

section \<open>A reference implementation\<close>

text \<open>The capacity and the entries in recency order.\<close>

definition list_lru :: "(nat \<times> ('k \<times> 'v) list, 'k, 'v) lru_ops" where
  "list_lru =
     \<lparr>lru_new = \<lambda>n. (n, []),
      lru_get = \<lambda>k c. (map_of (snd c) k, (fst c, promote k (snd c))),
      lru_put = \<lambda>k v c. (fst c, take (fst c) ((k, v) # without k (snd c))),
      lru_pop = \<lambda>k c. (fst c, without k (snd c)),
      lru_resize = \<lambda>n c. (n, take n (snd c)),
      lru_clear = \<lambda>c. (fst c, []),
      lru_len = \<lambda>c. length (snd c),
      lru_cap = fst\<rparr>"

interpretation recency: lru_cache list_lru snd
  by unfold_locales (simp_all add: list_lru_def)

end
