(* ===== verification/Rust_Str.thy ===== *)
theory Rust_Str
  imports Prelude
begin

text \<open>
  Rust's \<open>str\<close> as the program uses it. A string is the list of the bytes of its UTF-8
  encoding, so that \<open>len\<close>, byte slicing and the search for an ASCII separator mean what
  they mean in Rust. Only whitespace trimming looks at characters beyond ASCII: the
  Unicode \<open>White_Space\<close> characters are recognised by their encodings.
\<close>

section \<open>Characters\<close>

abbreviation code :: "char \<Rightarrow> nat" where
  "code c \<equiv> of_char c"

definition is_ascii_digit :: "char \<Rightarrow> bool" where
  "is_ascii_digit c \<longleftrightarrow> 48 \<le> code c \<and> code c \<le> 57"

definition is_ascii_upper :: "char \<Rightarrow> bool" where
  "is_ascii_upper c \<longleftrightarrow> 65 \<le> code c \<and> code c \<le> 90"

definition is_ascii_lower :: "char \<Rightarrow> bool" where
  "is_ascii_lower c \<longleftrightarrow> 97 \<le> code c \<and> code c \<le> 122"

definition is_ascii_alphanumeric :: "char \<Rightarrow> bool" where
  "is_ascii_alphanumeric c \<longleftrightarrow> is_ascii_digit c \<or> is_ascii_upper c \<or> is_ascii_lower c"

definition is_ascii :: "char \<Rightarrow> bool" where
  "is_ascii c \<longleftrightarrow> code c < 128"

definition ascii_lower :: "char \<Rightarrow> char" where
  "ascii_lower c = (if is_ascii_upper c then char_of (code c + 32) else c)"

definition to_ascii_lowercase :: "string \<Rightarrow> string" where
  "to_ascii_lowercase s = map ascii_lower s"

definition eq_ignore_ascii_case :: "string \<Rightarrow> string \<Rightarrow> bool" where
  "eq_ignore_ascii_case a b \<longleftrightarrow> to_ascii_lowercase a = to_ascii_lowercase b"

text \<open>
  \<open>str::to_lowercase\<close> maps through the Unicode case tables. On an ASCII string that is
  the ASCII mapping; the tables themselves are the parameter \<open>uni\<close>.
\<close>

definition to_lowercase :: "(string \<Rightarrow> string) \<Rightarrow> string \<Rightarrow> string" where
  "to_lowercase uni s = (if list_all is_ascii s then to_ascii_lowercase s else uni s)"

section \<open>Whitespace\<close>

definition ascii_ws :: "char \<Rightarrow> bool" where
  "ascii_ws c \<longleftrightarrow> (9 \<le> code c \<and> code c \<le> 13) \<or> code c = 32"

definition ws2 :: "char \<Rightarrow> char \<Rightarrow> bool" where
  "ws2 a b \<longleftrightarrow> code a = 194 \<and> (code b = 133 \<or> code b = 160)"

definition ws3 :: "char \<Rightarrow> char \<Rightarrow> char \<Rightarrow> bool" where
  "ws3 a b c \<longleftrightarrow>
     (code a = 225 \<and> code b = 154 \<and> code c = 128) \<or>
     (code a = 226 \<and> code b = 128 \<and> (code c \<le> 138 \<and> 128 \<le> code c \<or> code c = 168 \<or> code c = 169 \<or> code c = 175)) \<or>
     (code a = 226 \<and> code b = 129 \<and> code c = 159) \<or>
     (code a = 227 \<and> code b = 128 \<and> code c = 128)"

text \<open>The length of the whitespace character a string starts with, zero if it does not.\<close>

fun ws_len :: "string \<Rightarrow> nat" where
  "ws_len [] = 0"
| "ws_len (a # s) =
     (if ascii_ws a then 1
      else case s of [] \<Rightarrow> 0
        | b # t \<Rightarrow> if ws2 a b then 2
            else case t of [] \<Rightarrow> 0 | c # _ \<Rightarrow> if ws3 a b c then 3 else 0)"

text \<open>The same at the end, on the reversed string.\<close>

fun ws_len_rev :: "string \<Rightarrow> nat" where
  "ws_len_rev [] = 0"
| "ws_len_rev (c # s) =
     (if ascii_ws c then 1
      else case s of [] \<Rightarrow> 0
        | b # t \<Rightarrow> if ws2 b c then 2
            else case t of [] \<Rightarrow> 0 | a # _ \<Rightarrow> if ws3 a b c then 3 else 0)"

lemma ws_len_pos: "0 < ws_len s \<Longrightarrow> 0 < length s"
  by (cases s) simp_all

lemma ws_len_rev_pos: "0 < ws_len_rev s \<Longrightarrow> 0 < length s"
  by (cases s) simp_all

function trim_start :: "string \<Rightarrow> string" where
  "trim_start s = (if ws_len s = 0 then s else trim_start (drop (ws_len s) s))"
  by pat_completeness auto
termination
  by (relation "measure length") (use ws_len_pos in \<open>auto intro: diff_less\<close>)

function trim_start_rev :: "string \<Rightarrow> string" where
  "trim_start_rev s = (if ws_len_rev s = 0 then s else trim_start_rev (drop (ws_len_rev s) s))"
  by pat_completeness auto
termination
  by (relation "measure length") (use ws_len_rev_pos in \<open>auto intro: diff_less\<close>)

declare trim_start.simps [simp del] trim_start_rev.simps [simp del]

definition trim_end :: "string \<Rightarrow> string" where
  "trim_end s = rev (trim_start_rev (rev s))"

definition trim :: "string \<Rightarrow> string" where
  "trim s = trim_end (trim_start s)"

section \<open>Matching and splitting\<close>

definition trim_start_matches :: "char \<Rightarrow> string \<Rightarrow> string" where
  "trim_start_matches c s = dropWhile (\<lambda>x. x = c) s"

definition trim_end_matches :: "char \<Rightarrow> string \<Rightarrow> string" where
  "trim_end_matches c s = rev (dropWhile (\<lambda>x. x = c) (rev s))"

definition trim_matches :: "char \<Rightarrow> string \<Rightarrow> string" where
  "trim_matches c s = trim_end_matches c (trim_start_matches c s)"

fun strip_prefix :: "string \<Rightarrow> string \<Rightarrow> string option" where
  "strip_prefix [] s = Some s"
| "strip_prefix (p # ps) (c # s) = (if p = c then strip_prefix ps s else None)"
| "strip_prefix (p # ps) [] = None"

definition starts_with :: "string \<Rightarrow> string \<Rightarrow> bool" where
  "starts_with p s \<longleftrightarrow> strip_prefix p s \<noteq> None"

definition ends_with :: "string \<Rightarrow> string \<Rightarrow> bool" where
  "ends_with p s \<longleftrightarrow> strip_prefix (rev p) (rev s) \<noteq> None"

definition strip_suffix :: "string \<Rightarrow> string \<Rightarrow> string option" where
  "strip_suffix p s = map_option rev (strip_prefix (rev p) (rev s))"

definition contains_char :: "char \<Rightarrow> string \<Rightarrow> bool" where
  "contains_char c s \<longleftrightarrow> c \<in> set s"

fun contains_str :: "string \<Rightarrow> string \<Rightarrow> bool" where
  "contains_str p [] \<longleftrightarrow> p = []"
| "contains_str p (c # s) \<longleftrightarrow> starts_with p (c # s) \<or> contains_str p s"

fun split_once :: "char \<Rightarrow> string \<Rightarrow> (string \<times> string) option" where
  "split_once c [] = None"
| "split_once c (x # s) =
     (if x = c then Some ([], s)
      else map_option (\<lambda>(a, b). (x # a, b)) (split_once c s))"

definition rsplit_once :: "char \<Rightarrow> string \<Rightarrow> (string \<times> string) option" where
  "rsplit_once c s = map_option (\<lambda>(a, b). (rev b, rev a)) (split_once c (rev s))"

fun split_once_str :: "string \<Rightarrow> string \<Rightarrow> (string \<times> string) option" where
  "split_once_str p [] = (if p = [] then Some ([], []) else None)"
| "split_once_str p (x # s) =
     (case strip_prefix p (x # s) of
        Some r \<Rightarrow> Some ([], r)
      | None \<Rightarrow> map_option (\<lambda>(a, b). (x # a, b)) (split_once_str p s))"

text \<open>\<open>split_once(char::is_whitespace)\<close>\<close>

fun split_once_ws :: "string \<Rightarrow> (string \<times> string) option" where
  "split_once_ws [] = None"
| "split_once_ws (x # s) =
     (if ws_len (x # s) = 0 then map_option (\<lambda>(a, b). (x # a, b)) (split_once_ws s)
      else Some ([], drop (ws_len (x # s)) (x # s)))"

text \<open>\<open>split(c)\<close>: one piece more than there are separators.\<close>

fun split :: "char \<Rightarrow> string \<Rightarrow> string list" where
  "split c [] = [[]]"
| "split c (x # s) =
     (if x = c then [] # split c s
      else case split c s of [] \<Rightarrow> [[x]] | p # ps \<Rightarrow> (x # p) # ps)"

text \<open>The characters U+2014 and U+2026 of messages.\<close>

definition em_dash :: string where "em_dash = [CHR 0xE2, CHR 0x80, CHR 0x94]"
definition ellipsis :: string where "ellipsis = [CHR 0xE2, CHR 0x80, CHR 0xA6]"

text \<open>\<open>str::lines\<close>: the text cut after every newline, each line without its newline and
  without a carriage return before it; the text after the last newline is a line if it is
  not empty.\<close>

definition strip_cr :: "string \<Rightarrow> string" where
  "strip_cr l = (if l \<noteq> [] \<and> last l = CHR 0x0D then butlast l else l)"

fun lines_from :: "string \<Rightarrow> string \<Rightarrow> string list" where
  "lines_from acc [] = (if acc = [] then [] else [rev acc])"
| "lines_from acc (c # s) =
     (if c = CHR 0x0A then strip_cr (rev acc) # lines_from [] s else lines_from (c # acc) s)"

definition lines :: "string \<Rightarrow> string list" where
  "lines s = lines_from [] s"

section \<open>Lemmas on characters\<close>

lemma code_char_of [simp]: "n < 256 \<Longrightarrow> code (char_of n) = n"
  by (simp add: of_char_of)

lemma code_ascii_lower:
  "code (ascii_lower c) = (if is_ascii_upper c then code c + 32 else code c)"
  by (auto simp: ascii_lower_def is_ascii_upper_def)

lemma not_upper_ascii_lower [simp]: "\<not> is_ascii_upper (ascii_lower c)"
  by (auto simp: is_ascii_upper_def code_ascii_lower)

lemma ascii_lower_idem [simp]: "ascii_lower (ascii_lower c) = ascii_lower c"
  by (subst ascii_lower_def) simp

lemma ascii_lower_id: "\<not> is_ascii_upper c \<Longrightarrow> ascii_lower c = c"
  by (simp add: ascii_lower_def)

lemma ascii_lower_alphanumeric [simp]:
  "is_ascii_alphanumeric (ascii_lower c) = is_ascii_alphanumeric c"
  by (auto simp: is_ascii_alphanumeric_def is_ascii_upper_def is_ascii_lower_def
      is_ascii_digit_def code_ascii_lower)

lemma ascii_lower_eq_iff: "\<not> is_ascii_alphanumeric d \<Longrightarrow> ascii_lower c = d \<longleftrightarrow> c = d"
  by (metis ascii_lower_alphanumeric ascii_lower_id is_ascii_alphanumeric_def)

lemma length_to_ascii_lowercase [simp]: "length (to_ascii_lowercase s) = length s"
  by (simp add: to_ascii_lowercase_def)

lemma to_ascii_lowercase_idem [simp]: "to_ascii_lowercase (to_ascii_lowercase s) = to_ascii_lowercase s"
  by (simp add: to_ascii_lowercase_def)

lemma to_ascii_lowercase_id: "list_all (\<lambda>c. \<not> is_ascii_upper c) s \<Longrightarrow> to_ascii_lowercase s = s"
  by (auto simp: to_ascii_lowercase_def list_all_iff ascii_lower_id intro: map_idI)

lemma to_ascii_lowercase_Nil [simp]: "to_ascii_lowercase s = [] \<longleftrightarrow> s = []"
  by (simp add: to_ascii_lowercase_def)

lemma no_upper_to_ascii_lowercase: "list_all (\<lambda>c. \<not> is_ascii_upper c) (to_ascii_lowercase s)"
  by (simp add: to_ascii_lowercase_def list_all_iff)

section \<open>Lemmas on trimming\<close>

text \<open>A printable ASCII character other than the space: never part of a whitespace character.\<close>

definition graphic :: "char \<Rightarrow> bool" where
  "graphic c \<longleftrightarrow> 33 \<le> code c \<and> code c \<le> 126"

lemma ws_len_graphic: "graphic a \<Longrightarrow> ws_len (a # s) = 0"
  by (auto simp: graphic_def ascii_ws_def ws2_def ws3_def split: list.splits)

lemma ws_len_rev_graphic: "graphic a \<Longrightarrow> ws_len_rev (a # s) = 0"
  by (auto simp: graphic_def ascii_ws_def ws2_def ws3_def split: list.splits)

lemma ws_len_take: "ws_len s = 0 \<Longrightarrow> ws_len (take n s) = 0"
proof (induction s rule: ws_len.induct)
  case (2 a s)
  then show ?case
    by (cases n; cases "n - 1"; cases "n - 2")
      (auto split: list.splits if_splits)
qed simp

lemma ws_len_trim_start: "ws_len (trim_start s) = 0"
  by (induction s rule: trim_start.induct) (subst trim_start.simps, simp)

lemma ws_len_rev_trim_start_rev: "ws_len_rev (trim_start_rev s) = 0"
  by (induction s rule: trim_start_rev.induct) (subst trim_start_rev.simps, simp)

lemma trim_start_id: "ws_len s = 0 \<Longrightarrow> trim_start s = s"
  by (subst trim_start.simps) simp

lemma trim_start_rev_id: "ws_len_rev s = 0 \<Longrightarrow> trim_start_rev s = s"
  by (subst trim_start_rev.simps) simp

lemma trim_start_drop: "\<exists>n. trim_start s = drop n s"
proof (induction s rule: trim_start.induct)
  case (1 s)
  show ?case
  proof (cases "ws_len s = 0")
    case True
    then show ?thesis by (metis drop0 trim_start_id)
  next
    case False
    with 1 show ?thesis by (subst trim_start.simps) auto
  qed
qed

lemma trim_start_rev_drop: "\<exists>n. trim_start_rev s = drop n s"
proof (induction s rule: trim_start_rev.induct)
  case (1 s)
  show ?case
  proof (cases "ws_len_rev s = 0")
    case True
    then show ?thesis by (metis drop0 trim_start_rev_id)
  next
    case False
    with 1 show ?thesis by (subst trim_start_rev.simps) auto
  qed
qed

lemma trim_end_take: "\<exists>n. trim_end s = take n s"
  by (metis trim_end_def trim_start_rev_drop rev_drop rev_rev_ident)

lemma trim_end_id: "ws_len_rev (rev s) = 0 \<Longrightarrow> trim_end s = s"
  by (simp add: trim_end_def trim_start_rev_id)

text \<open>What \<open>trim\<close> leaves neither starts nor ends with whitespace.\<close>

definition trimmed :: "string \<Rightarrow> bool" where
  "trimmed s \<longleftrightarrow> ws_len s = 0 \<and> ws_len_rev (rev s) = 0"

lemma trimmed_trim [simp]: "trimmed (trim s)"
proof -
  obtain n where "trim s = take n (trim_start s)"
    using trim_end_take [of "trim_start s"] by (auto simp: trim_def)
  then have "ws_len (trim s) = 0"
    by (simp only: ws_len_take [OF ws_len_trim_start])
  moreover have "ws_len_rev (rev (trim s)) = 0"
    by (simp add: trim_def trim_end_def ws_len_rev_trim_start_rev)
  ultimately show ?thesis by (simp add: trimmed_def)
qed

lemma trim_id: "trimmed s \<Longrightarrow> trim s = s"
  by (simp add: trimmed_def trim_def trim_start_id trim_end_id)

lemma trim_idem [simp]: "trim (trim s) = trim s"
  by (simp add: trim_id)

lemma trimmed_Nil [simp]: "trimmed []"
  by (simp add: trimmed_def)

lemma trim_Nil [simp]: "trim [] = []"
  by (simp add: trim_id)

lemma set_trim_subset: "set (trim s) \<subseteq> set s"
  by (metis trim_def trim_end_take trim_start_drop set_drop_subset set_take_subset subset_trans)

lemma trimmed_graphic_ends: "s = [] \<or> graphic (hd s) \<and> graphic (last s) \<Longrightarrow> trimmed s"
proof (cases "s = []")
  case False
  assume *: "s = [] \<or> graphic (hd s) \<and> graphic (last s)"
  obtain a t where s: "s = a # t" using False by (cases s) auto
  obtain z u where z: "rev s = z # u" using False by (cases "rev s") auto
  then have "last s = z" by (metis hd_rev list.sel(1))
  with * False s z show ?thesis
    by (simp only: trimmed_def ws_len_graphic ws_len_rev_graphic list.sel simp_thms)
qed (simp add: trimmed_def)

lemma trimmed_graphic: "list_all graphic s \<Longrightarrow> trimmed s"
  by (rule trimmed_graphic_ends) (auto simp: list_all_iff)

lemma trim_graphic [simp]: "list_all graphic s \<Longrightarrow> trim s = s"
  by (simp add: trim_id trimmed_graphic)

lemma trimmed_hd_not_ws: "trimmed s \<Longrightarrow> s \<noteq> [] \<Longrightarrow> \<not> ascii_ws (hd s)"
  by (cases s) (auto simp: trimmed_def split: if_splits)

lemma trimmed_last_not_ws: "trimmed s \<Longrightarrow> s \<noteq> [] \<Longrightarrow> \<not> ascii_ws (last s)"
  by (cases s rule: rev_cases) (auto simp: trimmed_def split: if_splits)

section \<open>Lemmas on matching and splitting\<close>

lemma strip_prefix_Some: "strip_prefix p s = Some r \<longleftrightarrow> s = p @ r"
  by (induction p s rule: strip_prefix.induct) auto

lemma strip_prefix_append [simp]: "strip_prefix p (p @ r) = Some r"
  by (simp add: strip_prefix_Some)

lemma starts_with_iff: "starts_with p s \<longleftrightarrow> (\<exists>r. s = p @ r)"
  by (auto simp: starts_with_def strip_prefix_Some)

lemma starts_with_append [simp]: "starts_with p (p @ r)"
  by (auto simp: starts_with_iff)

lemma ends_with_iff: "ends_with p s \<longleftrightarrow> (\<exists>r. s = r @ p)"
  by (auto simp: ends_with_def strip_prefix_Some) (metis rev_append rev_rev_ident)

lemma ends_with_append [simp]: "ends_with p (r @ p)"
  by (auto simp: ends_with_iff)

lemma strip_suffix_Some: "strip_suffix p s = Some r \<longleftrightarrow> s = r @ p"
  by (auto simp: strip_suffix_def strip_prefix_Some rev_eq_append_conv intro: exI [of _ "rev r"])

lemma contains_str_iff: "contains_str p s \<longleftrightarrow> (\<exists>u v. s = u @ p @ v)"
proof (induction s)
  case (Cons c s)
  then show ?case
    by (auto simp: starts_with_iff Cons_eq_append_conv)
qed simp

lemma split_once_None [simp]: "split_once c s = None \<longleftrightarrow> c \<notin> set s"
  by (induction s) auto

lemma split_once_Some: "split_once c s = Some (a, b) \<longleftrightarrow> s = a @ c # b \<and> c \<notin> set a"
  by (induction s arbitrary: a b) (auto simp: Cons_eq_append_conv append_eq_Cons_conv)

lemma split_once_append [simp]: "c \<notin> set a \<Longrightarrow> split_once c (a @ c # b) = Some (a, b)"
  by (simp add: split_once_Some)

lemma rsplit_once_None [simp]: "rsplit_once c s = None \<longleftrightarrow> c \<notin> set s"
  by (simp add: rsplit_once_def)

lemma rsplit_once_Some: "rsplit_once c s = Some (a, b) \<longleftrightarrow> s = a @ c # b \<and> c \<notin> set b"
  by (auto simp: rsplit_once_def split_once_Some) 
    (metis append.assoc append_Cons append_Nil rev.simps(2) rev_append rev_rev_ident set_rev)+

lemma rsplit_once_append [simp]: "c \<notin> set b \<Longrightarrow> rsplit_once c (a @ c # b) = Some (a, b)"
  by (simp add: rsplit_once_Some)

lemma split_once_ws_graphic:
  "list_all graphic a \<Longrightarrow> ascii_ws w \<Longrightarrow> split_once_ws (a @ w # b) = Some (a, b)"
proof (induction a)
  case (Cons x a)
  then show ?case by (simp add: ws_len_graphic del: ws_len.simps)
qed simp

lemma split_once_ws_None_graphic: "list_all graphic a \<Longrightarrow> split_once_ws a = None"
  by (induction a) (auto simp: ws_len_graphic simp del: ws_len.simps)

lemma split_ne [simp]: "split c s \<noteq> []"
  by (induction s) (auto split: list.splits)

lemma split_no_sep: "c \<notin> set s \<Longrightarrow> split c s = [s]"
  by (induction s) auto

lemma split_append_sep: "c \<notin> set a \<Longrightarrow> split c (a @ c # s) = a # split c s"
  by (induction a) auto

lemma hd_split: "hd (split c s) = takeWhile (\<lambda>x. x \<noteq> c) s"
  by (induction s) (auto split: list.splits)

lemma split_pieces: "p \<in> set (split c s) \<Longrightarrow> c \<notin> set p \<and> set p \<subseteq> set s"
proof (induction s arbitrary: p)
  case (Cons x s)
  then show ?case by (cases "split c s") (auto split: if_splits, blast+)
qed simp

lemma lines_from_line:
  "CHR 0x0A \<notin> set l \<Longrightarrow>
   lines_from acc (l @ CHR 0x0A # s) = strip_cr (rev acc @ l) # lines_from [] s"
  by (induction l arbitrary: acc) auto

lemma lines_line:
  "CHR 0x0A \<notin> set l \<Longrightarrow> lines (l @ CHR 0x0A # s) = strip_cr l # lines s"
  by (simp add: lines_def lines_from_line)

lemma lines_Nil [simp]: "lines [] = []"
  by (simp add: lines_def)

lemma strip_cr_id: "l = [] \<or> last l \<noteq> CHR 0x0D \<Longrightarrow> strip_cr l = l"
  by (auto simp: strip_cr_def)

text \<open>A text printed one line at a time reads back as those lines.\<close>

definition printable_line :: "string \<Rightarrow> bool" where
  "printable_line l \<longleftrightarrow> CHR 0x0A \<notin> set l \<and> (l = [] \<or> last l \<noteq> CHR 0x0D)"

lemma lines_concat:
  "\<forall>l\<in>set ls. printable_line l \<Longrightarrow> lines (concat (map (\<lambda>l. l @ [CHR 0x0A]) ls)) = ls"
  by (induction ls) (auto simp: lines_line strip_cr_id printable_line_def)

lemma printable_line_trimmed: "trimmed l \<Longrightarrow> CHR 0x0A \<notin> set l \<Longrightarrow> printable_line l"
  using trimmed_last_not_ws [of l] by (auto simp: printable_line_def ascii_ws_def)

lemma lines_from_no_newline: "CHR 0x0A \<notin> set acc \<Longrightarrow> l \<in> set (lines_from acc s) \<Longrightarrow> CHR 0x0A \<notin> set l"
proof (induction acc s rule: lines_from.induct)
  case (2 acc c s)
  then show ?case
    by (cases acc) (auto simp: strip_cr_def split: if_splits)
qed (auto split: if_splits)

lemma lines_no_newline: "l \<in> set (lines s) \<Longrightarrow> CHR 0x0A \<notin> set l"
  by (auto simp: lines_def dest: lines_from_no_newline [rotated])

lemma trim_end_matches_last: "trim_end_matches c s = [] \<or> last (trim_end_matches c s) \<noteq> c"
proof (cases "dropWhile (\<lambda>x. x = c) (rev s)")
  case (Cons a t)
  then have "a \<noteq> c" by (metis (full_types) hd_dropWhile list.distinct(1) list.sel(1))
  with Cons show ?thesis by (simp add: trim_end_matches_def)
qed (simp add: trim_end_matches_def)

lemma trim_end_matches_id: "s = [] \<or> last s \<noteq> c \<Longrightarrow> trim_end_matches c s = s"
  by (cases s rule: rev_cases) (auto simp: trim_end_matches_def)

lemma trim_end_matches_idem [simp]:
  "trim_end_matches c (trim_end_matches c s) = trim_end_matches c s"
  by (rule trim_end_matches_id) (rule trim_end_matches_last)

lemma set_trim_end_matches_subset: "set (trim_end_matches c s) \<subseteq> set s"
  by (auto simp: trim_end_matches_def dest: set_dropWhileD)

lemma trim_start_matches_hd: "trim_start_matches c s = [] \<or> hd (trim_start_matches c s) \<noteq> c"
  by (metis (full_types) hd_dropWhile trim_start_matches_def)

lemma trim_start_matches_id: "s = [] \<or> hd s \<noteq> c \<Longrightarrow> trim_start_matches c s = s"
  by (cases s) (auto simp: trim_start_matches_def)

lemma set_trim_start_matches_subset: "set (trim_start_matches c s) \<subseteq> set s"
  by (auto simp: trim_start_matches_def dest: set_dropWhileD)

lemma to_ascii_lowercase_append [simp]:
  "to_ascii_lowercase (a @ b) = to_ascii_lowercase a @ to_ascii_lowercase b"
  by (simp add: to_ascii_lowercase_def)

lemma list_all_to_ascii_lowercase:
  "(\<And>c. P c \<Longrightarrow> P (ascii_lower c)) \<Longrightarrow> list_all P s \<Longrightarrow> list_all P (to_ascii_lowercase s)"
  by (auto simp: to_ascii_lowercase_def list_all_iff)

lemma graphic_ascii_lower [simp]: "graphic (ascii_lower c) = graphic c"
  by (auto simp: graphic_def code_ascii_lower is_ascii_upper_def)

lemma graphic_ascii: "graphic c \<Longrightarrow> is_ascii c"
  by (simp add: graphic_def is_ascii_def)

lemma alphanumeric_graphic: "is_ascii_alphanumeric c \<Longrightarrow> graphic c"
  by (auto simp: is_ascii_alphanumeric_def graphic_def is_ascii_digit_def is_ascii_upper_def
      is_ascii_lower_def)

lemma to_lowercase_ascii: "list_all is_ascii s \<Longrightarrow> to_lowercase uni s = to_ascii_lowercase s"
  by (simp add: to_lowercase_def)

lemma trim_matches_ends:
  "trim_matches c s = [] \<or> hd (trim_matches c s) \<noteq> c \<and> last (trim_matches c s) \<noteq> c"
proof -
  let ?t = "trim_start_matches c s"
  have "\<exists>n. trim_matches c s = take n ?t"
    unfolding trim_matches_def trim_end_matches_def
    by (metis dropWhile_eq_drop rev_drop rev_rev_ident)
  then obtain n where n: "trim_matches c s = take n ?t" by blast
  have "trim_matches c s = [] \<or> hd (trim_matches c s) \<noteq> c"
    using trim_start_matches_hd [of c s] by (cases ?t; cases n) (auto simp: n)
  moreover have "trim_matches c s = [] \<or> last (trim_matches c s) \<noteq> c"
    unfolding trim_matches_def by (rule trim_end_matches_last)
  ultimately show ?thesis by blast
qed

lemma set_trim_matches_subset: "set (trim_matches c s) \<subseteq> set s"
  unfolding trim_matches_def
  using set_trim_end_matches_subset set_trim_start_matches_subset by fast

lemma trim_matches_id: "s = [] \<or> hd s \<noteq> c \<and> last s \<noteq> c \<Longrightarrow> trim_matches c s = s"
  by (auto simp: trim_matches_def trim_start_matches_id trim_end_matches_id)

end
