(* ===== verification/Rust_Net.thy ===== *)
theory Rust_Net
  imports Rust_Str
begin

text \<open>
  Numbers and network addresses as Rust's standard library prints and parses them:
  \<open>u16::from_str\<close> and its kin, \<open>Ipv4Addr\<close>, \<open>Ipv6Addr\<close> and \<open>IpAddr\<close>. The address parser
  follows \<open>core::net::parser\<close> step by step: \<open>read_number\<close>, \<open>read_ipv4_addr\<close> and
  \<open>read_groups\<close> with the embedded IPv4 tail and the \<open>::\<close> gap. The main results are the
  round trips \<open>parse (show a) = Some a\<close>, which the record files of the program rest on.
\<close>

section \<open>Digits and numbers\<close>

definition digit_char :: "nat \<Rightarrow> char" where
  "digit_char d = (if d < 10 then char_of (48 + d) else char_of (87 + d))"

definition to_digit :: "nat \<Rightarrow> char \<Rightarrow> nat option" where
  "to_digit radix c =
     (let d = (if is_ascii_digit c then code c - 48
               else if is_ascii_lower c then code c - 87
               else if is_ascii_upper c then code c - 55 else 36)
      in if d < radix then Some d else None)"

function show_radix :: "nat \<Rightarrow> nat \<Rightarrow> string" where
  "show_radix b n =
     (if n < b \<or> b < 2 then [digit_char n]
      else show_radix b (n div b) @ [digit_char (n mod b)])"
  by pat_completeness auto
termination
  by (relation "measure snd") auto

declare show_radix.simps [simp del]

abbreviation show_nat :: "nat \<Rightarrow> string" where
  "show_nat \<equiv> show_radix 10"

definition digits_val :: "nat \<Rightarrow> string \<Rightarrow> nat" where
  "digits_val b s = foldl (\<lambda>v c. v * b + the (to_digit b c)) 0 s"

definition is_digit :: "nat \<Rightarrow> char \<Rightarrow> bool" where
  "is_digit b c \<longleftrightarrow> to_digit b c \<noteq> None"

text \<open>\<open>uN::from_str\<close> for an unsigned type with greatest value \<open>mx\<close>.\<close>

definition parse_uint :: "nat \<Rightarrow> string \<Rightarrow> nat option" where
  "parse_uint mx s =
     (let d = (case s of [] \<Rightarrow> [] | c # t \<Rightarrow> if c = CHR ''+'' then t else s)
      in if d \<noteq> [] \<and> list_all (is_digit 10) d \<and> digits_val 10 d \<le> mx
         then Some (digits_val 10 d) else None)"

definition parse_u16 :: "string \<Rightarrow> u16 option" where
  "parse_u16 s = map_option of_nat (parse_uint 65535 s)"

definition parse_u64 :: "string \<Rightarrow> u64 option" where
  "parse_u64 s = map_option of_nat (parse_uint 18446744073709551615 s)"

section \<open>Addresses\<close>

datatype ipv4 = Ipv4 u8 u8 u8 u8

datatype ipv6 = Ipv6 u16 u16 u16 u16 u16 u16 u16 u16

datatype ip_addr = V4 ipv4 | V6 ipv6

fun segments :: "ipv6 \<Rightarrow> u16 list" where
  "segments (Ipv6 a b c d e f g h) = [a, b, c, d, e, f, g, h]"

fun ipv6_of :: "u16 list \<Rightarrow> ipv6" where
  "ipv6_of [a, b, c, d, e, f, g, h] = Ipv6 a b c d e f g h"
| "ipv6_of _ = Ipv6 0 0 0 0 0 0 0 0"

fun is_unspecified :: "ip_addr \<Rightarrow> bool" where
  "is_unspecified (V4 a) \<longleftrightarrow> a = Ipv4 0 0 0 0"
| "is_unspecified (V6 a) \<longleftrightarrow> a = Ipv6 0 0 0 0 0 0 0 0"

fun is_v4 :: "ip_addr \<Rightarrow> bool" where
  "is_v4 (V4 _) = True"
| "is_v4 (V6 _) = False"

subsection \<open>Parsing\<close>

definition read_number :: "nat \<Rightarrow> nat \<Rightarrow> bool \<Rightarrow> nat \<Rightarrow> string \<Rightarrow> (nat \<times> string) option" where
  "read_number radix max_digits allow_zero_prefix mx s =
     (let ds = takeWhile (is_digit radix) s; v = digits_val radix ds
      in if length ds > max_digits \<or> v > mx \<or> ds = []
            \<or> (\<not> allow_zero_prefix \<and> hd ds = CHR ''0'' \<and> length ds > 1)
         then None else Some (v, dropWhile (is_digit radix) s))"

fun read_given_char :: "char \<Rightarrow> string \<Rightarrow> string option" where
  "read_given_char c [] = None"
| "read_given_char c (x # s) = (if x = c then Some s else None)"

text \<open>\<open>read_separator\<close>: the separator is read before every element but the first.\<close>

definition read_separator :: "char \<Rightarrow> nat \<Rightarrow> (string \<Rightarrow> 'a option) \<Rightarrow> string \<Rightarrow> 'a option" where
  "read_separator sep index inner s =
     (if index > 0 then Option.bind (read_given_char sep s) inner else inner s)"

definition read_octet :: "nat \<Rightarrow> string \<Rightarrow> (nat \<times> string) option" where
  "read_octet i s = read_separator CHR ''.'' i (read_number 10 3 False 255) s"

definition read_ipv4_addr :: "string \<Rightarrow> (ipv4 \<times> string) option" where
  "read_ipv4_addr s =
     Option.bind (read_octet 0 s) (\<lambda>(a, s1).
     Option.bind (read_octet 1 s1) (\<lambda>(b, s2).
     Option.bind (read_octet 2 s2) (\<lambda>(c, s3).
     Option.bind (read_octet 3 s3) (\<lambda>(d, s4).
       Some (Ipv4 (of_nat a) (of_nat b) (of_nat c) (of_nat d), s4)))))"

definition be_bytes :: "u8 \<Rightarrow> u8 \<Rightarrow> u16" where
  "be_bytes hi lo = of_nat (unat hi * 256 + unat lo)"

fun v4_groups :: "ipv4 \<Rightarrow> u16 list" where
  "v4_groups (Ipv4 a b c d) = [be_bytes a b, be_bytes c d]"

text \<open>\<open>read_groups\<close>: \<open>left\<close> slots from slot \<open>i\<close> on; the groups read, whether the last two
  came from an embedded IPv4 address, and the rest of the input.\<close>

fun read_groups :: "nat \<Rightarrow> nat \<Rightarrow> string \<Rightarrow> u16 list \<times> bool \<times> string" where
  "read_groups 0 i s = ([], False, s)"
| "read_groups (Suc left) i s =
     (case (if left > 0 then read_separator CHR '':'' i read_ipv4_addr s else None) of
        Some (a, s') \<Rightarrow> (v4_groups a, True, s')
      | None \<Rightarrow>
          (case read_separator CHR '':'' i (read_number 16 4 True 65535) s of
             None \<Rightarrow> ([], False, s)
           | Some (g, s') \<Rightarrow>
               (case read_groups left (Suc i) s' of (gs, v4, r) \<Rightarrow> (of_nat g # gs, v4, r))))"

definition read_ipv6_addr :: "string \<Rightarrow> (ipv6 \<times> string) option" where
  "read_ipv6_addr s =
     (case read_groups 8 0 s of (hd_gs, head_ipv4, s1) \<Rightarrow>
        if length hd_gs = 8 then Some (ipv6_of hd_gs, s1)
        else if head_ipv4 then None
        else Option.bind (read_given_char CHR '':'' s1) (\<lambda>s2.
             Option.bind (read_given_char CHR '':'' s2) (\<lambda>s3.
               case read_groups (8 - (length hd_gs + 1)) 0 s3 of (tl_gs, _, s4) \<Rightarrow>
                 Some (ipv6_of (hd_gs @ replicate (8 - length hd_gs - length tl_gs) 0 @ tl_gs), s4))))"

text \<open>\<open>parse_with\<close>: the whole input must be consumed.\<close>

definition parse_with :: "(string \<Rightarrow> ('a \<times> string) option) \<Rightarrow> string \<Rightarrow> 'a option" where
  "parse_with inner s =
     (case inner s of Some (a, []) \<Rightarrow> Some a | _ \<Rightarrow> None)"

definition parse_ipv4 :: "string \<Rightarrow> ipv4 option" where
  "parse_ipv4 s = (if length s > 15 then None else parse_with read_ipv4_addr s)"

definition parse_ipv6 :: "string \<Rightarrow> ipv6 option" where
  "parse_ipv6 s = parse_with read_ipv6_addr s"

definition read_ip_addr :: "string \<Rightarrow> (ip_addr \<times> string) option" where
  "read_ip_addr s =
     (case read_ipv4_addr s of
        Some (a, r) \<Rightarrow> Some (V4 a, r)
      | None \<Rightarrow> map_option (\<lambda>(a, r). (V6 a, r)) (read_ipv6_addr s))"

definition parse_ip :: "string \<Rightarrow> ip_addr option" where
  "parse_ip s = parse_with read_ip_addr s"

subsection \<open>Printing\<close>

fun show_ipv4 :: "ipv4 \<Rightarrow> string" where
  "show_ipv4 (Ipv4 a b c d) =
     show_nat (unat a) @ ''.'' @ show_nat (unat b) @ ''.'' @ show_nat (unat c) @ ''.'' @ show_nat (unat d)"

text \<open>The first longest run of zero segments, as (start, length).\<close>

fun zero_span :: "nat \<Rightarrow> nat \<times> nat \<Rightarrow> nat \<times> nat \<Rightarrow> u16 list \<Rightarrow> nat \<times> nat" where
  "zero_span i longest current [] = longest"
| "zero_span i longest (cs, cl) (x # xs) =
     (if x = 0 then
        let cur = (if cl = 0 then i else cs, cl + 1)
        in zero_span (Suc i) (if snd cur > snd longest then cur else longest) cur xs
      else zero_span (Suc i) longest (0, 0) xs)"

definition show_groups :: "u16 list \<Rightarrow> string" where
  "show_groups gs = join '':'' (map (\<lambda>g. show_radix 16 (unat g)) gs)"

fun to_ipv4_mapped :: "ipv6 \<Rightarrow> ipv4 option" where
  "to_ipv4_mapped (Ipv6 a b c d e f g h) =
     (if a = 0 \<and> b = 0 \<and> c = 0 \<and> d = 0 \<and> e = 0 \<and> f = 65535
      then Some (Ipv4 (of_nat (unat g div 256)) (of_nat (unat g mod 256))
                      (of_nat (unat h div 256)) (of_nat (unat h mod 256)))
      else None)"

definition show_ipv6 :: "ipv6 \<Rightarrow> string" where
  "show_ipv6 a =
     (case to_ipv4_mapped a of
        Some v4 \<Rightarrow> ''::ffff:'' @ show_ipv4 v4
      | None \<Rightarrow>
          (case zero_span 0 (0, 0) (0, 0) (segments a) of (st, ln) \<Rightarrow>
             if ln > 1
             then show_groups (take st (segments a)) @ ''::'' @ show_groups (drop (st + ln) (segments a))
             else show_groups (segments a)))"

fun show_ip :: "ip_addr \<Rightarrow> string" where
  "show_ip (V4 a) = show_ipv4 a"
| "show_ip (V6 a) = show_ipv6 a"

subsection \<open>Socket addresses\<close>

datatype socket_addr = SockV4 ipv4 u16 | SockV6 ipv6 u16 u32

definition read_port :: "string \<Rightarrow> (u16 \<times> string) option" where
  "read_port s =
     Option.bind (read_given_char CHR '':'' s) (\<lambda>r.
       map_option (\<lambda>(n, t). (of_nat n, t)) (read_number 10 (length r) True 65535 r))"

definition read_scope_id :: "string \<Rightarrow> (u32 \<times> string) option" where
  "read_scope_id s =
     Option.bind (read_given_char CHR ''%'' s) (\<lambda>r.
       map_option (\<lambda>(n, t). (of_nat n, t)) (read_number 10 (length r) True 4294967295 r))"

definition read_socket_addr_v4 :: "string \<Rightarrow> (socket_addr \<times> string) option" where
  "read_socket_addr_v4 s =
     Option.bind (read_ipv4_addr s) (\<lambda>(a, r).
       map_option (\<lambda>(p, t). (SockV4 a p, t)) (read_port r))"

definition read_socket_addr_v6 :: "string \<Rightarrow> (socket_addr \<times> string) option" where
  "read_socket_addr_v6 s =
     Option.bind (read_given_char CHR ''['' s) (\<lambda>s1.
     Option.bind (read_ipv6_addr s1) (\<lambda>(a, s2).
     let (scope, s3) = (case read_scope_id s2 of Some (i, t) \<Rightarrow> (i, t) | None \<Rightarrow> (0, s2)) in
     Option.bind (read_given_char CHR '']'' s3) (\<lambda>s4.
       map_option (\<lambda>(p, t). (SockV6 a p scope, t)) (read_port s4))))"

definition parse_socket_addr :: "string \<Rightarrow> socket_addr option" where
  "parse_socket_addr s =
     parse_with (\<lambda>s. case read_socket_addr_v4 s of Some x \<Rightarrow> Some x | None \<Rightarrow> read_socket_addr_v6 s) s"

section \<open>Printed numbers parse back\<close>

lemma code_digit_char:
  "d < 16 \<Longrightarrow> code (digit_char d) = (if d < 10 then 48 + d else 87 + d)"
  by (simp add: digit_char_def)

lemma to_digit_digit_char: "d < b \<Longrightarrow> b \<le> 16 \<Longrightarrow> to_digit b (digit_char d) = Some d"
  by (auto simp: to_digit_def is_ascii_digit_def is_ascii_lower_def code_digit_char Let_def)

lemma to_digit_less: "to_digit b c = Some d \<Longrightarrow> d < b"
  by (auto simp: to_digit_def Let_def split: if_splits)

lemma is_digit_digit_char [simp]: "d < b \<Longrightarrow> b \<le> 16 \<Longrightarrow> is_digit b (digit_char d)"
  by (simp add: is_digit_def to_digit_digit_char)

lemma digits_val_Nil [simp]: "digits_val b [] = 0"
  by (simp add: digits_val_def)

lemma digits_val_snoc [simp]: "digits_val b (s @ [c]) = digits_val b s * b + the (to_digit b c)"
  by (simp add: digits_val_def)

lemma digits_show_radix: "2 \<le> b \<Longrightarrow> b \<le> 16 \<Longrightarrow> list_all (is_digit b) (show_radix b n)"
proof (induction b n rule: show_radix.induct)
  case (1 b n)
  then show ?case
    by (subst show_radix.simps) auto
qed

lemma digits_val_show_radix: "2 \<le> b \<Longrightarrow> b \<le> 16 \<Longrightarrow> digits_val b (show_radix b n) = n"
proof (induction b n rule: show_radix.induct)
  case (1 b n)
  show ?case
  proof (cases "n < b")
    case True
    then have "digits_val b ([] @ [digit_char n]) = n"
      using 1 by (subst digits_val_snoc) (simp add: to_digit_digit_char)
    with True show ?thesis by (subst show_radix.simps) simp
  next
    case False
    with 1 show ?thesis
      by (subst show_radix.simps) (simp add: to_digit_digit_char)
  qed
qed

lemma show_radix_ne [simp]: "show_radix b n \<noteq> []"
  by (subst show_radix.simps) simp

text \<open>Printing has no leading zero.\<close>

lemma hd_show_radix: "2 \<le> b \<Longrightarrow> b \<le> 16 \<Longrightarrow> 0 < n \<Longrightarrow> hd (show_radix b n) \<noteq> CHR ''0''"
proof (induction b n rule: show_radix.induct)
  case (1 b n)
  show ?case
  proof (cases "n < b")
    case True
    with 1 have "code (digit_char n) \<noteq> 48" by (simp add: code_digit_char)
    moreover have "code CHR ''0'' = 48" by simp
    ultimately show ?thesis using True by (subst show_radix.simps) force
  next
    case False
    with 1 show ?thesis by (subst show_radix.simps) (simp add: div_greater_zero_iff)
  qed
qed

lemma show_radix_0: "2 \<le> b \<Longrightarrow> show_radix b 0 = ''0''"
proof -
  have "char_of (48 :: nat) = CHR ''0''" by code_simp
  moreover assume "2 \<le> b"
  ultimately show ?thesis by (subst show_radix.simps) (simp add: digit_char_def)
qed

lemma length_show_radix:
  "2 \<le> b \<Longrightarrow> n < b ^ Suc k \<Longrightarrow> length (show_radix b n) \<le> Suc k"
proof (induction b n arbitrary: k rule: show_radix.induct)
  case (1 b n)
  show ?case
  proof (cases "n < b")
    case True
    then show ?thesis by (subst show_radix.simps) simp
  next
    case False
    with 1 obtain j where k: "k = Suc j" by (cases k) auto
    have "n div b < b ^ Suc j"
      using 1(3) k by (simp add: less_mult_imp_div_less mult.commute)
    with False 1 k show ?thesis by (subst show_radix.simps) simp
  qed
qed

lemma is_digit_alnum: "is_digit b c \<Longrightarrow> b \<le> 36 \<Longrightarrow> is_ascii_alphanumeric c"
  by (auto simp: is_digit_def to_digit_def is_ascii_alphanumeric_def Let_def split: if_splits)

lemma not_digit_punct [simp]:
  "\<not> is_digit 10 CHR ''.''" "\<not> is_digit 10 CHR '':''" "\<not> is_digit 16 CHR '':''"
  "\<not> is_digit 16 CHR ''.''" "\<not> is_digit 10 CHR ''+''" "\<not> is_digit 10 CHR '']''"
  by code_simp+

lemma show_radix_graphic: "2 \<le> b \<Longrightarrow> b \<le> 16 \<Longrightarrow> list_all graphic (show_radix b n)"
  using digits_show_radix [of b n]
  by (auto simp: list_all_iff dest!: bspec is_digit_alnum intro: alphanumeric_graphic)

lemma parse_uint_show: "n \<le> mx \<Longrightarrow> parse_uint mx (show_nat n) = Some n"
proof -
  assume "n \<le> mx"
  have d: "list_all (is_digit 10) (show_nat n)" by (simp add: digits_show_radix)
  then have "hd (show_nat n) \<noteq> CHR ''+''"
    by (cases "show_nat n") auto
  then have "(case show_nat n of [] \<Rightarrow> [] | c # t \<Rightarrow> if c = CHR ''+'' then t else show_nat n) = show_nat n"
    by (cases "show_nat n") auto
  with d \<open>n \<le> mx\<close> show ?thesis
    by (simp only: parse_uint_def Let_def) (simp add: digits_val_show_radix)
qed

lemma parse_u16_show: "parse_u16 (show_nat (unat p)) = Some p"
proof -
  have "unat p < 2 ^ 16" using unsigned_less [of p] by simp
  then have "unat p \<le> 65535" by simp
  then show ?thesis by (simp add: parse_u16_def parse_uint_show)
qed

section \<open>Printed addresses parse back\<close>

lemma takeWhile_digits:
  "list_all P ds \<Longrightarrow> rest = [] \<or> \<not> P (hd rest) \<Longrightarrow>
   takeWhile P (ds @ rest) = ds \<and> dropWhile P (ds @ rest) = rest"
  by (induction ds) (auto simp: neq_Nil_conv takeWhile_eq_Nil_iff dropWhile_eq_self_iff)

lemma read_number_show:
  assumes "2 \<le> b" "b \<le> 16" "n < b ^ m" "0 < m" "n \<le> mx" "rest = [] \<or> \<not> is_digit b (hd rest)"
  shows "read_number b m zp mx (show_radix b n @ rest) = Some (n, rest)"
proof -
  obtain k where m: "m = Suc k" using assms(4) by (cases m) auto
  have "takeWhile (is_digit b) (show_radix b n @ rest) = show_radix b n"
    and "dropWhile (is_digit b) (show_radix b n @ rest) = rest"
    using takeWhile_digits [OF digits_show_radix [of b n] assms(6)] assms(1,2) by auto
  moreover have "length (show_radix b n) \<le> Suc k"
    using assms m by (intro length_show_radix) auto
  moreover have "n = 0 \<or> hd (show_radix b n) \<noteq> CHR ''0''"
    using hd_show_radix [of b n] assms by auto
  ultimately show ?thesis
    using assms m by (auto simp: read_number_def Let_def digits_val_show_radix show_radix_0)
qed

lemma unat_u8: "unat (x :: u8) < 256"
  using unsigned_less [of x] by simp

lemma unat_u16: "unat (x :: u16) < 65536"
  using unsigned_less [of x] by simp

lemma read_octet_show:
  fixes x :: u8
  assumes "rest = [] \<or> \<not> is_digit 10 (hd rest)"
  shows "read_octet 0 (show_nat (unat x) @ rest) = Some (unat x, rest)"
    and "0 < i \<Longrightarrow> read_octet i (CHR ''.'' # show_nat (unat x) @ rest) = Some (unat x, rest)"
  using unat_u8 [of x] assms read_number_show [of 10 "unat x" 3 255 rest False]
  by (simp_all add: read_octet_def read_separator_def)

lemma read_ipv4_show:
  assumes "rest = [] \<or> \<not> is_digit 10 (hd rest)"
  shows "read_ipv4_addr (show_ipv4 a @ rest) = Some (a, rest)"
proof (cases a)
  case (Ipv4 a1 a2 a3 a4)
  show ?thesis
    using assms
    by (simp add: Ipv4 read_ipv4_addr_def read_octet_show)
qed

lemma length_show_ipv4: "length (show_ipv4 a) \<le> 15"
proof (cases a)
  case (Ipv4 a1 a2 a3 a4)
  have "length (show_nat (unat x)) \<le> 3" for x :: u8
    using length_show_radix [of 10 "unat x" 2] unat_u8 [of x] by simp
  from this [of a1] this [of a2] this [of a3] this [of a4] show ?thesis by (simp add: Ipv4)
qed

theorem parse_show_ipv4: "parse_ipv4 (show_ipv4 a) = Some a"
  using read_ipv4_show [of "[]" a] length_show_ipv4 [of a]
  by (simp add: parse_ipv4_def parse_with_def)

text \<open>Reading groups back: as long as no dot is ahead, no group is taken for an IPv4 address.\<close>

lemma read_octet_dot: "read_octet (Suc i) s = Some x \<Longrightarrow> CHR ''.'' \<in> set s"
  by (cases s) (auto simp: read_octet_def read_separator_def split: if_splits)

lemma read_number_suffix: "read_number b m z mx s = Some (v, r) \<Longrightarrow> set r \<subseteq> set s"
  by (auto simp: read_number_def Let_def split: if_splits dest: set_dropWhileD)

lemma read_ipv4_no_dot: "CHR ''.'' \<notin> set s \<Longrightarrow> read_ipv4_addr s = None"
proof -
  assume nd: "CHR ''.'' \<notin> set s"
  { fix v r assume "read_octet 0 s = Some (v, r)"
    then have "set r \<subseteq> set s"
      by (simp add: read_octet_def read_separator_def read_number_suffix)
    then have "read_octet 1 r = None"
      using nd read_octet_dot [of 0 r] by (cases "read_octet 1 r") auto }
  then show ?thesis
    by (cases "read_octet 0 s") (auto simp: read_ipv4_addr_def)
qed

lemma read_separator_no_dot: "CHR ''.'' \<notin> set s \<Longrightarrow> read_separator c i read_ipv4_addr s = None"
  by (cases s) (auto simp: read_separator_def read_ipv4_no_dot)

text \<open>The groups from index \<open>i\<close> on: each but the very first is preceded by a colon.\<close>

fun show_groups_from :: "nat \<Rightarrow> u16 list \<Rightarrow> string" where
  "show_groups_from i [] = []"
| "show_groups_from i (g # gs) =
     (if i > 0 then '':'' else []) @ show_radix 16 (unat g) @ show_groups_from (Suc i) gs"

lemma show_groups_from_Suc: "show_groups_from (Suc i) gs = (if gs = [] then [] else '':'' @ show_groups gs)"
  by (induction gs arbitrary: i rule: induct_list012) (auto simp: show_groups_def)

lemma show_groups_eq: "show_groups gs = show_groups_from 0 gs"
  by (cases gs) (auto simp: show_groups_from_Suc, auto simp: show_groups_def neq_Nil_conv)

lemma no_dot_show_groups_from: "CHR ''.'' \<notin> set (show_groups_from i gs)"
proof (induction gs arbitrary: i)
  case (Cons g gs)
  have "CHR ''.'' \<notin> set (show_radix 16 (unat g))"
    using digits_show_radix [of 16 "unat g"] not_digit_punct(4)
    by (auto simp: list_all_iff simp del: not_digit_punct)
  with Cons show ?case by simp
qed simp

definition group_stop :: "nat \<Rightarrow> string \<Rightarrow> bool" where
  "group_stop i rest \<longleftrightarrow> rest = [] \<or>
     (hd rest = CHR '':'' \<and> (i = 0 \<or> tl rest = [] \<or> \<not> is_digit 16 (hd (tl rest))))"

lemma read_number_stop:
  "group_stop i rest \<Longrightarrow> read_separator CHR '':'' i (read_number 16 4 True 65535) rest = None"
  by (cases rest; cases "tl rest")
    (auto simp: group_stop_def read_separator_def read_number_def Let_def)

lemma hd_after_group:
  "group_stop k rest \<Longrightarrow>
   show_groups_from (Suc i) gs @ rest = [] \<or> \<not> is_digit 16 (hd (show_groups_from (Suc i) gs @ rest))"
  by (cases gs) (auto simp: group_stop_def)

lemma read_groups_show:
  "CHR ''.'' \<notin> set rest \<Longrightarrow> length gs \<le> left \<Longrightarrow> group_stop (i + length gs) rest \<Longrightarrow>
   read_groups left i (show_groups_from i gs @ rest) = (gs, False, rest)"
proof (induction gs arbitrary: left i)
  case Nil
  then show ?case
    by (cases left) (auto simp: read_separator_no_dot read_number_stop)
next
  case (Cons g gs)
  then obtain l where l: "left = Suc l" by (cases left) auto
  let ?tail = "show_groups_from (Suc i) gs @ rest"
  have "read_number 16 4 True 65535 (show_radix 16 (unat g) @ ?tail) = Some (unat g, ?tail)"
    using unat_u16 [of g] hd_after_group [OF Cons.prems(3), of i gs]
    by (intro read_number_show) simp_all
  then have num: "read_separator CHR '':'' i (read_number 16 4 True 65535)
      (show_groups_from i (g # gs) @ rest) = Some (unat g, ?tail)"
    by (cases "i = 0") (simp_all add: read_separator_def)
  have "CHR ''.'' \<notin> set (show_groups_from i (g # gs) @ rest)"
    using no_dot_show_groups_from [of i "g # gs"] Cons.prems(1) by (simp only: set_append) blast
  then have "read_separator CHR '':'' i read_ipv4_addr (show_groups_from i (g # gs) @ rest) = None"
    by (rule read_separator_no_dot)
  with num Cons.IH [of l "Suc i"] Cons.prems show ?case
    by (cases "l = 0") (auto simp: l simp del: show_groups_from.simps)
qed

lemma zero_span_zeros:
  assumes "zero_span i lg cur xs = (s, l)"
    and "ys = pre @ xs" "length pre = i"
    and "snd lg \<le> i" "fst lg + snd lg \<le> i" "\<forall>j < snd lg. ys ! (fst lg + j) = 0"
    and "snd cur = 0 \<or> fst cur + snd cur = i" "\<forall>j < snd cur. ys ! (fst cur + j) = 0"
  shows "s + l \<le> length ys \<and> (\<forall>j < l. ys ! (s + j) = (0 :: u16))"
  using assms
proof (induction i lg cur xs arbitrary: pre rule: zero_span.induct)
  case (2 i longest cs cl x xs)
  show ?case
  proof (cases "x = 0")
    case False
    with 2 show ?thesis by (intro "2.IH"(2) [of "pre @ [x]"]) auto
  next
    case True
    have nth: "ys ! i = 0" using 2 True by (auto simp: nth_append)
    let ?cur = "(if cl = 0 then i else cs, cl + 1)"
    have cur: "fst ?cur + snd ?cur = Suc i" "\<forall>j < snd ?cur. ys ! (fst ?cur + j) = 0"
      using "2.prems" nth by (auto simp: less_Suc_eq)
    show ?thesis
      using True "2.prems" cur
      by (intro "2.IH"(1) [of ?cur "pre @ [x]"]) (auto simp: Let_def)
  qed
qed auto

lemma zero_span_segments:
  assumes "zero_span 0 (0, 0) (0, 0) (segments a) = (st, ln)"
  shows "segments a = take st (segments a) @ replicate ln 0 @ drop (st + ln) (segments a)"
    and "st + ln \<le> 8"
proof -
  have len: "length (segments a) = 8" by (cases a) simp
  have *: "st + ln \<le> length (segments a) \<and> (\<forall>j < ln. segments a ! (st + j) = 0)"
    using zero_span_zeros [OF assms, of "segments a" "[]"] by simp
  then show "st + ln \<le> 8" using len by simp
  have "take ln (drop st (segments a)) = replicate ln 0"
    using * len by (intro nth_equalityI) auto
  then show "segments a = take st (segments a) @ replicate ln 0 @ drop (st + ln) (segments a)"
    by (metis append_take_drop_id drop_drop add.commute)
qed

lemma ipv6_of_segments [simp]: "ipv6_of (segments a) = a"
  by (cases a) simp

lemma length_segments [simp]: "length (segments a) = 8"
  by (cases a) simp

lemma read_ipv6_plain: "read_ipv6_addr (show_groups (segments a)) = Some (a, [])"
  using read_groups_show [of "[]" "segments a" 8 0]
  by (simp add: read_ipv6_addr_def show_groups_eq group_stop_def)

lemma read_ipv6_gap:
  assumes "segments a = pre @ replicate ln 0 @ post" "0 < ln"
  shows "read_ipv6_addr (show_groups pre @ ''::'' @ show_groups post) = Some (a, [])"
proof -
  have len: "length pre + ln + length post = 8"
    using length_segments [of a] by (simp add: assms(1) del: length_segments)
  let ?rest = "''::'' @ show_groups_from 0 post"
  have head: "read_groups 8 0 (show_groups_from 0 pre @ ?rest) = (pre, False, ?rest)"
    using len assms(2)
    by (intro read_groups_show) (auto simp: group_stop_def no_dot_show_groups_from)
  have "read_groups (7 - length pre) 0 (show_groups_from 0 post @ []) = (post, False, [])"
    using len assms(2) by (intro read_groups_show) (auto simp: group_stop_def)
  moreover have "ipv6_of (pre @ replicate (8 - length pre - length post) 0 @ post) = a"
  proof -
    have "8 - length pre - length post = ln" using len by simp
    then show ?thesis by (metis assms(1) ipv6_of_segments)
  qed
  ultimately show ?thesis
    using head len assms(2)
    by (simp add: read_ipv6_addr_def show_groups_eq)
qed

lemma read_number_nondigit: "\<not> is_digit b c \<Longrightarrow> read_number b m z mx (c # s) = None"
  by (simp add: read_number_def Let_def)

lemma read_number_ffff:
  "read_number 16 4 True 65535 (''ffff:'' @ s) = Some (65535, CHR '':'' # s)"
proof -
  have "to_digit 16 CHR ''f'' = Some 15" by code_simp
  moreover from this have "is_digit 16 CHR ''f''" by (simp add: is_digit_def)
  moreover from calculation have "digits_val 16 ''ffff'' = 65535" by (simp add: digits_val_def)
  ultimately show ?thesis by (simp add: read_number_def Let_def)
qed

lemma read_ipv4_nondigit: "\<not> is_digit 10 c \<Longrightarrow> read_ipv4_addr (c # s) = None"
  by (simp add: read_ipv4_addr_def read_octet_def read_separator_def read_number_nondigit)

lemma be_bytes_split:
  "be_bytes (of_nat (unat g div 256)) (of_nat (unat g mod 256)) = g"
proof -
  have "unat g div 256 < 256" using unat_u16 [of g] by (simp add: less_mult_imp_div_less)
  then have "unat (of_nat (unat g div 256) :: u8) = unat g div 256"
    and "unat (of_nat (unat g mod 256) :: u8) = unat g mod 256"
    by (simp_all add: unat_of_nat)
  then show ?thesis by (simp add: be_bytes_def)
qed

lemma read_groups_v4:
  "1 < left \<Longrightarrow> read_separator CHR '':'' i read_ipv4_addr s = Some (a, s') \<Longrightarrow>
   read_groups left i s = (v4_groups a, True, s')"
  by (cases left) simp_all

lemma read_groups_group:
  "0 < left \<Longrightarrow> read_separator CHR '':'' i read_ipv4_addr s = None \<Longrightarrow>
   read_separator CHR '':'' i (read_number 16 4 True 65535) s = Some (g, s') \<Longrightarrow>
   read_groups (left - 1) (Suc i) s' = (gs, v, r) \<Longrightarrow>
   read_groups left i s = (of_nat g # gs, v, r)"
  by (cases left; cases "left = 1") auto

lemma read_groups_none:
  "read_separator CHR '':'' i read_ipv4_addr s = None \<Longrightarrow>
   read_separator CHR '':'' i (read_number 16 4 True 65535) s = None \<Longrightarrow>
   read_groups left i s = ([], False, s)"
  by (cases left) simp_all

lemma read_groups_mapped:
  "read_groups 7 0 (''ffff:'' @ show_ipv4 v) = (of_nat 65535 # v4_groups v, True, [])"
proof (rule read_groups_group)
  have "\<not> is_digit 10 CHR ''f''" by code_simp
  then show "read_separator CHR '':'' 0 read_ipv4_addr (''ffff:'' @ show_ipv4 v) = None"
    by (simp add: read_separator_def read_ipv4_nondigit)
  show "read_separator CHR '':'' 0 (read_number 16 4 True 65535) (''ffff:'' @ show_ipv4 v)
      = Some (65535, CHR '':'' # show_ipv4 v)"
    using read_number_ffff [of "show_ipv4 v"] by (simp add: read_separator_def)
  show "read_groups (7 - 1) (Suc 0) (CHR '':'' # show_ipv4 v) = (v4_groups v, True, [])"
    using read_ipv4_show [of "[]" v] by (intro read_groups_v4) (simp_all add: read_separator_def)
qed simp

lemma read_ipv6_mapped:
  assumes "to_ipv4_mapped a = Some v"
  shows "read_ipv6_addr (''::ffff:'' @ show_ipv4 v) = Some (a, [])"
proof -
  have head: "read_groups 8 0 (''::ffff:'' @ show_ipv4 v) = ([], False, ''::'' @ ''ffff:'' @ show_ipv4 v)"
    by (subst read_groups_none) (simp_all add: read_separator_def read_number_nondigit read_ipv4_nondigit)
  have len: "length (v4_groups v) = 2" by (cases v) simp
  have "replicate (8 - 0 - 3) (0 :: u16) = [0, 0, 0, 0, 0]" by code_simp
  moreover have "ipv6_of ([0, 0, 0, 0, 0, of_nat 65535] @ v4_groups v) = a"
    using assms by (cases a) (auto simp: be_bytes_split split: if_splits)
  ultimately show ?thesis
    unfolding read_ipv6_addr_def head prod.case
    using read_groups_mapped [of v] len by simp
qed

lemma read_show_ipv6: "read_ipv6_addr (show_ipv6 a) = Some (a, [])"
proof (cases "to_ipv4_mapped a")
  case (Some v)
  then show ?thesis using read_ipv6_mapped [OF Some] by (simp add: show_ipv6_def)
next
  case None
  obtain st ln where z: "zero_span 0 (0, 0) (0, 0) (segments a) = (st, ln)" by fastforce
  show ?thesis
    using read_ipv6_plain [of a] read_ipv6_gap [OF zero_span_segments(1) [OF z]]
    by (simp add: show_ipv6_def None z)
qed

theorem parse_show_ipv6: "parse_ipv6 (show_ipv6 a) = Some a"
  by (simp add: parse_ipv6_def parse_with_def read_show_ipv6)

lemma read_ipv4_show_ipv6: "read_ipv4_addr (show_ipv6 a) = None"
proof (cases "to_ipv4_mapped a")
  case (Some v)
  then show ?thesis by (simp add: show_ipv6_def read_ipv4_nondigit)
next
  case None
  then show ?thesis
    by (intro read_ipv4_no_dot)
      (auto simp: show_ipv6_def show_groups_eq no_dot_show_groups_from split: prod.splits)
qed

theorem parse_show_ip: "parse_ip (show_ip a) = Some a"
proof (cases a)
  case (V4 v)
  then show ?thesis
    using read_ipv4_show [of "[]" v] by (simp add: parse_ip_def parse_with_def read_ip_addr_def)
next
  case (V6 v)
  then show ?thesis
    by (simp add: parse_ip_def parse_with_def read_ip_addr_def read_ipv4_show_ipv6 read_show_ipv6)
qed

lemma parse_ipv4_show_ipv6: "parse_ipv4 (show_ipv6 a) = None"
  by (simp add: parse_ipv4_def parse_with_def read_ipv4_show_ipv6)

text \<open>What an address can be made of.\<close>

definition v4_char :: "char \<Rightarrow> bool" where
  "v4_char c \<longleftrightarrow> is_ascii_digit c \<or> c = CHR ''.''"

lemma is_digit_10: "is_digit 10 c \<longleftrightarrow> is_ascii_digit c"
  by (auto simp: is_digit_def to_digit_def Let_def is_ascii_digit_def is_ascii_lower_def is_ascii_upper_def)

lemma read_number_consumed:
  assumes "read_number 10 m z mx s = Some (v, r)"
  shows "\<exists>p. s = p @ r \<and> list_all v4_char p"
proof -
  have "r = dropWhile (is_digit 10) s"
    using assms by (auto simp: read_number_def Let_def split: if_splits)
  then have "s = takeWhile (is_digit 10) s @ r" by simp
  moreover have "list_all v4_char (takeWhile (is_digit 10) s)"
    by (auto simp: list_all_iff v4_char_def is_digit_10 dest: set_takeWhileD)
  ultimately show ?thesis by blast
qed

lemma read_octet_consumed:
  assumes "read_octet i s = Some (v, r)"
  shows "\<exists>p. s = p @ r \<and> list_all v4_char p"
proof (cases "i = 0")
  case True
  with assms show ?thesis by (simp add: read_octet_def read_separator_def read_number_consumed)
next
  case False
  with assms obtain t where "s = CHR ''.'' # t" "read_number 10 3 False 255 t = Some (v, r)"
    by (cases s) (auto simp: read_octet_def read_separator_def split: if_splits)
  moreover obtain p where "t = p @ r" "list_all v4_char p"
    using read_number_consumed [OF calculation(2)] by blast
  ultimately have "s = (CHR ''.'' # p) @ r \<and> list_all v4_char (CHR ''.'' # p)"
    by (simp add: v4_char_def)
  then show ?thesis by blast
qed

lemma parse_ipv4_chars: "parse_ipv4 s = Some a \<Longrightarrow> list_all v4_char s"
proof -
  assume "parse_ipv4 s = Some a"
  then have "read_ipv4_addr s = Some (a, [])"
    by (auto simp: parse_ipv4_def parse_with_def split: if_splits option.splits prod.splits list.splits)
  then obtain v1 v2 v3 v4 s1 s2 s3 where
    "read_octet 0 s = Some (v1, s1)" "read_octet 1 s1 = Some (v2, s2)"
    "read_octet 2 s2 = Some (v3, s3)" "read_octet 3 s3 = Some (v4, [])"
    by (auto simp: read_ipv4_addr_def bind_eq_Some_conv)
  from this [THEN read_octet_consumed] show ?thesis by auto
qed

lemma read_groups_no_colon:
  "CHR '':'' \<notin> set s \<Longrightarrow> read_groups left i s = (gs, v4, r) \<Longrightarrow>
   length gs \<le> 2 \<and> (v4 \<or> CHR '':'' \<notin> set r)"
proof (induction left i s arbitrary: gs v4 r rule: read_groups.induct)
  case (2 left i s)
  show ?case
  proof (cases "left > 0 \<and> read_separator CHR '':'' i read_ipv4_addr s \<noteq> None")
    case True
    then obtain a t where "read_separator CHR '':'' i read_ipv4_addr s = Some (a, t)" by auto
    moreover have "length (v4_groups a) = 2" by (cases a) simp
    ultimately show ?thesis using True 2(3) by auto
  next
    case False
    then have v: "(if left > 0 then read_separator CHR '':'' i read_ipv4_addr s else None) = None"
      by (simp only: not_not simp_thms de_Morgan_conj) (auto simp del: not_None_eq)
    show ?thesis
    proof (cases "read_separator CHR '':'' i (read_number 16 4 True 65535) s")
      case None
      with v 2(2,3) show ?thesis by (simp only: read_groups.simps v option.case None) auto
    next
      case (Some gt)
      obtain g t where gt: "gt = (g, t)" by (cases gt)
      from Some 2(2) have i: "i = 0" and num: "read_number 16 4 True 65535 s = Some (g, t)"
        by (cases s; auto simp: read_separator_def gt split: if_splits)+
      have t: "CHR '':'' \<notin> set t" using read_number_suffix [OF num] 2(2) by auto
      then have "read_groups left (Suc 0) t = ([], False, t)"
        by (cases left; cases t) (auto simp: read_separator_def)
      with Some v 2(3) t show ?thesis
        by (simp only: read_groups.simps v option.case Some gt prod.case i) auto
    qed
  qed
qed simp

lemma parse_ipv6_no_colon: "CHR '':'' \<notin> set s \<Longrightarrow> parse_ipv6 s = None"
proof -
  assume c: "CHR '':'' \<notin> set s"
  obtain gs v4 r where g: "read_groups 8 0 s = (gs, v4, r)" by (cases "read_groups 8 0 s") auto
  from read_groups_no_colon [OF c g] have "length gs \<noteq> 8" "v4 \<or> read_given_char CHR '':'' r = None"
    by (auto, cases r, auto)
  then have "read_ipv6_addr s = None" using g by (auto simp: read_ipv6_addr_def)
  then show ?thesis by (simp add: parse_ipv6_def parse_with_def)
qed

lemma show_ipv4_chars: "list_all v4_char (show_ipv4 a)"
proof (cases a)
  case (Ipv4 a b c d)
  have "list_all v4_char (show_nat n)" for n
    using digits_show_radix [of 10 n] by (auto simp: list_all_iff v4_char_def is_digit_10)
  then show ?thesis by (simp add: Ipv4) (simp add: v4_char_def)
qed

lemma show_ipv4_last: "show_ipv4 a \<noteq> []" "last (show_ipv4 a) \<noteq> CHR ''.''"
proof -
  obtain p d where a: "show_ipv4 a = p @ show_nat d" by (cases a) (simp, metis append.assoc append_Cons append_Nil)
  then show "show_ipv4 a \<noteq> []" by simp
  have "is_digit 10 (last (show_nat d))"
    using digits_show_radix [of 10 d] by (auto simp: list_all_iff)
  then show "last (show_ipv4 a) \<noteq> CHR ''.''" using a by auto
qed

lemma v4_char_graphic: "v4_char c \<Longrightarrow> graphic c"
  by (auto simp: v4_char_def graphic_def is_ascii_digit_def)

section \<open>Printed socket addresses\<close>

fun show_socket_addr :: "socket_addr \<Rightarrow> string" where
  "show_socket_addr (SockV4 a p) = show_ipv4 a @ '':'' @ show_nat (unat p)"
| "show_socket_addr (SockV6 a p scope) =
     ''['' @ show_ipv6 a @ (if scope = 0 then [] else ''%'' @ show_nat (unat scope)) @ '']:'' @ show_nat (unat p)"

lemma read_port_show: "read_port (CHR '':'' # show_nat (unat p)) = Some (p, [])"
proof -
  let ?ds = "show_nat (unat p)"
  have t: "takeWhile (is_digit 10) ?ds = ?ds" and d: "dropWhile (is_digit 10) ?ds = []"
    using takeWhile_digits [OF digits_show_radix [of 10 "unat p"], of "[]"] by simp_all
  have "read_number 10 (length ?ds) True 65535 ?ds = Some (unat p, [])"
    using unat_u16 [of p] unfolding read_number_def t d by (simp add: Let_def digits_val_show_radix)
  then show ?thesis by (simp add: read_port_def)
qed

theorem parse_show_socket_v4: "parse_socket_addr (show_socket_addr (SockV4 a p)) = Some (SockV4 a p)"
proof -
  have "read_socket_addr_v4 (show_ipv4 a @ CHR '':'' # show_nat (unat p)) = Some (SockV4 a p, [])"
    by (simp add: read_socket_addr_v4_def read_ipv4_show read_port_show)
  then show ?thesis by (simp add: parse_socket_addr_def parse_with_def)
qed

end
