(* ===== verification/Persist.thy ===== *)
theory Persist
  imports Rust_Net
begin

text \<open>
  The record files of the modules (\<open>dns/persist.rs\<close>; \<open>stats/persist.rs\<close> is a copy of it, and the set
  file of \<open>proxy/persist.rs\<close> too): a line-based set file, \<open>PersistedSet\<close>, and a JSON settings file,
  \<open>OverrideStore\<close>. The disk is an explicit state whose operations may fail.

  The interface is the locale \<open>entry_codec\<close>: what a record type must promise of its
  \<open>Entry\<close> implementation so that the file written by \<open>persist\<close> loads back as the same
  entries. Each module interprets it for its own record type.
\<close>

section \<open>The disk\<close>

text \<open>A path is its parent directory (empty when there is none) and its file name. A file
  that exists but does not read as UTF-8 text is \<open>Unreadable\<close>.\<close>

type_synonym path = "string \<times> string"

text \<open>The empty path, with which nothing is read or written.\<close>

abbreviation no_path :: path where
  "no_path \<equiv> ([], [])"

datatype content = Text string | Unreadable

text \<open>The faults are part of the disk: what \<open>create_dir_all\<close>, \<open>write\<close> and \<open>remove_file\<close> report
  for a path, and, for a write that fails, what it leaves of the file.\<close>

record disk =
  files :: "path \<Rightarrow> content option"
  mkdir_fault :: "string \<Rightarrow> string option"
  write_fault :: "path \<Rightarrow> (string \<times> content option) option"
  remove_fault :: "path \<Rightarrow> string option"

datatype io_error =
    Creating string string
  | Writing path string
  | Removing path string

definition show_path :: "path \<Rightarrow> string" where
  "show_path p = (if fst p = [] then snd p else fst p @ ''/'' @ snd p)"

fun show_io_error :: "io_error \<Rightarrow> string" where
  "show_io_error (Creating dir e) = ''creating '' @ dir @ '': '' @ e"
| "show_io_error (Writing p e) = ''writing '' @ show_path p @ '': '' @ e"
| "show_io_error (Removing p e) = ''removing '' @ show_path p @ '': '' @ e"

definition read_to_string :: "disk \<Rightarrow> path \<Rightarrow> string option" where
  "read_to_string d p = (case files d p of Some (Text t) \<Rightarrow> Some t | _ \<Rightarrow> None)"

definition path_exists :: "disk \<Rightarrow> path \<Rightarrow> bool" where
  "path_exists d p \<longleftrightarrow> files d p \<noteq> None"

definition create_parent :: "disk \<Rightarrow> path \<Rightarrow> io_error + unit" where
  "create_parent d p =
     (if fst p = [] then Inr ()
      else case mkdir_fault d (fst p) of Some e \<Rightarrow> Inl (Creating (fst p) e) | None \<Rightarrow> Inr ())"

definition write_file :: "path \<Rightarrow> string \<Rightarrow> disk \<Rightarrow> (io_error + unit) \<times> disk" where
  "write_file p body d =
     (case write_fault d p of
        Some (e, wreck) \<Rightarrow> (Inl (Writing p e), d\<lparr>files := (files d)(p := wreck)\<rparr>)
      | None \<Rightarrow> (Inr (), d\<lparr>files := (files d)(p := Some (Text body))\<rparr>))"

section \<open>Line-based set files\<close>

record 'a entry =
  entry_parse :: "string \<Rightarrow> 'a option"
  entry_format :: "'a \<Rightarrow> string"

record 'a persisted_set =
  entries :: "'a list"
  file_path :: path
  file_header :: string

definition strip_comment :: "string \<Rightarrow> string" where
  "strip_comment l = trim (hd (split CHR ''#'' l))"

definition parse_lines :: "'a entry \<Rightarrow> string \<Rightarrow> 'a list" where
  "parse_lines E text =
     List.map_filter (entry_parse E) (filter (\<lambda>l. l \<noteq> []) (map strip_comment (lines text)))"

definition load_set :: "'a entry \<Rightarrow> path \<Rightarrow> string \<Rightarrow> ('a list \<Rightarrow> 'a list) \<Rightarrow> disk \<Rightarrow> 'a persisted_set" where
  "load_set E p hdr norm d =
     \<lparr>entries = norm (case read_to_string d p of Some t \<Rightarrow> parse_lines E t | None \<Rightarrow> []),
      file_path = p, file_header = hdr\<rparr>"

definition set_body :: "'a entry \<Rightarrow> string \<Rightarrow> 'a list \<Rightarrow> string" where
  "set_body E hdr es = hdr @ [CHR 0x0A] @ join [CHR 0x0A] (map (entry_format E) es) @ [CHR 0x0A]"

definition persist :: "'a entry \<Rightarrow> 'a persisted_set \<Rightarrow> 'a list \<Rightarrow> disk \<Rightarrow> (io_error + unit) \<times> disk" where
  "persist E s es d =
     (case create_parent d (file_path s) of
        Inl e \<Rightarrow> (Inl e, d)
      | Inr _ \<Rightarrow> write_file (file_path s) (set_body E (file_header s) es) d)"

text \<open>\<open>mutate\<close>: the closure edits a copy; the copy replaces the entries only once it is on
  disk. The closure returns its result, the edited entries and whether they changed.\<close>

definition mutate ::
  "'a entry \<Rightarrow> ('a list \<Rightarrow> 'r \<times> 'a list \<times> bool) \<Rightarrow> 'a persisted_set \<Rightarrow> disk \<Rightarrow>
   (io_error + 'r) \<times> 'a persisted_set \<times> disk" where
  "mutate E f s d =
     (case f (entries s) of (out, new, changed) \<Rightarrow>
        if changed then
          (case persist E s new d of
             (Inl e, d') \<Rightarrow> (Inl e, s, d')
           | (Inr _, d') \<Rightarrow> (Inr out, s\<lparr>entries := new\<rparr>, d'))
        else (Inr out, s, d))"

section \<open>JSON settings files\<close>

text \<open>\<open>serde_json\<close> is a parameter: \<open>to_json\<close> for \<open>to_string_pretty\<close> and \<open>of_json\<close> for \<open>from_str\<close>.\<close>

definition load_overrides :: "(string \<Rightarrow> 'a option) \<Rightarrow> 'a \<Rightarrow> path \<Rightarrow> disk \<Rightarrow> 'a" where
  "load_overrides of_json dflt p d =
     (case Option.bind (read_to_string d p) of_json of Some x \<Rightarrow> x | None \<Rightarrow> dflt)"

definition save_overrides :: "('a \<Rightarrow> string) \<Rightarrow> path \<Rightarrow> 'a \<Rightarrow> disk \<Rightarrow> (io_error + unit) \<times> disk" where
  "save_overrides to_json p x d =
     (case create_parent d p of
        Inl e \<Rightarrow> (Inl e, d)
      | Inr _ \<Rightarrow> write_file p (to_json x) d)"

definition ensure_overrides :: "('a \<Rightarrow> string) \<Rightarrow> path \<Rightarrow> 'a \<Rightarrow> disk \<Rightarrow> disk" where
  "ensure_overrides to_json p dflt d =
     (if path_exists d p then d else snd (save_overrides to_json p dflt d))"

definition reset_overrides :: "path \<Rightarrow> disk \<Rightarrow> (io_error + unit) \<times> disk" where
  "reset_overrides p d =
     (if \<not> path_exists d p then (Inr (), d)
      else case remove_fault d p of
        Some e \<Rightarrow> (Inl (Removing p e), d)
      | None \<Rightarrow> (Inr (), d\<lparr>files := (files d)(p := None)\<rparr>))"

section \<open>Lemmas\<close>

definition healthy :: "disk \<Rightarrow> path \<Rightarrow> bool" where
  "healthy d p \<longleftrightarrow> (fst p = [] \<or> mkdir_fault d (fst p) = None) \<and> write_fault d p = None"

lemma create_parent_healthy [simp]: "healthy d p \<Longrightarrow> create_parent d p = Inr ()"
  by (auto simp: healthy_def create_parent_def)

lemma write_file_healthy [simp]:
  "healthy d p \<Longrightarrow> write_file p b d = (Inr (), d\<lparr>files := (files d)(p := Some (Text b))\<rparr>)"
  by (simp add: healthy_def write_file_def)

lemma healthy_files [simp]: "healthy (d\<lparr>files := f\<rparr>) p = healthy d p"
  by (simp add: healthy_def)

lemma mutate_unchanged: "f (entries s) = (out, new, False) \<Longrightarrow> mutate E f s d = (Inr out, s, d)"
  by (simp add: mutate_def)

lemma mutate_healthy:
  "healthy d (file_path s) \<Longrightarrow> f (entries s) = (out, new, True) \<Longrightarrow>
   mutate E f s d = (Inr out, s\<lparr>entries := new\<rparr>,
     d\<lparr>files := (files d)(file_path s := Some (Text (set_body E (file_header s) new)))\<rparr>)"
  by (simp add: mutate_def persist_def)

text \<open>Whatever the disk does, the entries are either the old ones or the edited ones, and an
  error means the old ones.\<close>

lemma mutate_cases:
  assumes "mutate E f s d = (r, s', d')" "f (entries s) = (out, new, changed)"
  shows "file_path s' = file_path s" "file_header s' = file_header s"
    and "\<And>e. r = Inl e \<Longrightarrow> s' = s"
    and "\<And>x. r = Inr x \<Longrightarrow> x = out \<and> entries s' = (if changed then new else entries s)"
  using assms by (auto simp: mutate_def split: if_splits prod.splits sum.splits)

lemma mutate_error: "mutate E f s d = (Inl e, s', d') \<Longrightarrow> s' = s"
  by (auto simp: mutate_def split: if_splits prod.splits sum.splits)

lemma mutate_file:
  assumes "mutate E f s d = (r, s', d')"
  shows "file_path s' = file_path s" "file_header s' = file_header s"
  using assms by (auto simp: mutate_def split: if_splits prod.splits sum.splits)

lemma mutate_inv:
  assumes "mutate E f s d = (r, s', d')" "P (entries s)"
    and "\<And>out new. f (entries s) = (out, new, True) \<Longrightarrow> P new"
  shows "P (entries s')"
  using assms by (auto simp: mutate_def split: if_splits prod.splits sum.splits)

lemma strip_comment_comment: "l \<noteq> [] \<Longrightarrow> hd l = CHR ''#'' \<Longrightarrow> strip_comment l = []"
  by (cases l) (simp_all add: strip_comment_def)

lemma strip_comment_id: "trimmed l \<Longrightarrow> CHR ''#'' \<notin> set l \<Longrightarrow> strip_comment l = l"
  by (simp add: strip_comment_def split_no_sep trim_id)

lemma parse_lines_Cons:
  "CHR 0x0A \<notin> set l \<Longrightarrow> strip_comment (strip_cr l) = [] \<Longrightarrow>
   parse_lines E (l @ CHR 0x0A # t) = parse_lines E t"
  by (simp add: parse_lines_def lines_line)

text \<open>A header is a list of comment lines.\<close>

definition comment_line :: "string \<Rightarrow> bool" where
  "comment_line l \<longleftrightarrow> l \<noteq> [] \<and> hd l = CHR ''#'' \<and> CHR 0x0A \<notin> set l"

lemma strip_comment_cr: "comment_line l \<Longrightarrow> strip_comment (strip_cr l) = []"
proof -
  assume c: "comment_line l"
  then have "strip_cr l \<noteq> [] \<and> hd (strip_cr l) = CHR ''#''"
    by (cases l rule: rev_cases) (auto simp: comment_line_def strip_cr_def hd_append split: if_splits)
  then show ?thesis by (simp add: strip_comment_comment)
qed

lemma parse_lines_header:
  "list_all comment_line hs \<Longrightarrow> hs \<noteq> [] \<Longrightarrow>
   parse_lines E (join [CHR 0x0A] hs @ CHR 0x0A # t) = parse_lines E t"
proof (induction hs rule: induct_list012)
  case (2 h)
  then show ?case by (simp add: parse_lines_Cons strip_comment_cr) (simp add: comment_line_def parse_lines_Cons strip_comment_cr)
next
  case (3 h g hs)
  then have "CHR 0x0A \<notin> set h" by (simp add: comment_line_def)
  then have "parse_lines E (h @ CHR 0x0A # join [CHR 0x0A] (g # hs) @ CHR 0x0A # t)
      = parse_lines E (join [CHR 0x0A] (g # hs) @ CHR 0x0A # t)"
    using 3 by (intro parse_lines_Cons) (simp_all add: strip_comment_cr)
  with 3 show ?case by simp
qed simp

lemma join_newline_concat:
  "ls \<noteq> [] \<Longrightarrow> join [CHR 0x0A] ls @ [CHR 0x0A] = concat (map (\<lambda>l. l @ [CHR 0x0A]) ls)"
  by (induction ls rule: induct_list012) auto

section \<open>The contract of a record type\<close>

definition file_line :: "string \<Rightarrow> bool" where
  "file_line l \<longleftrightarrow> l \<noteq> [] \<and> trimmed l \<and> CHR ''#'' \<notin> set l \<and> CHR 0x0A \<notin> set l"

text \<open>The file holds what the memory holds.\<close>

definition synced :: "'a entry \<Rightarrow> 'a persisted_set \<Rightarrow> disk \<Rightarrow> bool" where
  "synced E s d \<longleftrightarrow>
     (case read_to_string d (file_path s) of Some t \<Rightarrow> parse_lines E t | None \<Rightarrow> []) = entries s"

locale entry_codec =
  fixes E :: "'a entry" and valid :: "'a \<Rightarrow> bool"
  assumes parse_format: "valid e \<Longrightarrow> entry_parse E (entry_format E e) = Some e"
    and format_line: "valid e \<Longrightarrow> file_line (entry_format E e)"
begin

lemma parse_lines_concat:
  "list_all valid es \<Longrightarrow> parse_lines E (concat (map (\<lambda>l. l @ [CHR 0x0A]) (map (entry_format E) es))) = es"
proof -
  assume v: "list_all valid es"
  have "lines (concat (map (\<lambda>l. l @ [CHR 0x0A]) (map (entry_format E) es))) = map (entry_format E) es"
    using v format_line
    by (intro lines_concat) (auto simp: file_line_def list_all_iff intro: printable_line_trimmed)
  moreover have "filter (\<lambda>l. l \<noteq> []) (map strip_comment (map (entry_format E) es)) = map (entry_format E) es"
    using v format_line by (induction es) (auto simp: file_line_def strip_comment_id)
  moreover have "List.map_filter (entry_parse E) (map (entry_format E) es) = es"
    using v by (induction es) (auto simp: map_filter_simps parse_format)
  ultimately show ?thesis by (simp only: parse_lines_def)
qed

theorem body_round_trip:
  assumes "list_all valid es" "list_all comment_line hs" "hs \<noteq> []"
  shows "parse_lines E (set_body E (join [CHR 0x0A] hs) es) = es"
proof (cases "es = []")
  case True
  have "parse_lines E [CHR 0x0A] = []" by (simp add: parse_lines_def lines_def strip_cr_def strip_comment_def)
  with True show ?thesis
    using parse_lines_header [OF assms(2,3), of E "[CHR 0x0A]"] by (simp add: set_body_def)
next
  case False
  then have "set_body E (join [CHR 0x0A] hs) es
      = join [CHR 0x0A] hs @ CHR 0x0A # concat (map (\<lambda>l. l @ [CHR 0x0A]) (map (entry_format E) es))"
    by (simp add: set_body_def join_newline_concat)
  then show ?thesis
    by (simp only: parse_lines_header [OF assms(2,3)] parse_lines_concat [OF assms(1)])
qed

text \<open>An edit that succeeds leaves memory and file in step, if they were.\<close>

theorem mutate_synced:
  assumes "mutate E f s d = (Inr out, s', d')" "synced E s d"
    and "list_all valid (entries s')" "file_header s = join [CHR 0x0A] hs" "list_all comment_line hs" "hs \<noteq> []"
  shows "synced E s' d'"
  using assms body_round_trip [OF assms(3,5,6)]
  by (auto simp: mutate_def persist_def write_file_def synced_def read_to_string_def
      split: if_splits prod.splits sum.splits option.splits)

end

lemma load_synced:
  "synced E s d \<Longrightarrow> norm (entries s) = entries s \<Longrightarrow> load_set E (file_path s) (file_header s) norm d = s"
  by (auto simp: synced_def load_set_def split: option.splits)

lemma synced_load: "synced E (load_set E p h id d) d"
  by (auto simp: synced_def load_set_def split: option.splits)

end
