(* ===== verification/Dns_Rewrites.thy ===== *)
theory Dns_Rewrites
  imports Persist
begin

text \<open>
  \<open>dns/rewrites.rs\<close>: the local DNS records. Patterns and answers are normalised on the way in,
  a CNAME excludes every other answer of its pattern, and a lookup answers from the records of
  the most specific live pattern that matches.
\<close>

section \<open>Answers and patterns\<close>

datatype rewrite_answer = RV4 ipv4 | RCname string

datatype rewrite_error =
    AnswerEmpty
  | Ipv6Unsupported string
  | NotAddressOrHost string
  | InvalidDomain string
  | SelfCname rewrite_answer
  | Conflict string rewrite_answer
  | RewriteIo io_error

definition host_char :: "char \<Rightarrow> bool" where
  "host_char c \<longleftrightarrow> is_ascii_alphanumeric c \<or> c \<in> {CHR ''.'', CHR ''-'', CHR ''_''}"

definition parse_answer :: "string \<Rightarrow> rewrite_error + rewrite_answer" where
  "parse_answer s0 =
     (let s = trim_end_matches CHR ''.'' (trim s0) in
      if s = [] then Inl AnswerEmpty
      else case parse_ipv4 s of
        Some v4 \<Rightarrow> Inr (RV4 v4)
      | None \<Rightarrow>
          if parse_ipv6 s \<noteq> None then Inl (Ipv6Unsupported s)
          else let host = to_ascii_lowercase s in
            if \<not> list_all host_char host then Inl (NotAddressOrHost s)
            else Inr (RCname host))"

fun show_answer :: "rewrite_answer \<Rightarrow> string" where
  "show_answer (RV4 ip) = show_ipv4 ip"
| "show_answer (RCname host) = host"

definition normalize_pattern :: "string \<Rightarrow> rewrite_error + string" where
  "normalize_pattern domain =
     (let raw = to_ascii_lowercase (trim_end_matches CHR ''.'' (trim domain));
          (wild, h) = (case strip_prefix ''*.'' raw of Some h \<Rightarrow> (True, h) | None \<Rightarrow> (False, raw));
          host = trim_matches CHR ''.'' h
      in if host = [] \<or> contains_char CHR ''*'' host \<or> \<not> list_all host_char host
         then Inl (InvalidDomain domain)
         else Inr (if wild then ''*.'' @ host else host))"

definition pattern_matches :: "string \<Rightarrow> string \<Rightarrow> bool" where
  "pattern_matches pattern domain =
     (case strip_prefix ''*.'' pattern of
        Some suffix \<Rightarrow> domain = suffix \<or> ends_with (''.'' @ suffix) domain
      | None \<Rightarrow> domain = pattern)"

definition pattern_specificity :: "string \<Rightarrow> bool \<times> nat" where
  "pattern_specificity pattern = (\<not> starts_with ''*.'' pattern, length pattern)"

text \<open>\<open>trim_start_matches("*.")\<close>: the pair of characters is removed as often as it occurs.\<close>

fun trim_start_star_dot :: "string \<Rightarrow> string" where
  "trim_start_star_dot (a # b # s) =
     (if a = CHR ''*'' \<and> b = CHR ''.'' then trim_start_star_dot s else a # b # s)"
| "trim_start_star_dot s = s"

section \<open>Records and their file lines\<close>

record rewrite =
  rw_domain :: string
  rw_answer :: rewrite_answer
  rw_enabled :: bool

definition parse_rewrite :: "string \<Rightarrow> rewrite option" where
  "parse_rewrite line0 =
     (let (line, en) = (case strip_prefix ''!'' line0 of
            Some rest \<Rightarrow> (trim_start rest, False) | None \<Rightarrow> (line0, True))
      in case split_once_ws line of
           None \<Rightarrow> None
         | Some (dm0, ans) \<Rightarrow>
             (case normalize_pattern dm0 of
                Inl _ \<Rightarrow> None
              | Inr dm \<Rightarrow>
                  (case parse_answer ans of
                     Inl _ \<Rightarrow> None
                   | Inr an \<Rightarrow> Some \<lparr>rw_domain = dm, rw_answer = an, rw_enabled = en\<rparr>)))"

definition format_rewrite :: "rewrite \<Rightarrow> string" where
  "format_rewrite r =
     (if rw_enabled r then [] else ''!'') @ rw_domain r @ '' '' @ show_answer (rw_answer r)"

definition rewrite_entry :: "rewrite entry" where
  "rewrite_entry = \<lparr>entry_parse = parse_rewrite, entry_format = format_rewrite\<rparr>"

definition rewrite_header_lines :: "string list" where
  "rewrite_header_lines =
     [''# DNS rewrites (local records). Managed by the admin UI; one'',
      ''# \"domain answer\" per line. *.domain covers the domain and subdomains.'',
      ''# A leading ! parks the record: kept and listed, never answered.'']"

definition rewrite_header :: string where
  "rewrite_header = join [CHR 0x0A] rewrite_header_lines"

type_synonym rewrite_store = "rewrite persisted_set"

section \<open>The store\<close>

definition load_rewrites :: "path \<Rightarrow> disk \<Rightarrow> rewrite_store" where
  "load_rewrites p d = load_set rewrite_entry p rewrite_header id d"

definition same_record :: "string \<Rightarrow> rewrite_answer \<Rightarrow> rewrite \<Rightarrow> bool" where
  "same_record dm an r \<longleftrightarrow> rw_domain r = dm \<and> rw_answer r = an"

definition is_cname :: "rewrite_answer \<Rightarrow> bool" where
  "is_cname a \<longleftrightarrow> (case a of RCname _ \<Rightarrow> True | RV4 _ \<Rightarrow> False)"

definition matching :: "rewrite_store \<Rightarrow> string \<Rightarrow> rewrite_answer list" where
  "matching s name =
     (let live = filter rw_enabled (entries s);
          candidates = map rw_domain (filter (\<lambda>r. pattern_matches (rw_domain r) name) live)
      in case max_by_key pattern_specificity candidates of
           None \<Rightarrow> []
         | Some best \<Rightarrow> map rw_answer (filter (\<lambda>r. rw_domain r = best) live))"

definition list_rewrites :: "rewrite_store \<Rightarrow> rewrite list" where
  "list_rewrites s = entries s"

text \<open>The closure \<open>add\<close> hands to \<open>mutate\<close>.\<close>

definition add_entry :: "rewrite \<Rightarrow> rewrite list \<Rightarrow> (rewrite_error + unit) \<times> rewrite list \<times> bool" where
  "add_entry e rs =
     (if list_ex (same_record (rw_domain e) (rw_answer e)) rs then (Inr (), rs, False)
      else let same_pattern = filter (\<lambda>r. rw_domain r = rw_domain e) rs;
               conflict = (if is_cname (rw_answer e) then same_pattern \<noteq> []
                           else list_ex (\<lambda>r. is_cname (rw_answer r)) same_pattern)
           in if conflict then (Inl (Conflict (rw_domain e) (rw_answer e)), rs, False)
              else (Inr (), sort_key (\<lambda>r. (rw_domain r, show_answer (rw_answer r))) (rs @ [e]), True))"

definition points_at_itself :: "string \<Rightarrow> rewrite_answer \<Rightarrow> bool" where
  "points_at_itself dm an =
     (case an of RCname t \<Rightarrow> t = trim_start_star_dot dm | RV4 _ \<Rightarrow> False)"

text \<open>The two \<open>?\<close> operators and the result of the closure, in the code's order.\<close>

definition lift_io :: "(io_error + 'r) \<Rightarrow> (rewrite_error + 'r)" where
  "lift_io r = (case r of Inl e \<Rightarrow> Inl (RewriteIo e) | Inr x \<Rightarrow> Inr x)"

definition parse_key :: "string \<Rightarrow> string \<Rightarrow> rewrite_error + (string \<times> rewrite_answer)" where
  "parse_key dm an =
     and_then (normalize_pattern dm) (\<lambda>d. and_then (parse_answer an) (\<lambda>a. Inr (d, a)))"

definition add_rewrite ::
  "string \<Rightarrow> string \<Rightarrow> rewrite_store \<Rightarrow> disk \<Rightarrow> (rewrite_error + unit) \<times> rewrite_store \<times> disk" where
  "add_rewrite dm0 an0 s d =
     (case parse_key dm0 an0 of
        Inl e \<Rightarrow> (Inl e, s, d)
      | Inr (dm, an) \<Rightarrow>
          if points_at_itself dm an then (Inl (SelfCname an), s, d)
          else (case mutate rewrite_entry (add_entry \<lparr>rw_domain = dm, rw_answer = an, rw_enabled = True\<rparr>) s d of
                  (Inl e, s', d') \<Rightarrow> (Inl (RewriteIo e), s', d')
                | (Inr r, s', d') \<Rightarrow> (r, s', d')))"

definition remove_entry :: "string \<Rightarrow> rewrite_answer \<Rightarrow> rewrite list \<Rightarrow> bool \<times> rewrite list \<times> bool" where
  "remove_entry dm an rs =
     (let kept = filter (\<lambda>r. \<not> same_record dm an r) rs; removed = (length kept \<noteq> length rs)
      in (removed, kept, removed))"

definition remove_rewrite ::
  "string \<Rightarrow> string \<Rightarrow> rewrite_store \<Rightarrow> disk \<Rightarrow> (rewrite_error + bool) \<times> rewrite_store \<times> disk" where
  "remove_rewrite dm0 an0 s d =
     (case parse_key dm0 an0 of
        Inl e \<Rightarrow> (Inl e, s, d)
      | Inr (dm, an) \<Rightarrow>
          (case mutate rewrite_entry (remove_entry dm an) s d of (r, s', d') \<Rightarrow> (lift_io r, s', d')))"

definition set_enabled_entry ::
  "string \<Rightarrow> rewrite_answer \<Rightarrow> bool \<Rightarrow> rewrite list \<Rightarrow> bool \<times> rewrite list \<times> bool" where
  "set_enabled_entry dm an en rs =
     (case find (same_record dm an) rs of
        Some r \<Rightarrow> if rw_enabled r \<noteq> en
                  then (True, update_first (same_record dm an) (\<lambda>r. r\<lparr>rw_enabled := en\<rparr>) rs, True)
                  else (True, rs, False)
      | None \<Rightarrow> (False, rs, False))"

definition set_enabled_rewrite ::
  "string \<Rightarrow> string \<Rightarrow> bool \<Rightarrow> rewrite_store \<Rightarrow> disk \<Rightarrow> (rewrite_error + bool) \<times> rewrite_store \<times> disk" where
  "set_enabled_rewrite dm0 an0 en s d =
     (case parse_key dm0 an0 of
        Inl e \<Rightarrow> (Inl e, s, d)
      | Inr (dm, an) \<Rightarrow>
          (case mutate rewrite_entry (set_enabled_entry dm an en) s d of (r, s', d') \<Rightarrow> (lift_io r, s', d')))"

section \<open>Commands\<close>

text \<open>The admin commands (\<open>dns/commands.rs\<close>) and the call each of them becomes; the error the
  caller renders is kept, the other results are messages.\<close>

datatype rewrite_command =
    AddRewrite string string
  | DeleteRewrite string string
  | SetEnabledRewrite string string bool

definition error_of :: "'e + 'r \<Rightarrow> 'e option" where
  "error_of r = (case r of Inl e \<Rightarrow> Some e | Inr _ \<Rightarrow> None)"

fun run_rewrite ::
  "rewrite_command \<Rightarrow> rewrite_store \<Rightarrow> disk \<Rightarrow> rewrite_error option \<times> rewrite_store \<times> disk" where
  "run_rewrite (AddRewrite dm an) s d = apfst error_of (add_rewrite dm an s d)"
| "run_rewrite (DeleteRewrite dm an) s d = apfst error_of (remove_rewrite dm an s d)"
| "run_rewrite (SetEnabledRewrite dm an en) s d = apfst error_of (set_enabled_rewrite dm an en s d)"

section \<open>Normal forms\<close>

definition host_ok :: "string \<Rightarrow> bool" where
  "host_ok h \<longleftrightarrow> h \<noteq> [] \<and> list_all host_char h \<and> list_all (\<lambda>c. \<not> is_ascii_upper c) h
     \<and> hd h \<noteq> CHR ''.'' \<and> last h \<noteq> CHR ''.''"

definition normal_pattern :: "string \<Rightarrow> bool" where
  "normal_pattern p \<longleftrightarrow>
     (case strip_prefix ''*.'' p of Some h \<Rightarrow> host_ok h | None \<Rightarrow> host_ok p)"

fun normal_answer :: "rewrite_answer \<Rightarrow> bool" where
  "normal_answer (RV4 _) \<longleftrightarrow> True"
| "normal_answer (RCname h) \<longleftrightarrow> h \<noteq> [] \<and> list_all host_char h
     \<and> list_all (\<lambda>c. \<not> is_ascii_upper c) h \<and> last h \<noteq> CHR ''.'' \<and> parse_ipv4 h = None"

definition valid_rewrite :: "rewrite \<Rightarrow> bool" where
  "valid_rewrite r \<longleftrightarrow> normal_pattern (rw_domain r) \<and> normal_answer (rw_answer r)"

lemma host_char_graphic: "host_char c \<Longrightarrow> graphic c"
  by (auto simp: host_char_def alphanumeric_graphic) (auto simp: graphic_def)

lemma host_char_not: "\<not> host_char CHR ''*''" "\<not> host_char CHR ''!''" "\<not> host_char CHR ''#''"
  "\<not> host_char CHR '':''" "\<not> host_char CHR 0x0A" "\<not> host_char CHR '' ''"
  by code_simp+

lemma graphic_star_dot: "graphic CHR ''*''" "graphic CHR ''.''" "graphic CHR ''!''"
  by code_simp+

lemma no_star_prefix: "host_ok h \<Longrightarrow> strip_prefix ''*.'' h = None"
  by (cases h) (auto simp: host_ok_def host_char_not)

theorem normalize_pattern_normal:
  assumes "normalize_pattern d = Inr p"
  shows "normal_pattern p"
proof -
  define raw where "raw = to_ascii_lowercase (trim_end_matches CHR ''.'' (trim d))"
  have up: "list_all (\<lambda>c. \<not> is_ascii_upper c) raw" by (simp add: raw_def no_upper_to_ascii_lowercase)
  have ok: "host_ok (trim_matches CHR ''.'' h)"
    if "trim_matches CHR ''.'' h \<noteq> []" "list_all host_char (trim_matches CHR ''.'' h)" "set h \<subseteq> set raw" for h
    using that trim_matches_ends [of "CHR ''.''" h] set_trim_matches_subset [of "CHR ''.''" h] up
    by (auto simp: host_ok_def list_all_iff)
  show ?thesis
  proof (cases "strip_prefix ''*.'' raw")
    case None
    with assms have "p = trim_matches CHR ''.'' raw" "host_ok p"
      using ok [of raw] by (auto simp: normalize_pattern_def Let_def raw_def split: if_splits)
    then show ?thesis by (simp add: normal_pattern_def no_star_prefix)
  next
    case (Some h)
    then have "set h \<subseteq> set raw" by (auto simp: strip_prefix_Some)
    with assms Some have "p = ''*.'' @ trim_matches CHR ''.'' h" "host_ok (trim_matches CHR ''.'' h)"
      using ok [of h] by (auto simp: normalize_pattern_def Let_def raw_def split: if_splits)
    then show ?thesis by (simp add: normal_pattern_def)
  qed
qed

lemma normal_pattern_chars:
  assumes "normal_pattern p"
  shows "list_all graphic p" "list_all (\<lambda>c. \<not> is_ascii_upper c) p" "p \<noteq> []"
    "hd p \<noteq> CHR ''!''" "last p \<noteq> CHR ''.''" "CHR ''#'' \<notin> set p" "CHR 0x0A \<notin> set p"
proof -
  obtain h w where p: "p = w @ h" "w = [] \<or> w = ''*.''" "host_ok h"
  proof (cases "strip_prefix ''*.'' p")
    case None
    with assms that [of "[]" p] show ?thesis by (simp add: normal_pattern_def)
  next
    case (Some h)
    with assms that [of "''*.''" h] show ?thesis by (simp add: normal_pattern_def strip_prefix_Some)
  qed
  have star: "\<not> is_ascii_upper CHR ''*''" "\<not> is_ascii_upper CHR ''.''" by code_simp+
  have "host_char (hd h)" using p(3) by (auto simp: host_ok_def list_all_iff)
  then have "hd h \<noteq> CHR ''!''" using host_char_not(2) by metis
  with p show "list_all graphic p" "list_all (\<lambda>c. \<not> is_ascii_upper c) p" "p \<noteq> []"
    "hd p \<noteq> CHR ''!''" "last p \<noteq> CHR ''.''" "CHR ''#'' \<notin> set p" "CHR 0x0A \<notin> set p"
    using star graphic_star_dot host_char_not
    by (auto simp: host_ok_def list_all_iff host_char_graphic hd_append)
qed

theorem normalize_pattern_id:
  assumes "normal_pattern p"
  shows "normalize_pattern p = Inr p"
proof -
  note c = normal_pattern_chars [OF assms]
  have raw: "to_ascii_lowercase (trim_end_matches CHR ''.'' (trim p)) = p"
    using c by (simp add: trim_end_matches_id to_ascii_lowercase_id)
  have h: "trim_matches CHR ''.'' h = h \<and> h \<noteq> [] \<and> \<not> contains_char CHR ''*'' h \<and> list_all host_char h"
    if "host_ok h" for h
    using that host_char_not(1)
    by (auto simp: host_ok_def trim_matches_id contains_char_def list_all_iff)
  show ?thesis
    using assms h
    by (auto simp: normalize_pattern_def raw normal_pattern_def strip_prefix_Some Let_def split: option.splits)
qed

lemma v4_char_code: "v4_char c \<Longrightarrow> code c < 58"
  by (auto simp: v4_char_def is_ascii_digit_def)

lemma v4_char_not_upper: "v4_char (ascii_lower c) \<Longrightarrow> ascii_lower c = c"
proof (rule ascii_lower_id)
  assume "v4_char (ascii_lower c)"
  then have "code (ascii_lower c) < 58" by (rule v4_char_code)
  then show "\<not> is_ascii_upper c"
    by (auto simp: code_ascii_lower is_ascii_upper_def split: if_splits)
qed

lemma parse_ipv4_lower: "parse_ipv4 (to_ascii_lowercase s) = Some a \<Longrightarrow> to_ascii_lowercase s = s"
  using parse_ipv4_chars [of "to_ascii_lowercase s" a]
  by (auto simp: to_ascii_lowercase_def list_all_iff v4_char_not_upper intro!: map_idI)

theorem parse_answer_normal:
  assumes "parse_answer s = Inr a"
  shows "normal_answer a"
proof -
  define t where "t = trim_end_matches CHR ''.'' (trim s)"
  have last: "t \<noteq> [] \<Longrightarrow> last (to_ascii_lowercase t) \<noteq> CHR ''.''"
  proof -
    assume "t \<noteq> []"
    then have "last t \<noteq> CHR ''.''" using trim_end_matches_last [of "CHR ''.''" "trim s"] by (simp add: t_def)
    moreover have "\<not> is_ascii_alphanumeric CHR ''.''" by code_simp
    ultimately show ?thesis
      using \<open>t \<noteq> []\<close> by (simp add: to_ascii_lowercase_def last_map ascii_lower_eq_iff)
  qed
  have "parse_ipv4 t = None \<Longrightarrow> parse_ipv4 (to_ascii_lowercase t) = None"
    using parse_ipv4_lower [of t] by (cases "parse_ipv4 (to_ascii_lowercase t)") auto
  with assms last show ?thesis
    by (auto simp: parse_answer_def Let_def t_def [symmetric] no_upper_to_ascii_lowercase
        split: if_splits option.splits)
qed

theorem parse_show_answer:
  assumes "normal_answer a"
  shows "parse_answer (show_answer a) = Inr a"
proof (cases a)
  case (RV4 v)
  have "list_all graphic (show_ipv4 v)"
    using show_ipv4_chars [of v] by (auto simp: list_all_iff v4_char_graphic)
  then show ?thesis
    using show_ipv4_last [of v]
    by (simp add: RV4 parse_answer_def trim_end_matches_id parse_show_ipv4)
next
  case (RCname h)
  then have "list_all graphic h" "CHR '':'' \<notin> set h"
    using assms host_char_not(4) by (auto simp: list_all_iff host_char_graphic)
  then show ?thesis
    using assms
    by (simp add: RCname parse_answer_def trim_end_matches_id parse_ipv6_no_colon to_ascii_lowercase_id)
qed

section \<open>The record file\<close>

lemma normal_answer_chars:
  assumes "normal_answer a"
  shows "list_all graphic (show_answer a)" "show_answer a \<noteq> []"
    "CHR ''#'' \<notin> set (show_answer a)" "CHR 0x0A \<notin> set (show_answer a)"
proof -
  have "list_all graphic (show_answer a) \<and> show_answer a \<noteq> [] \<and> list_all host_char (show_answer a)"
  proof (cases a)
    case (RV4 v)
    then show ?thesis
      using show_ipv4_chars [of v] show_ipv4_last [of v]
      by (auto simp: list_all_iff v4_char_graphic)
        (auto simp: host_char_def is_ascii_alphanumeric_def v4_char_def)
  next
    case (RCname h)
    then show ?thesis using assms by (auto simp: list_all_iff host_char_graphic)
  qed
  then show "list_all graphic (show_answer a)" "show_answer a \<noteq> []"
    "CHR ''#'' \<notin> set (show_answer a)" "CHR 0x0A \<notin> set (show_answer a)"
    using host_char_not by (auto simp: list_all_iff)
qed

lemma parse_format_rewrite:
  assumes "valid_rewrite r"
  shows "parse_rewrite (format_rewrite r) = Some r"
proof -
  have p: "normal_pattern (rw_domain r)" and a: "normal_answer (rw_answer r)"
    using assms by (simp_all add: valid_rewrite_def)
  note c = normal_pattern_chars [OF p]
  obtain x xs where d: "rw_domain r = x # xs" using c(3) by (cases "rw_domain r") auto
  have x: "graphic x" "x \<noteq> CHR ''!''" using c d by auto
  have "ascii_ws CHR '' ''" by code_simp
  then have sp: "split_once_ws (rw_domain r @ CHR '' '' # t) = Some (rw_domain r, t)" for t
    by (rule split_once_ws_graphic [OF c(1)])
  have ts: "trim_start (rw_domain r @ t) = rw_domain r @ t" for t
    using x d by (intro trim_start_id) (simp add: ws_len_graphic del: ws_len.simps)
  show ?thesis
    using sp ts x d normalize_pattern_id [OF p] parse_show_answer [OF a]
    by (cases r) (auto simp: parse_rewrite_def format_rewrite_def)
qed

lemma file_line_rewrite:
  assumes "valid_rewrite r"
  shows "file_line (format_rewrite r)"
proof -
  have p: "normal_pattern (rw_domain r)" and a: "normal_answer (rw_answer r)"
    using assms by (simp_all add: valid_rewrite_def)
  note c = normal_pattern_chars [OF p] normal_answer_chars [OF a]
  have "graphic (hd (format_rewrite r))" "graphic (last (format_rewrite r))"
    using c graphic_star_dot(3) hd_in_set [of "rw_domain r"] last_in_set [of "show_answer (rw_answer r)"]
    by (auto simp: format_rewrite_def list_all_iff hd_append)
  then have "trimmed (format_rewrite r)" by (intro trimmed_graphic_ends) simp
  with c show ?thesis by (auto simp: file_line_def format_rewrite_def)
qed

interpretation rewrites_file: entry_codec rewrite_entry valid_rewrite
  by unfold_locales (simp_all add: rewrite_entry_def parse_format_rewrite file_line_rewrite)

lemma comment_rewrite_header: "list_all comment_line rewrite_header_lines" "rewrite_header_lines \<noteq> []"
  by (simp_all add: rewrite_header_lines_def comment_line_def)

lemma parse_rewrite_valid: "parse_rewrite l = Some r \<Longrightarrow> valid_rewrite r"
  by (auto simp: parse_rewrite_def valid_rewrite_def Let_def normalize_pattern_normal parse_answer_normal
      split: option.splits prod.splits sum.splits)

lemma load_rewrites_valid: "list_all valid_rewrite (entries (load_rewrites p d))"
  by (auto simp: load_rewrites_def load_set_def parse_lines_def rewrite_entry_def list_all_iff
      List.map_filter_def parse_rewrite_valid split: option.splits)

section \<open>What the edits keep\<close>

text \<open>Every record is in normal form, no record is listed twice, and a CNAME is alone in its
  pattern. All of it is a property of the keys: parking a record is state, not identity.\<close>

definition rw_key :: "rewrite \<Rightarrow> string \<times> rewrite_answer" where
  "rw_key r = (rw_domain r, rw_answer r)"

definition cname_alone :: "(string \<times> rewrite_answer) list \<Rightarrow> bool" where
  "cname_alone ks \<longleftrightarrow>
     (\<forall>k \<in> set ks. \<forall>l \<in> set ks. fst k = fst l \<and> is_cname (snd k) \<longrightarrow> l = k)"

definition valid_key :: "string \<times> rewrite_answer \<Rightarrow> bool" where
  "valid_key k \<longleftrightarrow> normal_pattern (fst k) \<and> normal_answer (snd k)"

definition wf_keys :: "(string \<times> rewrite_answer) list \<Rightarrow> bool" where
  "wf_keys ks \<longleftrightarrow> list_all valid_key ks \<and> distinct ks \<and> cname_alone ks"

definition wf_rewrites :: "rewrite list \<Rightarrow> bool" where
  "wf_rewrites rs \<longleftrightarrow> wf_keys (map rw_key rs)"

lemma wf_keys_mset: "mset ks = mset ls \<Longrightarrow> wf_keys ks = wf_keys ls"
  using mset_eq_setD [of ks ls] mset_eq_imp_distinct_iff [of ks ls]
  by (simp add: wf_keys_def cname_alone_def list_all_iff)

lemma wf_keys_snoc:
  assumes "wf_keys ks" "valid_key k" "k \<notin> set ks"
    and "\<forall>l \<in> set ks. fst l = fst k \<longrightarrow> \<not> is_cname (snd l) \<and> \<not> is_cname (snd k)"
  shows "wf_keys (ks @ [k])"
proof -
  have "cname_alone (ks @ [k])"
    using assms(1,4) unfolding wf_keys_def cname_alone_def by auto
  with assms show ?thesis by (simp add: wf_keys_def)
qed

lemma wf_keys_filter: "wf_keys ks \<Longrightarrow> wf_keys (filter P ks)"
  by (auto simp: wf_keys_def cname_alone_def list_all_iff)

lemma wf_rewrites_valid: "wf_rewrites rs \<Longrightarrow> list_all valid_rewrite rs"
  by (simp add: wf_rewrites_def wf_keys_def list_all_iff valid_key_def valid_rewrite_def rw_key_def)

lemma parse_key_valid: "parse_key dm an = Inr k \<Longrightarrow> valid_key k"
  by (auto simp: parse_key_def and_then_Inr valid_key_def normalize_pattern_normal parse_answer_normal)

lemma same_record_key: "same_record dm an r \<longleftrightarrow> rw_key r = (dm, an)"
  by (auto simp: same_record_def rw_key_def)

lemma add_entry_wf [inv_pres]:
  assumes "wf_rewrites rs" "valid_key (rw_key e)" "add_entry e rs = (out, new, ch)"
  shows "wf_rewrites new"
proof (cases "new = rs")
  case False
  then have fresh: "rw_key e \<notin> set (map rw_key rs)"
    and new: "new = sort_key (\<lambda>r. (rw_domain r, show_answer (rw_answer r))) (rs @ [e])"
    using assms(3)
    by (auto simp: add_entry_def Let_def list_ex_iff same_record_def rw_key_def split: if_splits)
  have alone: "\<forall>l \<in> set (map rw_key rs). fst l = fst (rw_key e) \<longrightarrow>
      \<not> is_cname (snd l) \<and> \<not> is_cname (snd (rw_key e))"
    using assms(3) False
    by (auto simp: add_entry_def Let_def list_ex_iff filter_empty_conv rw_key_def split: if_splits)
  have "mset (map rw_key new) = mset (map rw_key rs @ [rw_key e])"
    by (simp add: new)
  then show ?thesis
    using wf_keys_snoc [OF _ assms(2) fresh alone] assms(1) wf_keys_mset
    unfolding wf_rewrites_def by blast
qed (use assms in simp)

lemma remove_entry_keys:
  "remove_entry dm an rs = (out, new, ch) \<Longrightarrow> map rw_key new = filter (\<lambda>k. k \<noteq> (dm, an)) (map rw_key rs)"
  by (auto simp: remove_entry_def Let_def same_record_key filter_map o_def)

lemma remove_entry_wf [inv_pres]:
  "wf_rewrites rs \<Longrightarrow> remove_entry dm an rs = (out, new, ch) \<Longrightarrow> wf_rewrites new"
  by (simp add: wf_rewrites_def remove_entry_keys wf_keys_filter)

lemma set_enabled_entry_keys:
  "set_enabled_entry dm an en rs = (out, new, ch) \<Longrightarrow> map rw_key new = map rw_key rs"
  by (auto simp: set_enabled_entry_def rw_key_def intro!: update_first_map split: if_splits option.splits)

lemma set_enabled_entry_wf [inv_pres]:
  "wf_rewrites rs \<Longrightarrow> set_enabled_entry dm an en rs = (out, new, ch) \<Longrightarrow> wf_rewrites new"
  by (simp add: wf_rewrites_def set_enabled_entry_keys)

lemma mutate_wf:
  assumes "mutate rewrite_entry f s d = (r, s', d')" "wf_rewrites (entries s)"
    and "\<And>out new ch. f (entries s) = (out, new, ch) \<Longrightarrow> wf_rewrites new"
  shows "wf_rewrites (entries s')"
  using mutate_inv [OF assms(1), of wf_rewrites] assms(2,3) by blast

text \<open>What a command does to the store is one \<open>mutate\<close>, or nothing.\<close>

lemma run_rewrite_cases:
  assumes "run_rewrite c s d = (err, s', d')"
  obtains (rejected) e where "err = Some e" "s' = s" "d' = d"
  | (add) e r where "valid_key (rw_key e)" "mutate rewrite_entry (add_entry e) s d = (r, s', d')"
      "err = None \<longrightarrow> (\<exists>x. r = Inr x)" "err \<noteq> None \<longrightarrow> s' = s"
  | (remove) dm an r where "mutate rewrite_entry (remove_entry dm an) s d = (r, s', d')"
      "err = None \<longleftrightarrow> (\<exists>x. r = Inr x)"
  | (set_enabled) dm an en r where "mutate rewrite_entry (set_enabled_entry dm an en) s d = (r, s', d')"
      "err = None \<longleftrightarrow> (\<exists>x. r = Inr x)"
proof (cases c)
  case (AddRewrite dm0 an0)
  show ?thesis
  proof (cases "parse_key dm0 an0")
    case (Inl e)
    with AddRewrite assms show ?thesis by (intro rejected) (auto simp: add_rewrite_def error_of_def)
  next
    case (Inr k)
    obtain dm an where k: "k = (dm, an)" by (cases k)
    let ?e = "\<lparr>rw_domain = dm, rw_answer = an, rw_enabled = True\<rparr>"
    obtain r s1 d1 where m: "mutate rewrite_entry (add_entry ?e) s d = (r, s1, d1)"
      by (cases "mutate rewrite_entry (add_entry ?e) s d") auto
    have v: "valid_key (rw_key ?e)" using parse_key_valid [OF Inr] by (simp add: k rw_key_def)
    show ?thesis
    proof (cases "points_at_itself dm an")
      case True
      with AddRewrite assms Inr k show ?thesis
        by (intro rejected) (auto simp: add_rewrite_def error_of_def)
    next
      case False
      then have "err = error_of (case r of Inl e \<Rightarrow> Inl (RewriteIo e) | Inr x \<Rightarrow> x)" "s' = s1" "d' = d1"
        using AddRewrite assms Inr k m by (auto simp: add_rewrite_def split: sum.splits)
      moreover have "err \<noteq> None \<Longrightarrow> s1 = s"
        using m calculation
        by (auto simp: mutate_def add_entry_def Let_def error_of_def split: if_splits prod.splits sum.splits)
      ultimately show ?thesis
        using v m by (intro add) (auto simp: error_of_def split: sum.splits)
    qed
  qed
next
  case (DeleteRewrite dm0 an0)
  with assms show ?thesis
    by (cases "parse_key dm0 an0")
      (auto simp: remove_rewrite_def error_of_def lift_io_def split: prod.splits sum.splits
        intro: rejected remove)
next
  case (SetEnabledRewrite dm0 an0 en)
  with assms show ?thesis
    by (cases "parse_key dm0 an0")
      (auto simp: set_enabled_rewrite_def error_of_def lift_io_def split: prod.splits sum.splits
        intro: rejected set_enabled)
qed

lemma run_rewrite_wf [inv_pres]:
  assumes "run_rewrite c s d = (err, s', d')" "wf_rewrites (entries s)"
  shows "wf_rewrites (entries s')"
  using assms(1)
proof (cases rule: run_rewrite_cases)
  case rejected
  with assms(2) show ?thesis by simp
next
  case (add e r)
  with assms(2) show ?thesis by (blast intro: mutate_wf add_entry_wf)
next
  case (remove dm an r)
  with assms(2) show ?thesis by (blast intro: mutate_wf remove_entry_wf)
next
  case (set_enabled dm an en r)
  with assms(2) show ?thesis by (blast intro: mutate_wf set_enabled_entry_wf)
qed

lemma run_rewrite_error: "run_rewrite c s d = (Some e, s', d') \<Longrightarrow> s' = s"
proof (erule run_rewrite_cases)
  fix dm an r assume "mutate rewrite_entry (remove_entry dm an) s d = (r, s', d')"
    "Some e = None \<longleftrightarrow> (\<exists>x. r = Inr x)"
  then show "s' = s" by (cases r) (auto dest: mutate_error)
next
  fix dm an en r assume "mutate rewrite_entry (set_enabled_entry dm an en) s d = (r, s', d')"
    "Some e = None \<longleftrightarrow> (\<exists>x. r = Inr x)"
  then show "s' = s" by (cases r) (auto dest: mutate_error)
qed auto

lemma run_rewrite_file:
  "run_rewrite c s d = (err, s', d') \<Longrightarrow> file_path s' = file_path s \<and> file_header s' = file_header s"
  by (erule run_rewrite_cases) (auto dest: mutate_file)

lemma run_rewrite_synced:
  assumes "run_rewrite c s d = (None, s', d')" "synced rewrite_entry s d" "wf_rewrites (entries s)"
    and "file_header s = rewrite_header"
  shows "synced rewrite_entry s' d'"
proof -
  have v: "list_all valid_rewrite (entries s')"
    using run_rewrite_wf [OF assms(1,3)] by (rule wf_rewrites_valid)
  have m: "synced rewrite_entry s' d'" if "mutate rewrite_entry f s d = (Inr x, s', d')"
    for f :: "rewrite list \<Rightarrow> 'r \<times> rewrite list \<times> bool" and x
    by (rule rewrites_file.mutate_synced
        [OF that assms(2) v assms(4) [unfolded rewrite_header_def] comment_rewrite_header])
  show ?thesis
    using assms(1) by (cases rule: run_rewrite_cases) (auto intro: m)
qed

text \<open>The states the store goes through: loaded from a file whose records are well-formed,
  then any commands, on a disk whose faults come and go.\<close>

inductive rewrites_reach :: "path \<Rightarrow> rewrite_store \<Rightarrow> disk \<Rightarrow> bool" for p where
  Load: "wf_rewrites (entries (load_rewrites p d)) \<Longrightarrow> rewrites_reach p (load_rewrites p d) d"
| Command: "rewrites_reach p s d \<Longrightarrow> run_rewrite c s d = (err, s', d') \<Longrightarrow> rewrites_reach p s' d'"
| Faults: "rewrites_reach p s d \<Longrightarrow>
     rewrites_reach p s (d\<lparr>mkdir_fault := f, write_fault := g\<rparr>)"

lemma rewrites_reach_wf: "rewrites_reach p s d \<Longrightarrow> wf_rewrites (entries s)"
  by (induction rule: rewrites_reach.induct) (auto intro: run_rewrite_wf)

lemma rewrites_reach_file:
  "rewrites_reach p s d \<Longrightarrow> file_path s = p \<and> file_header s = rewrite_header"
  by (induction rule: rewrites_reach.induct)
    (auto simp: load_rewrites_def load_set_def dest: run_rewrite_file)

section \<open>Lookup\<close>

text \<open>Two patterns that match the same name and are equally specific are the same pattern.\<close>

lemma pattern_unique:
  assumes "pattern_matches p n" "pattern_matches q n" "pattern_specificity p = pattern_specificity q"
  shows "p = q"
proof (cases "strip_prefix ''*.'' p")
  case None
  with assms show ?thesis
    by (auto simp: pattern_matches_def pattern_specificity_def starts_with_def split: option.splits)
next
  case (Some a)
  with assms(3) obtain b where q: "strip_prefix ''*.'' q = Some b"
    by (auto simp: pattern_specificity_def starts_with_def)
  have len: "length a = length b"
    using assms(3) Some q by (auto simp: pattern_specificity_def strip_prefix_Some)
  have "a = b"
    using assms(1,2) Some q len by (auto simp: pattern_matches_def ends_with_iff)
  with Some q show ?thesis by (simp add: strip_prefix_Some)
qed

definition best_match :: "rewrite list \<Rightarrow> string \<Rightarrow> rewrite \<Rightarrow> bool" where
  "best_match rs n r \<longleftrightarrow> rw_enabled r \<and> pattern_matches (rw_domain r) n \<and>
     (\<forall>q \<in> set rs. rw_enabled q \<and> pattern_matches (rw_domain q) n \<longrightarrow>
        pattern_specificity (rw_domain q) \<le> pattern_specificity (rw_domain r))"

lemma matching_best: "matching s n = map rw_answer (filter (best_match (entries s) n) (entries s))"
proof -
  let ?live = "filter rw_enabled (entries s)"
  let ?cand = "map rw_domain (filter (\<lambda>r. pattern_matches (rw_domain r) n) ?live)"
  show ?thesis
  proof (cases "max_by_key pattern_specificity ?cand")
    case None
    then have "?cand = []" by simp
    then have "filter (best_match (entries s) n) (entries s) = []"
      by (auto simp: filter_empty_conv best_match_def)
    with None show ?thesis by (simp add: matching_def Let_def)
  next
    case (Some best)
    have "best \<in> set ?cand" and mx: "\<And>y. y \<in> set ?cand \<Longrightarrow> pattern_specificity y \<le> pattern_specificity best"
      using max_by_key_in [OF Some] max_by_key_max [OF Some] by blast+
    then have best: "pattern_matches best n" by auto
    have "rw_enabled r \<and> rw_domain r = best \<longleftrightarrow> best_match (entries s) n r" if "r \<in> set (entries s)" for r
    proof
      assume "rw_enabled r \<and> rw_domain r = best"
      with best mx show "best_match (entries s) n r" by (auto simp: best_match_def)
    next
      assume b: "best_match (entries s) n r"
      have "pattern_specificity best \<le> pattern_specificity (rw_domain r)"
        using \<open>best \<in> set ?cand\<close> b by (auto simp: best_match_def)
      moreover have "pattern_specificity (rw_domain r) \<le> pattern_specificity best"
        using mx b that by (auto simp: best_match_def)
      ultimately show "rw_enabled r \<and> rw_domain r = best"
        using pattern_unique [of "rw_domain r" n best] b best by (auto simp: best_match_def)
    qed
    then have "filter (\<lambda>r. rw_domain r = best) ?live = filter (best_match (entries s) n) (entries s)"
      by (auto intro: filter_cong)
    with Some show ?thesis by (simp add: matching_def Let_def)
  qed
qed

lemma matching_nonempty:
  "matching s n \<noteq> [] \<longleftrightarrow> (\<exists>r \<in> set (entries s). rw_enabled r \<and> pattern_matches (rw_domain r) n)"
proof -
  let ?live = "filter rw_enabled (entries s)"
  let ?cand = "map rw_domain (filter (\<lambda>r. pattern_matches (rw_domain r) n) ?live)"
  show ?thesis
  proof (cases "max_by_key pattern_specificity ?cand")
    case None
    then have "?cand = []" by (simp add: max_by_key_None)
    with None show ?thesis by (auto simp: matching_def filter_empty_conv)
  next
    case (Some best)
    with max_by_key_in [OF Some] show ?thesis by (auto simp: matching_def filter_empty_conv)
  qed
qed

section \<open>What an accepted command does\<close>

text \<open>The records an accepted command leaves, as a set: one record more, one less, or the same
  with the named one switched.\<close>

definition stored_keys :: "rewrite_store \<Rightarrow> (string \<times> rewrite_answer) set" where
  "stored_keys s = rw_key ` set (entries s)"

definition switch :: "string \<times> rewrite_answer \<Rightarrow> bool \<Rightarrow> rewrite \<Rightarrow> rewrite" where
  "switch k en r = (if rw_key r = k then r\<lparr>rw_enabled := en\<rparr> else r)"

fun effect_ok :: "rewrite_command \<Rightarrow> rewrite_store \<Rightarrow> rewrite_store \<Rightarrow> bool" where
  "effect_ok (AddRewrite dm an) s s' \<longleftrightarrow>
     (case parse_key dm an of
        Inl _ \<Rightarrow> False
      | Inr k \<Rightarrow> set (entries s') =
          (if k \<in> stored_keys s then set (entries s)
           else insert \<lparr>rw_domain = fst k, rw_answer = snd k, rw_enabled = True\<rparr> (set (entries s))))"
| "effect_ok (DeleteRewrite dm an) s s' \<longleftrightarrow>
     (case parse_key dm an of
        Inl _ \<Rightarrow> False
      | Inr k \<Rightarrow> set (entries s') = Set.filter (\<lambda>r. rw_key r \<noteq> k) (set (entries s)))"
| "effect_ok (SetEnabledRewrite dm an en) s s' \<longleftrightarrow>
     (case parse_key dm an of
        Inl _ \<Rightarrow> False
      | Inr k \<Rightarrow> set (entries s') = switch k en ` set (entries s))"

lemma add_entry_effect:
  "add_entry e rs = (Inr x, new, ch) \<Longrightarrow>
   set (if ch then new else rs) = (if rw_key e \<in> rw_key ` set rs then set rs else insert e (set rs))"
proof -
  have "list_ex (same_record (rw_domain e) (rw_answer e)) rs \<longleftrightarrow> rw_key e \<in> rw_key ` set rs"
    by (auto simp: list_ex_iff same_record_key rw_key_def [of e] image_iff eq_commute)
  then show "add_entry e rs = (Inr x, new, ch) \<Longrightarrow> ?thesis"
    by (auto simp: add_entry_def Let_def split: if_splits)
qed

lemma remove_entry_effect:
  "remove_entry dm an rs = (out, new, ch) \<Longrightarrow>
   set (if ch then new else rs) = Set.filter (\<lambda>r. rw_key r \<noteq> (dm, an)) (set rs)"
  using length_filter_less [of _ rs "\<lambda>r. \<not> same_record dm an r"]
  by (fastforce simp: remove_entry_def Let_def same_record_key)

lemma set_update_first:
  assumes "distinct (map key qs)" "\<And>r. P r \<longleftrightarrow> key r = k"
  shows "set (update_first P f qs) = (\<lambda>r. if P r then f r else r) ` set qs"
  using assms(1)
proof (induction qs)
  case (Cons q qs)
  show ?case
  proof (cases "P q")
    case True
    then have "\<forall>r \<in> set qs. \<not> P r" using Cons.prems assms(2) by (auto simp: image_iff)
    then have "(\<lambda>r. if P r then f r else r) ` set qs = set qs" by (auto simp: image_iff)
    with True show ?thesis by (simp only: update_first.simps list.simps image_insert if_True)
  qed (use Cons in auto)
qed simp

lemma set_enabled_entry_effect:
  assumes "set_enabled_entry dm an en rs = (out, new, ch)" "distinct (map rw_key rs)"
  shows "set (if ch then new else rs) = switch (dm, an) en ` set rs"
proof (cases "find (same_record dm an) rs")
  case None
  with assms(1) show ?thesis
    by (auto simp: set_enabled_entry_def find_None_iff same_record_key switch_def image_iff)
next
  case (Some q)
  then have q: "q \<in> set rs" "rw_key q = (dm, an)" by (auto simp: find_Some_iff same_record_key)
  show ?thesis
  proof (cases "rw_enabled q = en")
    case True
    have "switch (dm, an) en r = r" if "r \<in> set rs" for r
    proof (cases "rw_key r = (dm, an)")
      case True
      with q assms(2) that have "r = q" by (simp add: distinct_map inj_on_def)
      with \<open>rw_enabled q = en\<close> show ?thesis by (simp add: switch_def)
    qed (simp add: switch_def)
    with True assms(1) Some show ?thesis by (simp add: set_enabled_entry_def)
  next
    case False
    with assms Some show ?thesis
      by (simp add: set_enabled_entry_def set_update_first [OF _ same_record_key] same_record_key switch_def [abs_def])
        (auto simp: set_update_first [OF _ same_record_key] same_record_key)
  qed
qed

lemma run_rewrite_effect:
  assumes "run_rewrite c s d = (None, s', d')" "wf_rewrites (entries s)"
  shows "effect_ok c s s'"
proof (cases c)
  case (AddRewrite dm an)
  obtain k where k: "parse_key dm an = Inr k"
    using assms(1) AddRewrite by (auto simp: add_rewrite_def error_of_def split: sum.splits)
  let ?e = "\<lparr>rw_domain = fst k, rw_answer = snd k, rw_enabled = True\<rparr>"
  obtain out new ch where f: "add_entry ?e (entries s) = (out, new, ch)"
    by (cases "add_entry ?e (entries s)") auto
  have "entries s' = (if ch then new else entries s)" "out = Inr ()"
    using assms(1) AddRewrite k f
    by (auto simp: add_rewrite_def error_of_def mutate_def split: sum.splits prod.splits if_splits)
  with add_entry_effect [of ?e "entries s" "()" new ch] f AddRewrite k show ?thesis
    by (simp add: stored_keys_def rw_key_def [of ?e])
next
  case (DeleteRewrite dm an)
  obtain k where k: "parse_key dm an = Inr k"
    using assms(1) DeleteRewrite by (auto simp: remove_rewrite_def error_of_def split: sum.splits)
  obtain out new ch where f: "remove_entry (fst k) (snd k) (entries s) = (out, new, ch)"
    by (cases "remove_entry (fst k) (snd k) (entries s)") auto
  have "entries s' = (if ch then new else entries s)"
    using assms(1) DeleteRewrite k f
    by (auto simp: remove_rewrite_def error_of_def lift_io_def mutate_def
        split: sum.splits prod.splits if_splits)
  with remove_entry_effect [OF f] DeleteRewrite k show ?thesis by simp
next
  case (SetEnabledRewrite dm an en)
  have dist: "distinct (map rw_key (entries s))" using assms(2) by (simp add: wf_rewrites_def wf_keys_def)
  obtain k where k: "parse_key dm an = Inr k"
    using assms(1) SetEnabledRewrite
    by (auto simp: set_enabled_rewrite_def error_of_def split: sum.splits)
  obtain out new ch where f: "set_enabled_entry (fst k) (snd k) en (entries s) = (out, new, ch)"
    by (cases "set_enabled_entry (fst k) (snd k) en (entries s)") auto
  have "entries s' = (if ch then new else entries s)"
    using assms(1) SetEnabledRewrite k f
    by (auto simp: set_enabled_rewrite_def error_of_def lift_io_def mutate_def
        split: sum.splits prod.splits if_splits)
  with set_enabled_entry_effect [OF f dist] SetEnabledRewrite k show ?thesis by simp
qed

section \<open>Properties\<close>

definition empty_disk :: disk where
  "empty_disk = \<lparr>files = (\<lambda>_. None), mkdir_fault = (\<lambda>_. None), write_fault = (\<lambda>_. None),
     remove_fault = (\<lambda>_. None)\<rparr>"

abbreviation sample_file :: path where
  "sample_file \<equiv> (''data'', ''r.conf'')"

abbreviation sample_store :: rewrite_store where
  "sample_store \<equiv> fst (snd (run_rewrite (AddRewrite ''*.Example.com.'' ''10.0.0.1'')
     (load_rewrites sample_file empty_disk) empty_disk))"

abbreviation sample_disk :: disk where
  "sample_disk \<equiv> snd (snd (run_rewrite (AddRewrite ''*.Example.com.'' ''10.0.0.1'')
     (load_rewrites sample_file empty_disk) empty_disk))"

lemma load_empty: "entries (load_rewrites p empty_disk) = []"
  by (simp add: load_rewrites_def load_set_def empty_disk_def read_to_string_def)

lemma reach_empty: "rewrites_reach p (load_rewrites p empty_disk) empty_disk"
  by (rule rewrites_reach.Load) (simp add: load_empty wf_rewrites_def wf_keys_def cname_alone_def)

lemma reach_run:
  assumes "rewrites_reach p s d"
  shows "rewrites_reach p (fst (snd (run_rewrite c s d))) (snd (snd (run_rewrite c s d)))"
proof -
  obtain err s' d' where "run_rewrite c s d = (err, s', d')" by (cases "run_rewrite c s d") auto
  with rewrites_reach.Command [OF assms] show ?thesis by simp
qed

lemmas reach_sample = reach_run [OF reach_empty [of sample_file], of "AddRewrite ''*.Example.com.'' ''10.0.0.1''"]

text \<open>C1: every admin command on a record store the service can be in keeps the invariant (keys
  distinct, patterns and answers normalised, a CNAME alone on its pattern); an accepted one
  changes exactly the record it names and a refused one changes nothing.\<close>

theorem rewrite_command_correct:
  assumes "rewrites_reach p s d"
  shows "wf_rewrites (entries (fst (snd (run_rewrite c s d)))) \<and>
    (case fst (run_rewrite c s d) of
       None \<Rightarrow> effect_ok c s (fst (snd (run_rewrite c s d)))
     | Some _ \<Rightarrow> fst (snd (run_rewrite c s d)) = s)"
proof -
  obtain err s' d' where run: "run_rewrite c s d = (err, s', d')" by (cases "run_rewrite c s d") auto
  note inv = rewrites_reach_wf [OF assms]
  show ?thesis
    using run_rewrite_wf [OF run inv] run_rewrite_effect [of c s d s' d'] run_rewrite_error [of c s d _ s' d'] run inv
    by (auto split: option.splits)
qed

theorem rewrite_command_correct_witness:
  "set (entries (fst (snd (run_rewrite (SetEnabledRewrite ''*.example.com'' ''10.0.0.1'' False) sample_store sample_disk))))
     = {\<lparr>rw_domain = ''*.example.com'', rw_answer = RV4 (Ipv4 10 0 0 1), rw_enabled = False\<rparr>}"
  using rewrite_command_correct [OF reach_sample, of "SetEnabledRewrite ''*.example.com'' ''10.0.0.1'' False"]
  by code_simp

text \<open>C25: a lookup answers exactly the answers of the live records whose pattern matches the name and
  is at least as specific as every other live matching pattern.\<close>

theorem rewrite_lookup_most_specific:
  "matching s name = map rw_answer
     (filter (\<lambda>r. rw_enabled r \<and> pattern_matches (rw_domain r) name \<and>
        (\<forall>q \<in> set (entries s). rw_enabled q \<longrightarrow> pattern_matches (rw_domain q) name \<longrightarrow>
           pattern_specificity (rw_domain q) \<le> pattern_specificity (rw_domain r))) (entries s))"
  unfolding matching_best
  by (rule arg_cong [where f = "map rw_answer"], rule filter_cong [OF refl]) (auto simp: best_match_def)

theorem rewrite_lookup_most_specific_witness:
  "matching sample_store ''a.example.com'' = [RV4 (Ipv4 10 0 0 1)]"
  unfolding rewrite_lookup_most_specific by code_simp

text \<open>C23: after an accepted command on a store its file agrees with, a restart that reads the file
  again finds the very same records.\<close>

theorem rewrites_survive_restart:
  assumes "rewrites_reach p s d" "synced rewrite_entry s d" "fst (run_rewrite c s d) = None"
  shows "load_rewrites p (snd (snd (run_rewrite c s d))) = fst (snd (run_rewrite c s d))"
proof -
  obtain s' d' where run: "run_rewrite c s d = (None, s', d')"
    using assms(3) by (cases "run_rewrite c s d") auto
  note stored = rewrites_reach_file [OF assms(1)]
  have "synced rewrite_entry s' d'"
    using run_rewrite_synced [OF run assms(2) rewrites_reach_wf [OF assms(1)]] stored by simp
  then show ?thesis
    using load_synced [of rewrite_entry s' d' id] run_rewrite_file [OF run] stored run
    by (simp add: load_rewrites_def)
qed

theorem rewrites_survive_restart_witness:
  "entries (load_rewrites sample_file sample_disk)
     = [\<lparr>rw_domain = ''*.example.com'', rw_answer = RV4 (Ipv4 10 0 0 1), rw_enabled = True\<rparr>]"
proof -
  have "synced rewrite_entry (load_rewrites sample_file empty_disk) empty_disk"
    unfolding load_rewrites_def by (rule synced_load)
  moreover have "fst (run_rewrite (AddRewrite ''*.Example.com.'' ''10.0.0.1'')
      (load_rewrites sample_file empty_disk) empty_disk) = None"
    by code_simp
  ultimately have "load_rewrites sample_file sample_disk = sample_store"
    by (rule rewrites_survive_restart [OF reach_empty])
  moreover have "entries sample_store
      = [\<lparr>rw_domain = ''*.example.com'', rw_answer = RV4 (Ipv4 10 0 0 1), rw_enabled = True\<rparr>]"
    by code_simp
  ultimately show ?thesis by simp
qed

text \<open>the pattern normaliser accepts exactly what it would keep: its results are normal forms
  and normalising a normal form changes nothing.\<close>

theorem normalize_pattern_idempotent:
  assumes "normalize_pattern x = Inr q"
  shows "normal_pattern q \<and> normalize_pattern q = Inr q"
  using normalize_pattern_normal [OF assms] normalize_pattern_id by blast

theorem normalize_pattern_idempotent_witness:
  "normalize_pattern '' *.ADS.example. '' = Inr ''*.ads.example'' \<and> normalize_pattern ''*.ads.example'' = Inr ''*.ads.example''"
proof -
  have "normalize_pattern '' *.ADS.example. '' = Inr ''*.ads.example''" by code_simp
  with normalize_pattern_idempotent [OF this] show ?thesis by simp
qed

end
