(* ===== verification/Dns_Message.thy ===== *)
theory Dns_Message
  imports Dns_Rewrites
begin

text \<open>
  DNS messages as the program sees them, and \<open>dns/response.rs\<close>. The message types are those of
  the \<open>hickory_proto\<close> crate, reduced to the public fields the program reads or writes; a record
  type and a class are their 16-bit codes. Domain names are opaque: the type variable \<open>'n\<close>, with
  the conversions the program calls as a record of functions.
\<close>

section \<open>Messages\<close>

record 'n name_ops =
  to_ascii :: "'n \<Rightarrow> string"
  to_utf8 :: "'n \<Rightarrow> string"
  show_name :: "'n \<Rightarrow> string"
  from_utf8 :: "string \<Rightarrow> 'n option"

type_synonym rtype = u16

definition rt_A :: rtype where "rt_A = 1"
definition rt_CNAME :: rtype where "rt_CNAME = 5"
definition rt_PTR :: rtype where "rt_PTR = 12"
definition rt_AAAA :: rtype where "rt_AAAA = 28"
definition rt_SVCB :: rtype where "rt_SVCB = 64"
definition rt_HTTPS :: rtype where "rt_HTTPS = 65"

definition class_IN :: u16 where "class_IN = 1"

datatype svc_key = KeyEchConfigList | KeyOther u16

datatype svc_value = ValEchConfigList bytes | ValOther bytes

record 'n svcb =
  svc_priority :: u16
  svc_target :: 'n
  svc_params :: "(svc_key \<times> svc_value) list"

datatype 'n rdata =
    DA ipv4
  | DAAAA ipv6
  | DCNAME 'n
  | DPTR 'n
  | DHTTPS "'n svcb"
  | DSVCB "'n svcb"
  | DOther rtype bytes

fun record_type :: "'n rdata \<Rightarrow> rtype" where
  "record_type (DA _) = rt_A"
| "record_type (DAAAA _) = rt_AAAA"
| "record_type (DCNAME _) = rt_CNAME"
| "record_type (DPTR _) = rt_PTR"
| "record_type (DHTTPS _) = rt_HTTPS"
| "record_type (DSVCB _) = rt_SVCB"
| "record_type (DOther t _) = t"

record 'n rr =
  rr_name :: 'n
  rr_class :: u16
  rr_ttl :: u32
  rr_data :: "'n rdata"

definition from_rdata :: "'n \<Rightarrow> u32 \<Rightarrow> 'n rdata \<Rightarrow> 'n rr" where
  "from_rdata n ttl data = \<lparr>rr_name = n, rr_class = class_IN, rr_ttl = ttl, rr_data = data\<rparr>"

record 'n query =
  q_name :: 'n
  q_type :: rtype
  q_class :: u16

definition query_of :: "'n \<Rightarrow> rtype \<Rightarrow> 'n query" where
  "query_of n t = \<lparr>q_name = n, q_type = t, q_class = class_IN\<rparr>"

datatype message_type = MQuery | MResponse

datatype op_code = OpQuery | OpOther u8

datatype response_code = NoError | FormErr | ServFail | NXDomain | NotImp | Refused | RcOther u16

record metadata =
  msg_id :: u16
  message_type :: message_type
  op_code :: op_code
  authoritative :: bool
  truncation :: bool
  recursion_desired :: bool
  recursion_available :: bool
  response_code :: response_code

record edns =
  max_payload :: u16

record 'n message =
  meta :: metadata
  queries :: "'n query list"
  answers :: "'n rr list"
  authorities :: "'n rr list"
  additionals :: "'n rr list"
  signature :: "bytes option"
  edns :: "edns option"

text \<open>\<open>Message::response\<close>: an empty response with every flag clear.\<close>

definition new_message :: "u16 \<Rightarrow> message_type \<Rightarrow> op_code \<Rightarrow> 'n message" where
  "new_message i t op =
     \<lparr>meta = \<lparr>msg_id = i, message_type = t, op_code = op, authoritative = False, truncation = False,
        recursion_desired = False, recursion_available = False, response_code = NoError\<rparr>,
      queries = [], answers = [], authorities = [], additionals = [], signature = None, edns = None\<rparr>"

definition add_answer :: "'n rr \<Rightarrow> 'n message \<Rightarrow> 'n message" where
  "add_answer r m = m\<lparr>answers := answers m @ [r]\<rparr>"

section \<open>Response helpers\<close>

fun svc_params_of :: "'n rdata \<Rightarrow> (svc_key \<times> svc_value) list option" where
  "svc_params_of (DHTTPS s) = Some (svc_params s)"
| "svc_params_of (DSVCB s) = Some (svc_params s)"
| "svc_params_of _ = None"

definition record_has_ech :: "'n rr \<Rightarrow> bool" where
  "record_has_ech r =
     (case svc_params_of (rr_data r) of
        None \<Rightarrow> False
      | Some ps \<Rightarrow> list_ex (\<lambda>(k, _). k = KeyEchConfigList) ps)"

definition our_edns :: "edns option \<Rightarrow> edns option" where
  "our_edns e = (if e \<noteq> None then Some \<lparr>max_payload = 1232\<rparr> else None)"

definition base_response :: "'n message \<Rightarrow> 'n message" where
  "base_response request =
     (let resp = new_message (msg_id (meta request)) MResponse OpQuery in
      resp\<lparr>meta := (meta resp)\<lparr>recursion_desired := recursion_desired (meta request),
                                recursion_available := True\<rparr>,
           queries := queries request,
           edns := our_edns (edns request)\<rparr>)"

definition finish_response :: "'n message \<Rightarrow> 'n message \<Rightarrow> 'n message" where
  "finish_response resp request =
     resp\<lparr>meta := (meta resp)\<lparr>msg_id := msg_id (meta request), message_type := MResponse,
             op_code := OpQuery, recursion_desired := recursion_desired (meta request),
             recursion_available := True, authoritative := False\<rparr>,
          queries := queries request, signature := None, edns := our_edns (edns request)\<rparr>"

definition error_response :: "'n message \<Rightarrow> response_code \<Rightarrow> 'n message" where
  "error_response request c =
     (let resp = base_response request in resp\<lparr>meta := (meta resp)\<lparr>response_code := c\<rparr>\<rparr>)"

definition is_ech_param :: "svc_key \<times> svc_value \<Rightarrow> bool" where
  "is_ech_param p \<longleftrightarrow> fst p = KeyEchConfigList"

fun strip_rdata :: "'n rdata \<Rightarrow> 'n rdata \<times> nat" where
  "strip_rdata (DHTTPS s) =
     (let ps = filter (\<lambda>p. \<not> is_ech_param p) (svc_params s)
      in (DHTTPS (s\<lparr>svc_params := ps\<rparr>), length (svc_params s) - length ps))"
| "strip_rdata (DSVCB s) =
     (let ps = filter (\<lambda>p. \<not> is_ech_param p) (svc_params s)
      in (DSVCB (s\<lparr>svc_params := ps\<rparr>), length (svc_params s) - length ps))"
| "strip_rdata d = (d, 0)"

fun strip_records :: "'n rr list \<Rightarrow> 'n rr list \<times> nat" where
  "strip_records [] = ([], 0)"
| "strip_records (r # rs) =
     (case strip_rdata (rr_data r) of (d, n) \<Rightarrow>
        case strip_records rs of (rs', k) \<Rightarrow> (r\<lparr>rr_data := d\<rparr> # rs', n + k))"

definition strip_ech_params :: "'n message \<Rightarrow> 'n message \<times> nat" where
  "strip_ech_params m =
     (case strip_records (answers m) of (as, n) \<Rightarrow>
        case strip_records (additionals m) of (ad, k) \<Rightarrow>
          (m\<lparr>answers := as, additionals := ad\<rparr>, n + k))"

fun rcode_str :: "response_code \<Rightarrow> string" where
  "rcode_str NoError = ''NOERROR''"
| "rcode_str FormErr = ''FORMERR''"
| "rcode_str ServFail = ''SERVFAIL''"
| "rcode_str NXDomain = ''NXDOMAIN''"
| "rcode_str NotImp = ''NOTIMP''"
| "rcode_str Refused = ''REFUSED''"
| "rcode_str (RcOther _) = ''OTHER''"

text \<open>\<open>rt_show\<close> is the crate's display of a record type.\<close>

definition summarize_record :: "'n name_ops \<Rightarrow> (rtype \<Rightarrow> string) \<Rightarrow> 'n rr \<Rightarrow> string" where
  "summarize_record N rt_show r =
     (case rr_data r of
        DA a \<Rightarrow> show_ipv4 a
      | DAAAA a \<Rightarrow> show_ipv6 a
      | DCNAME c \<Rightarrow> ''CNAME '' @ show_name N c
      | DPTR p \<Rightarrow> to_utf8 N p
      | DHTTPS _ \<Rightarrow> ''HTTPS'' @ (if record_has_ech r then '' +ech'' else [])
      | d \<Rightarrow> rt_show (record_type d))"

definition summarize_answers :: "'n name_ops \<Rightarrow> (rtype \<Rightarrow> string) \<Rightarrow> 'n message \<Rightarrow> string" where
  "summarize_answers N rt_show resp =
     (let parts = map (summarize_record N rt_show) (take 3 (answers resp));
          extra = length (answers resp) - 3
      in join '', '' (if extra > 0 then parts @ [''+'' @ show_nat extra @ '' more''] else parts))"

text \<open>\<open>dns/upstream.rs\<close>: does the answer carry an ECH configuration.\<close>

definition answer_has_ech :: "'n message \<Rightarrow> bool" where
  "answer_has_ech resp = list_ex record_has_ech (answers resp @ additionals resp)"

section \<open>Stripping\<close>

definition ech_count :: "'n rr \<Rightarrow> nat" where
  "ech_count r =
     (case svc_params_of (rr_data r) of None \<Rightarrow> 0 | Some ps \<Rightarrow> length (filter is_ech_param ps))"

lemma length_filter_neg: "length xs - length (filter (\<lambda>x. \<not> P x) xs) = length (filter P xs)"
  by (metis add_diff_cancel_right' sum_length_filter_compl)

lemma strip_rdata_params:
  "svc_params_of (fst (strip_rdata d)) = map_option (filter (\<lambda>p. \<not> is_ech_param p)) (svc_params_of d)"
  by (cases d) (simp_all add: Let_def)

lemma strip_rdata_count:
  "snd (strip_rdata d) = (case svc_params_of d of None \<Rightarrow> 0 | Some ps \<Rightarrow> length (filter is_ech_param ps))"
  by (cases d) (simp_all add: Let_def length_filter_neg)

lemma strip_records_count: "snd (strip_records rs) = sum_list (map ech_count rs)"
  by (induction rs) (simp_all add: ech_count_def strip_rdata_count split: prod.splits, metis snd_conv strip_rdata_count)

lemma strip_records_map: "fst (strip_records rs) = map (\<lambda>r. r\<lparr>rr_data := fst (strip_rdata (rr_data r))\<rparr>) rs"
  by (induction rs) (auto split: prod.splits)

lemma strip_record_clean: "\<not> record_has_ech (r\<lparr>rr_data := fst (strip_rdata (rr_data r))\<rparr>)"
  by (auto simp: record_has_ech_def strip_rdata_params list_ex_iff is_ech_param_def split: option.splits)

end
