(* ===== verification/Dns_Cache.thy ===== *)
theory Dns_Cache
  imports Lru Dns_Message
begin

text \<open>
  \<open>dns/cache.rs\<close>: the response cache. The LRU map is a parameter with the contract of the locale
  \<open>lru_cache\<close>; the clock readings of an operation are its arguments.
\<close>

section \<open>Model\<close>

record cache_key =
  ck_name :: string
  ck_qtype :: u16
  ck_qclass :: u16

definition key_of :: "'n name_ops \<Rightarrow> 'n query \<Rightarrow> cache_key" where
  "key_of N q = \<lparr>ck_name = to_ascii_lowercase (to_ascii N (q_name q)), ck_qtype = q_type q, ck_qclass = q_class q\<rparr>"

record 'n cache_entry =
  response :: "'n message"
  stored :: instant
  expires :: instant

definition EMPTY_RESPONSE_TTL :: duration where
  "EMPTY_RESPONSE_TTL = from_secs 30"

record 'c dns_cache =
  c_entries :: "'c option"
  min_ttl :: u32
  max_ttl :: u32
  hits :: u64
  misses :: u64

type_synonym ('c, 'n) cache_lru = "('c, cache_key, 'n cache_entry) lru_ops"

definition map_records :: "('n rr \<Rightarrow> 'n rr) \<Rightarrow> 'n message \<Rightarrow> 'n message" where
  "map_records f m =
     m\<lparr>answers := map f (answers m), authorities := map f (authorities m),
       additionals := map f (additionals m)\<rparr>"

definition all_records :: "'n message \<Rightarrow> 'n rr list" where
  "all_records m = answers m @ authorities m @ additionals m"

definition cache_new :: "('c, 'n) cache_lru \<Rightarrow> nat \<Rightarrow> u32 \<Rightarrow> u32 \<Rightarrow> 'c dns_cache" where
  "cache_new L capacity mn mx =
     \<lparr>c_entries = (if capacity = 0 then None else Some (lru_new L capacity)),
      min_ttl = mn, max_ttl = mx, hits = 0, misses = 0\<rparr>"

definition cache_set_config :: "('c, 'n) cache_lru \<Rightarrow> nat \<Rightarrow> u32 \<Rightarrow> u32 \<Rightarrow> 'c dns_cache \<Rightarrow> 'c dns_cache" where
  "cache_set_config L capacity mn mx c =
     c\<lparr>min_ttl := mn, max_ttl := mx,
       c_entries := (if capacity = 0 then None
                     else case c_entries c of
                       Some lru \<Rightarrow> Some (lru_resize L capacity lru)
                     | None \<Rightarrow> Some (lru_new L capacity))\<rparr>"

definition age_record :: "u32 \<Rightarrow> 'n rr \<Rightarrow> 'n rr" where
  "age_record age r = r\<lparr>rr_ttl := max (saturating_sub (rr_ttl r) age) 1\<rparr>"

text \<open>\<open>now\<close> is the reading the expiry is compared with, \<open>later\<close> the one the age is taken from.
  The age in seconds is cut to 32 bits.\<close>

definition served :: "instant \<Rightarrow> 'n cache_entry \<Rightarrow> 'n message" where
  "served later e = map_records (age_record (of_nat (as_secs (elapsed later (stored e))))) (response e)"

definition cache_get ::
  "('c, 'n) cache_lru \<Rightarrow> instant \<Rightarrow> instant \<Rightarrow> cache_key \<Rightarrow> 'c dns_cache \<Rightarrow> 'n message option \<times> 'c dns_cache" where
  "cache_get L now later k c =
     (let (hit, entries') =
        (case c_entries c of
           None \<Rightarrow> (None, None)
         | Some lru \<Rightarrow>
             (case lru_get L k lru of
                (Some e, lru') \<Rightarrow>
                  if now < expires e then (Some (served later e), Some lru')
                  else (None, Some (lru_pop L k lru'))
              | (None, lru') \<Rightarrow> (None, Some lru')))
      in (hit, if hit = None then c\<lparr>c_entries := entries', misses := misses c + 1\<rparr>
               else c\<lparr>c_entries := entries', hits := hits c + 1\<rparr>))"

definition cacheable :: "'n message \<Rightarrow> bool" where
  "cacheable m \<longleftrightarrow> \<not> (truncation (meta m) \<or>
     \<not> (response_code (meta m) = NoError \<or> response_code (meta m) = NXDomain))"

definition clamp_ttl :: "u32 \<Rightarrow> u32 \<Rightarrow> u32 \<Rightarrow> u32" where
  "clamp_ttl mn mx ttl =
     (let t = (if mn > 0 then max ttl mn else ttl) in if mx > 0 then min t mx else t)"

definition clamp_record :: "u32 \<Rightarrow> u32 \<Rightarrow> 'n rr \<Rightarrow> 'n rr" where
  "clamp_record mn mx r = r\<lparr>rr_ttl := clamp_ttl mn mx (rr_ttl r)\<rparr>"

text \<open>\<open>shortest\<close>, accumulated over the records.\<close>

definition shortest_ttl :: "'n message \<Rightarrow> u32 option" where
  "shortest_ttl m =
     fold (\<lambda>r s. Some (case s of None \<Rightarrow> rr_ttl r | Some t \<Rightarrow> min t (rr_ttl r))) (all_records m) None"

definition lifetime :: "'n message \<Rightarrow> duration" where
  "lifetime m = (case shortest_ttl m of Some ttl \<Rightarrow> from_secs (unat ttl) | None \<Rightarrow> EMPTY_RESPONSE_TTL)"

definition cache_put :: "('c, 'n) cache_lru \<Rightarrow> instant \<Rightarrow> cache_key \<Rightarrow> 'n message \<Rightarrow> 'c dns_cache \<Rightarrow> 'c dns_cache" where
  "cache_put L now k resp c =
     (if \<not> cacheable resp then c
      else let m = map_records (clamp_record (min_ttl c) (max_ttl c)) resp
           in case c_entries c of
                None \<Rightarrow> c
              | Some lru \<Rightarrow>
                  c\<lparr>c_entries := Some (lru_put L k \<lparr>response = m, stored = now, expires = now + lifetime m\<rparr> lru)\<rparr>)"

definition cache_clear :: "('c, 'n) cache_lru \<Rightarrow> 'c dns_cache \<Rightarrow> nat \<times> 'c dns_cache" where
  "cache_clear L c =
     (case c_entries c of
        None \<Rightarrow> (0, c)
      | Some lru \<Rightarrow> (lru_len L lru, c\<lparr>c_entries := Some (lru_clear L lru)\<rparr>))"

definition cache_len :: "('c, 'n) cache_lru \<Rightarrow> 'c dns_cache \<Rightarrow> nat" where
  "cache_len L c = (case c_entries c of None \<Rightarrow> 0 | Some lru \<Rightarrow> lru_len L lru)"

definition cache_capacity :: "('c, 'n) cache_lru \<Rightarrow> 'c dns_cache \<Rightarrow> nat" where
  "cache_capacity L c = (case c_entries c of None \<Rightarrow> 0 | Some lru \<Rightarrow> lru_cap L lru)"

record cache_status =
  cs_entries :: nat
  cs_capacity :: nat
  cs_min_ttl :: u32
  cs_max_ttl :: u32
  cs_hits :: u64
  cs_misses :: u64

definition cache_status :: "('c, 'n) cache_lru \<Rightarrow> 'c dns_cache \<Rightarrow> cache_status" where
  "cache_status L c =
     \<lparr>cs_entries = cache_len L c, cs_capacity = cache_capacity L c, cs_min_ttl = min_ttl c,
      cs_max_ttl = max_ttl c, cs_hits = hits c, cs_misses = misses c\<rparr>"

section \<open>Steps\<close>

datatype 'n cache_op =
    OpGet instant instant cache_key
  | OpPut instant cache_key "'n message"
  | OpSetConfig nat u32 u32
  | OpClear

fun cache_step :: "('c, 'n) cache_lru \<Rightarrow> 'n cache_op \<Rightarrow> 'c dns_cache \<Rightarrow> 'c dns_cache" where
  "cache_step L (OpGet now later k) c = snd (cache_get L now later k c)"
| "cache_step L (OpPut now k m) c = cache_put L now k m c"
| "cache_step L (OpSetConfig cap mn mx) c = cache_set_config L cap mn mx c"
| "cache_step L OpClear c = snd (cache_clear L c)"

text \<open>The state after a list of operations on a new cache.\<close>

definition cache_run :: "('c, 'n) cache_lru \<Rightarrow> nat \<Rightarrow> u32 \<Rightarrow> u32 \<Rightarrow> 'n cache_op list \<Rightarrow> 'c dns_cache" where
  "cache_run L cap mn mx ops = fold (cache_step L) ops (cache_new L cap mn mx)"

section \<open>The abstract cache\<close>

text \<open>What the cache promises: an unbounded map from keys to the entry last stored. Eviction may
  only lose entries of it.\<close>

record 'n cache_spec =
  sp_on :: bool
  sp_min :: u32
  sp_max :: u32
  sp_map :: "cache_key \<Rightarrow> 'n cache_entry option"

definition spec_new :: "nat \<Rightarrow> u32 \<Rightarrow> u32 \<Rightarrow> 'n cache_spec" where
  "spec_new cap mn mx = \<lparr>sp_on = (cap \<noteq> 0), sp_min = mn, sp_max = mx, sp_map = Map.empty\<rparr>"

fun spec_step :: "'n cache_op \<Rightarrow> 'n cache_spec \<Rightarrow> 'n cache_spec" where
  "spec_step (OpGet now later k) s = s"
| "spec_step (OpPut now k m) s =
     (if cacheable m \<and> sp_on s
      then let m' = map_records (clamp_record (sp_min s) (sp_max s)) m
           in s\<lparr>sp_map := (sp_map s)(k \<mapsto> \<lparr>response = m', stored = now, expires = now + lifetime m'\<rparr>)\<rparr>
      else s)"
| "spec_step (OpSetConfig cap mn mx) s =
     s\<lparr>sp_on := (cap \<noteq> 0), sp_min := mn, sp_max := mx,
       sp_map := (if cap = 0 then Map.empty else sp_map s)\<rparr>"
| "spec_step OpClear s = s\<lparr>sp_map := Map.empty\<rparr>"

definition spec_run :: "nat \<Rightarrow> u32 \<Rightarrow> u32 \<Rightarrow> 'n cache_op list \<Rightarrow> 'n cache_spec" where
  "spec_run cap mn mx ops = fold spec_step ops (spec_new cap mn mx)"

definition cache_abs ::
  "('c, 'n) cache_lru \<Rightarrow> ('c \<Rightarrow> (cache_key \<times> 'n cache_entry) list) \<Rightarrow> 'c dns_cache \<Rightarrow> 'n cache_spec \<Rightarrow> bool" where
  "cache_abs L content c s \<longleftrightarrow> min_ttl c = sp_min s \<and> max_ttl c = sp_max s \<and>
     (case c_entries c of
        None \<Rightarrow> \<not> sp_on s
      | Some lru \<Rightarrow> sp_on s \<and> lru_inv L content lru \<and> map_of (content lru) \<subseteq>\<^sub>m sp_map s)"

text \<open>Every entry of the abstract cache expires with its shortest TTL and was cacheable.\<close>

definition spec_ok :: "'n cache_spec \<Rightarrow> bool" where
  "spec_ok s \<longleftrightarrow> (\<forall>k e. sp_map s k = Some e \<longrightarrow>
     expires e = stored e + lifetime (response e) \<and> cacheable (response e))"

section \<open>TTL arithmetic\<close>

lemma all_records_map [simp]: "all_records (map_records f m) = map f (all_records m)"
  by (simp add: all_records_def map_records_def)

lemma meta_map_records [simp]: "meta (map_records f m) = meta m"
  by (simp add: map_records_def)

lemma age_record_ttl: "1 \<le> rr_ttl (age_record a r)"
  by (simp add: age_record_def)

lemma clamp_ttl_max: "0 < mx \<Longrightarrow> clamp_ttl mn mx t \<le> mx"
  by (simp add: clamp_ttl_def Let_def)

lemma clamp_ttl_min: "0 < mn \<Longrightarrow> mx = 0 \<or> mn \<le> mx \<Longrightarrow> mn \<le> clamp_ttl mn mx t"
  by (auto simp: clamp_ttl_def Let_def)

lemma clamp_ttl_none: "clamp_ttl 0 0 t = t"
  by (simp add: clamp_ttl_def)

lemma fold_min_Some:
  "fold (\<lambda>r s. Some (case s of None \<Rightarrow> f r | Some t \<Rightarrow> min t (f r))) rs (Some a)
   = Some (Min (insert (a :: u32) (f ` set rs)))"
proof (induction rs arbitrary: a)
  case (Cons r rs)
  have "Min (insert (min a (f r)) (f ` set rs)) = Min (insert a (insert (f r) (f ` set rs)))"
    by (cases "set rs = {}") (simp_all add: min.assoc min.left_commute)
  with Cons show ?case by simp
qed simp

lemma shortest_ttl_Min:
  "shortest_ttl m = (if all_records m = [] then None else Some (Min (rr_ttl ` set (all_records m))))"
  by (cases "all_records m") (simp_all add: shortest_ttl_def fold_min_Some)

text \<open>No record outlives the lifetime of its entry.\<close>

lemma lifetime_le: "r \<in> set (all_records m) \<Longrightarrow> lifetime m \<le> from_secs (unat (rr_ttl r))"
proof -
  assume r: "r \<in> set (all_records m)"
  then have "Min (rr_ttl ` set (all_records m)) \<le> rr_ttl r" by simp
  then have "unat (Min (rr_ttl ` set (all_records m))) \<le> unat (rr_ttl r)" by (simp add: word_le_nat_alt)
  with r show ?thesis by (auto simp: lifetime_def shortest_ttl_Min from_secs_def)
qed

section \<open>Refinement\<close>

lemma cacheable_map_records [simp]: "cacheable (map_records f m) = cacheable m"
  by (simp add: cacheable_def)

lemma spec_step_ok [inv_pres]: "spec_ok s \<Longrightarrow> spec_ok (spec_step op s)"
  by (cases op) (auto simp: spec_ok_def Let_def split: if_splits)

lemma spec_run_ok: "spec_ok (spec_run cap mn mx ops)"
proof -
  have "spec_ok (fold spec_step ops s)" if "spec_ok s" for s :: "'a cache_spec"
    using that by (induction ops arbitrary: s) (simp_all add: spec_step_ok)
  moreover have "spec_ok (spec_new cap mn mx :: 'a cache_spec)" by (simp add: spec_ok_def spec_new_def)
  ultimately show ?thesis unfolding spec_run_def by blast
qed

lemma map_of_take_le: "map_of (take n xs) \<subseteq>\<^sub>m map_of xs"
proof (unfold map_le_def, intro ballI)
  fix a assume "a \<in> dom (map_of (take n xs))"
  then obtain b where "map_of (take n xs) a = Some b" by blast
  then show "map_of (take n xs) a = map_of xs a" using map_of_take_Some by metis
qed

lemma map_of_without_le: "map_of (without k xs) \<subseteq>\<^sub>m map_of xs"
  by (auto simp: map_le_def map_of_without)

lemma map_of_put_le:
  assumes "map_of xs \<subseteq>\<^sub>m f"
  shows "map_of (take n ((k, v) # without k xs)) \<subseteq>\<^sub>m f(k \<mapsto> v)"
proof -
  have "map_of ((k, v) # without k xs) \<subseteq>\<^sub>m f(k \<mapsto> v)"
    using assms by (auto simp: map_le_def map_of_without split: if_splits)
  with map_of_take_le show ?thesis by (rule map_le_trans)
qed

locale dns_lru = lru_cache L content
  for L :: "('c, 'n) cache_lru" and content :: "'c \<Rightarrow> (cache_key \<times> 'n cache_entry) list"
begin

lemma abs_new: "cache_abs L content (cache_new L cap mn mx) (spec_new cap mn mx)"
  by (simp add: cache_abs_def cache_new_def spec_new_def inv_new new_content)

lemma abs_get:
  assumes "cache_abs L content c s"
  shows "cache_abs L content (snd (cache_get L now later k c)) s"
proof (cases "c_entries c")
  case None
  with assms show ?thesis by (simp add: cache_abs_def cache_get_def)
next
  case (Some lru)
  obtain v lru' where g: "lru_get L k lru = (v, lru')" by (cases "lru_get L k lru")
  have i: "lru_inv L content lru'" and c: "content lru' = promote k (content lru)"
    using assms Some inv_get [of lru k] get_content [of k lru] by (simp_all add: g cache_abs_def)
  have le: "map_of (content lru') \<subseteq>\<^sub>m sp_map s"
    using assms Some by (simp add: cache_abs_def c map_le_def map_of_promote dom_def)
  have "map_of (content (lru_pop L k lru')) \<subseteq>\<^sub>m sp_map s"
    using map_le_trans [OF map_of_without_le le] by (simp add: pop_content)
  with assms Some g i le show ?thesis
    by (auto simp: cache_abs_def cache_get_def inv_pop split: option.splits)
qed

lemma abs_put:
  assumes "cache_abs L content c s"
  shows "cache_abs L content (cache_put L now k m c) (spec_step (OpPut now k m) s)"
  using assms
  by (auto simp: cache_abs_def cache_put_def Let_def inv_put put_content map_of_put_le
      simp del: map_of.simps take_Cons' split: option.splits)

lemma abs_set_config:
  assumes "cache_abs L content c s"
  shows "cache_abs L content (cache_set_config L cap mn mx c) (spec_step (OpSetConfig cap mn mx) s)"
  using assms
  by (auto simp: cache_abs_def cache_set_config_def inv_new inv_resize new_content resize_content
      intro: map_le_trans [OF map_of_take_le] split: option.splits)

lemma abs_clear:
  assumes "cache_abs L content c s"
  shows "cache_abs L content (snd (cache_clear L c)) (spec_step OpClear s)"
  using assms
  by (auto simp: cache_abs_def cache_clear_def inv_clear clear_content split: option.splits)

lemma abs_step: "cache_abs L content c s \<Longrightarrow> cache_abs L content (cache_step L op c) (spec_step op s)"
  by (cases op) (use abs_get abs_put abs_set_config abs_clear in \<open>simp_all del: spec_step.simps(2-4)\<close>)

theorem abs_run: "cache_abs L content (cache_run L cap mn mx ops) (spec_run cap mn mx ops)"
proof -
  have "cache_abs L content (fold (cache_step L) ops c) (fold spec_step ops s)"
    if "cache_abs L content c s" for c s
    using that by (induction ops arbitrary: c s) (simp_all add: abs_step)
  with abs_new show ?thesis unfolding cache_run_def spec_run_def by blast
qed

text \<open>A hit is the abstract entry of the key, not yet expired, with its TTLs aged.\<close>

theorem hit_abs:
  assumes "cache_abs L content c s" "cache_get L now later k c = (Some m, c')"
  shows "\<exists>e. sp_map s k = Some e \<and> now < expires e \<and> m = served later e"
proof -
  obtain lru where l: "c_entries c = Some lru"
    using assms(2) by (cases "c_entries c") (auto simp: cache_get_def)
  obtain e where e: "fst (lru_get L k lru) = Some e" "now < expires e" "m = served later e"
    using assms(2) l by (auto simp: cache_get_def Let_def split: prod.splits option.splits if_splits)
  have "sp_map s k = Some e"
    using assms(1) l e(1) by (auto simp: cache_abs_def get_value map_le_def dom_def)
  with e show ?thesis by blast
qed

text \<open>What was just stored is served until it expires.\<close>

theorem get_after_put:
  assumes "cache_abs L content c s" "c_entries c \<noteq> None" "cacheable m"
    and "m' = map_records (clamp_record (min_ttl c) (max_ttl c)) m" "now < t + lifetime m'"
  shows "fst (cache_get L now later k (cache_put L t k m c))
    = Some (served later \<lparr>response = m', stored = t, expires = t + lifetime m'\<rparr>)"
proof -
  obtain lru where l: "c_entries c = Some lru" using assms(2) by auto
  let ?e = "\<lparr>response = m', stored = t, expires = t + lifetime m'\<rparr>"
  have "0 < lru_cap L lru" using assms(1) l by (simp add: cache_abs_def lru_inv_def)
  then have g: "fst (lru_get L k (lru_put L k ?e lru)) = Some ?e" by (rule get_put_same)
  show ?thesis
    using l assms(3-5) g
    by (cases "lru_get L k (lru_put L k ?e lru)") (simp add: cache_put_def cache_get_def Let_def)
qed

theorem size_bound: "cache_abs L content c s \<Longrightarrow> cache_len L c \<le> cache_capacity L c"
  by (auto simp: cache_abs_def cache_len_def cache_capacity_def lru_inv_def len_content split: option.splits)

end

interpretation recency_dns: dns_lru list_lru snd
  by unfold_locales

section \<open>Properties\<close>

text \<open>Where the entries of the abstract cache come from.\<close>

definition put_entry :: "u32 \<Rightarrow> u32 \<Rightarrow> instant \<Rightarrow> 'n message \<Rightarrow> 'n cache_entry" where
  "put_entry mn mx t m =
     \<lparr>response = map_records (clamp_record mn mx) m, stored = t,
      expires = t + lifetime (map_records (clamp_record mn mx) m)\<rparr>"

lemma spec_step_entry:
  assumes "sp_map (spec_step op s) k = Some e"
  shows "sp_map s k = Some e \<or> (\<exists>t m. op = OpPut t k m \<and> cacheable m \<and> e = put_entry (sp_min s) (sp_max s) t m)"
proof (cases op)
  case (OpPut t j m)
  show ?thesis
  proof (cases "cacheable m \<and> sp_on s \<and> j = k")
    case True
    with assms OpPut show ?thesis by (simp add: Let_def put_entry_def)
  next
    case False
    with assms OpPut have "sp_map s k = Some e" by (simp add: Let_def split: if_splits)
    then show ?thesis ..
  qed
qed (use assms in \<open>simp_all split: if_splits\<close>)

lemma spec_run_put:
  assumes "sp_map (spec_run cap mn mx ops) k = Some e"
  shows "\<exists>t m mn' mx'. OpPut t k m \<in> set ops \<and> cacheable m \<and> e = put_entry mn' mx' t m"
  using assms
proof (induction ops rule: rev_induct)
  case Nil
  then show ?case by (simp add: spec_run_def spec_new_def)
next
  case (snoc op ops)
  have "sp_map (spec_step op (spec_run cap mn mx ops)) k = Some e"
    using snoc.prems by (simp add: spec_run_def)
  from spec_step_entry [OF this] show ?case
  proof
    assume "sp_map (spec_run cap mn mx ops) k = Some e"
    with snoc.IH show ?thesis by (metis Un_iff set_append)
  next
    assume "\<exists>t m. op = OpPut t k m \<and> cacheable m \<and>
      e = put_entry (sp_min (spec_run cap mn mx ops)) (sp_max (spec_run cap mn mx ops)) t m"
    then show ?thesis by (metis in_set_conv_decomp)
  qed
qed

abbreviation sample_key :: cache_key where
  "sample_key \<equiv> \<lparr>ck_name = ''a.test.'', ck_qtype = 1, ck_qclass = 1\<rparr>"

abbreviation sample_reply :: "string message" where
  "sample_reply \<equiv> (new_message 7 MResponse OpQuery)
     \<lparr>answers := [\<lparr>rr_name = ''a.test.'', rr_class = 1, rr_ttl = 60, rr_data = DA (Ipv4 10 0 0 9)\<rparr>]\<rparr>"

text \<open>C4: over every sequence of lookups, stores, reconfigurations and flushes, with any LRU map that
  keeps the crate's contract, the cache refines the unbounded map from keys to the entry last
  stored: it holds entries of that map only, and never more than its capacity.\<close>

theorem cache_refines_map:
  assumes "lru_cache L content"
  shows "cache_abs L content (cache_run L cap mn mx ops) (spec_run cap mn mx ops) \<and>
    cache_len L (cache_run L cap mn mx ops) \<le> cache_capacity L (cache_run L cap mn mx ops)"
proof -
  have l: "dns_lru L content" using assms by (rule dns_lru.intro)
  show ?thesis using dns_lru.abs_run [OF l] dns_lru.size_bound [OF l] by blast
qed

theorem cache_refines_map_witness:
  "cache_len list_lru (cache_run list_lru 2 0 0 [OpPut 5 sample_key sample_reply]) = 1 \<and>
   cache_abs list_lru snd (cache_run list_lru 2 0 0 [OpPut 5 sample_key sample_reply])
     (spec_run 2 0 0 [OpPut 5 sample_key sample_reply])"
proof
  show "cache_len list_lru (cache_run list_lru 2 0 0 [OpPut 5 sample_key sample_reply]) = 1"
    by (simp add: cache_run_def cache_new_def cache_put_def cache_len_def list_lru_def cacheable_def
        new_message_def without_def Let_def)
  show "cache_abs list_lru snd (cache_run list_lru 2 0 0 [OpPut 5 sample_key sample_reply])
      (spec_run 2 0 0 [OpPut 5 sample_key sample_reply])"
    using cache_refines_map [OF recency.lru_cache_axioms] by blast
qed

text \<open>a hit answers with a response that was stored under the same key and was cacheable, before
  the shortest of its (clamped) TTLs ran out, and every record it serves has a TTL of at least
  one second.\<close>

theorem cache_hit_fresh:
  assumes "lru_cache L content" "fst (cache_get L now later k (cache_run L cap mn mx ops)) = Some m"
  shows "\<exists>t r mn' mx'. OpPut t k r \<in> set ops \<and> cacheable r \<and>
    now < t + lifetime (map_records (clamp_record mn' mx') r) \<and>
    m = map_records (age_record (of_nat (as_secs (elapsed later t)))) (map_records (clamp_record mn' mx') r) \<and>
    (\<forall>x \<in> set (all_records m). 1 \<le> rr_ttl x)"
proof -
  have l: "dns_lru L content" using assms(1) by (rule dns_lru.intro)
  obtain c' where get: "cache_get L now later k (cache_run L cap mn mx ops) = (Some m, c')"
    using assms(2) by (cases "cache_get L now later k (cache_run L cap mn mx ops)") auto
  obtain e where e: "sp_map (spec_run cap mn mx ops) k = Some e" "now < expires e" "m = served later e"
    using dns_lru.hit_abs [OF l dns_lru.abs_run [OF l] get] by blast
  have "\<forall>x \<in> set (all_records m). 1 \<le> rr_ttl x"
    by (auto simp: e(3) served_def age_record_ttl)
  moreover obtain t r mn' mx' where "OpPut t k r \<in> set ops" "cacheable r" "e = put_entry mn' mx' t r"
    using spec_run_put [OF e(1)] by blast
  ultimately show ?thesis
    using e(2,3) by (intro exI [of _ t] exI [of _ r] exI [of _ mn'] exI [of _ mx']) (simp add: served_def put_entry_def)
qed

theorem cache_hit_fresh_witness:
  "\<exists>t r. OpPut t sample_key r \<in> set [OpPut 5 sample_key sample_reply] \<and> cacheable r"
proof -
  have "fst (cache_get list_lru 6 7 sample_key (cache_run list_lru 2 0 0 [OpPut 5 sample_key sample_reply]))
      = Some sample_reply"
    by (simp add: cache_run_def cache_new_def cache_put_def cache_get_def list_lru_def cacheable_def
        new_message_def without_def map_records_def clamp_record_def clamp_ttl_def lifetime_def
        shortest_ttl_def all_records_def from_secs_def nanos_per_sec_def served_def age_record_def
        Let_def elapsed_def as_secs_def saturating_sub_def)
  from cache_hit_fresh [OF recency.lru_cache_axioms this] show ?thesis by blast
qed

text \<open>a cacheable response that has just been stored is served, with its TTLs clamped and aged,
  until it expires.\<close>

theorem cache_get_after_put:
  assumes "lru_cache L content" "c = cache_run L cap mn mx ops" "c_entries c \<noteq> None" "cacheable m"
    and "m' = map_records (clamp_record (min_ttl c) (max_ttl c)) m" "now < t + lifetime m'"
  shows "fst (cache_get L now later k (cache_put L t k m c))
    = Some (map_records (age_record (of_nat (as_secs (elapsed later t)))) m')"
proof -
  have l: "dns_lru L content" using assms(1) by (rule dns_lru.intro)
  show ?thesis
    using dns_lru.get_after_put [OF l, of c "spec_run cap mn mx ops" m m' now t later k]
      dns_lru.abs_run [OF l] assms(2-6)
    by (simp add: served_def)
qed

theorem cache_get_after_put_witness:
  "fst (cache_get list_lru 6 7 sample_key (cache_put list_lru 5 sample_key sample_reply (cache_run list_lru 2 30 0 [])))
    = Some (map_records (age_record 0) (map_records (clamp_record 30 0) sample_reply))"
  using cache_get_after_put [OF recency.lru_cache_axioms refl, of 2 30 0 "[]" sample_reply
      "map_records (clamp_record 30 0) sample_reply" 6 5 7 sample_key]
  by (simp add: cache_run_def cache_new_def cacheable_def new_message_def map_records_def clamp_record_def
      clamp_ttl_def lifetime_def shortest_ttl_def all_records_def from_secs_def nanos_per_sec_def
      Let_def elapsed_def as_secs_def)

text \<open>the TTL bounds of the settings hold for every record stored: a positive upper bound is never
  exceeded, a positive lower bound that does not exceed the upper one is always reached, and with
  both off the TTL is the upstream's.\<close>

theorem clamp_ttl_bounds:
  "(0 < mx \<longrightarrow> clamp_ttl mn mx t \<le> mx) \<and>
   (0 < mn \<longrightarrow> mx = 0 \<or> mn \<le> mx \<longrightarrow> mn \<le> clamp_ttl mn mx t) \<and> clamp_ttl 0 0 t = t"
  using clamp_ttl_max clamp_ttl_min clamp_ttl_none by blast

theorem clamp_ttl_bounds_witness:
  "clamp_ttl 30 300 5 = 30 \<and> clamp_ttl 30 300 900 = 300 \<and> clamp_ttl 30 300 900 \<le> 300"
  using clamp_ttl_bounds [of 300 30 900] by (simp add: clamp_ttl_def)

end
