(* ===== verification/Json.thy ===== *)
theory Json
  imports Persist
begin

text \<open>
  JSON values as \<open>serde_json::Value\<close> and the accessors the command parsers use. The text parser
  is a parameter of the definitions that call it.
\<close>

datatype json =
    JNull
  | JBool bool
  | JPosInt u64
  | JNegInt int
  | JFloat string
  | JString string
  | JArray "json list"
  | JObject "(string \<times> json) list"

text \<open>\<open>Value::get\<close> with a string key: only objects have one. Keys of an object are distinct.\<close>

fun jget :: "string \<Rightarrow> json \<Rightarrow> json option" where
  "jget k (JObject m) = map_of m k"
| "jget k _ = None"

fun as_str :: "json \<Rightarrow> string option" where
  "as_str (JString s) = Some s"
| "as_str _ = None"

fun as_bool :: "json \<Rightarrow> bool option" where
  "as_bool (JBool b) = Some b"
| "as_bool _ = None"

fun as_u64 :: "json \<Rightarrow> u64 option" where
  "as_u64 (JPosInt n) = Some n"
| "as_u64 _ = None"

fun as_array :: "json \<Rightarrow> json list option" where
  "as_array (JArray a) = Some a"
| "as_array _ = None"

fun is_object :: "json \<Rightarrow> bool" where
  "is_object (JObject _) = True"
| "is_object _ = False"

definition get_str :: "string \<Rightarrow> json \<Rightarrow> string option" where
  "get_str k v = Option.bind (jget k v) as_str"

definition get_bool :: "string \<Rightarrow> json \<Rightarrow> bool option" where
  "get_bool k v = Option.bind (jget k v) as_bool"

definition get_u64 :: "string \<Rightarrow> json \<Rightarrow> u64 option" where
  "get_u64 k v = Option.bind (jget k v) as_u64"

text \<open>A list of the trimmed, non-empty strings of an array; other elements are skipped.\<close>

definition str_list :: "string \<Rightarrow> json \<Rightarrow> string list option" where
  "str_list k v =
     map_option (\<lambda>a. filter (\<lambda>s. s \<noteq> []) (map trim (List.map_filter as_str a)))
       (Option.bind (jget k v) as_array)"

lemma str_list_trimmed: "str_list k v = Some xs \<Longrightarrow> list_all (\<lambda>s. s \<noteq> [] \<and> trimmed s) xs"
  by (auto simp: str_list_def list_all_iff)

end
