(* ===== verification/Dns_Settings.thy ===== *)
theory Dns_Settings
  imports Json Dns_Rewrites
begin

text \<open>
  \<open>dns/config.rs\<close>, \<open>dns/settings.rs\<close> and \<open>dns/commands.rs\<close>: the configuration, the settings that
  can be changed at run time as overrides over it, and the admin commands that change them.
\<close>

section \<open>Configuration\<close>

datatype blocking_mode = NullIp | Nxdomain | BmRefused

datatype upstream_mode = Failover | LoadBalance | Parallel

fun mode_str :: "upstream_mode \<Rightarrow> string" where
  "mode_str Failover = ''failover''"
| "mode_str LoadBalance = ''load-balance''"
| "mode_str Parallel = ''parallel''"

record dns_config =
  cf_enabled :: bool
  cf_listen :: string
  cf_upstreams :: "string list"
  cf_upstream_mode :: upstream_mode
  cf_bootstrap :: "string list"
  cf_cache_size :: nat
  cf_min_ttl :: u32
  cf_max_ttl :: u32
  cf_blocking_mode :: blocking_mode
  cf_blocked_ttl :: u32
  cf_strip_ech :: bool
  cf_probe_domain :: string
  cf_probe_mins :: u32
  cf_log_ipv6 :: bool
  cf_timeout_ms :: u64
  cf_data_dir :: string

definition default_dns_config :: dns_config where
  "default_dns_config =
     \<lparr>cf_enabled = True, cf_listen = ''0.0.0.0:53'', cf_upstreams = [], cf_upstream_mode = Failover,
      cf_bootstrap = [''1.1.1.1'', ''8.8.8.8''], cf_cache_size = 4096, cf_min_ttl = 0, cf_max_ttl = 0,
      cf_blocking_mode = NullIp, cf_blocked_ttl = 10, cf_strip_ech = False,
      cf_probe_domain = ''crypto.cloudflare.com'', cf_probe_mins = 60, cf_log_ipv6 = False,
      cf_timeout_ms = 5000, cf_data_dir = ''data''\<rparr>"

datatype dns_config_error = InvalidListen string

definition validate_config :: "dns_config \<Rightarrow> dns_config_error + unit" where
  "validate_config c =
     (if cf_enabled c \<and> parse_socket_addr (cf_listen c) = None
      then Inl (InvalidListen (cf_listen c)) else Inr ())"

definition load_config :: "string \<Rightarrow> dns_config_error + dns_config" where
  "load_config data_dir =
     (let cfg = default_dns_config\<lparr>cf_data_dir := data_dir\<rparr>
      in and_then (validate_config cfg) (\<lambda>_. Inr cfg))"

section \<open>Settings and overrides\<close>

record dns_overrides =
  ov_upstreams :: "string list option"
  ov_upstream_mode :: "upstream_mode option"
  ov_bootstrap :: "string list option"
  ov_cache_size :: "nat option"
  ov_min_ttl :: "u32 option"
  ov_max_ttl :: "u32 option"
  ov_probe_domain :: "string option"
  ov_probe_mins :: "u32 option"
  ov_strip_ech :: "bool option"
  ov_log_ipv6 :: "bool option"

definition no_overrides :: dns_overrides where
  "no_overrides =
     \<lparr>ov_upstreams = None, ov_upstream_mode = None, ov_bootstrap = None, ov_cache_size = None,
      ov_min_ttl = None, ov_max_ttl = None, ov_probe_domain = None, ov_probe_mins = None,
      ov_strip_ech = None, ov_log_ipv6 = None\<rparr>"

record effective =
  ef_upstreams :: "string list"
  ef_upstream_mode :: upstream_mode
  ef_bootstrap :: "string list"
  ef_cache_size :: nat
  ef_min_ttl :: u32
  ef_max_ttl :: u32
  ef_probe_domain :: string
  ef_probe_mins :: u32
  ef_strip_ech :: bool
  ef_log_ipv6 :: bool

text \<open>\<open>merged_with\<close>: the update wins field by field.\<close>

definition merged_with :: "dns_overrides \<Rightarrow> dns_overrides \<Rightarrow> dns_overrides" where
  "merged_with self upd =
     \<lparr>ov_upstreams = or_else (ov_upstreams upd) (ov_upstreams self),
      ov_upstream_mode = or_else (ov_upstream_mode upd) (ov_upstream_mode self),
      ov_bootstrap = or_else (ov_bootstrap upd) (ov_bootstrap self),
      ov_cache_size = or_else (ov_cache_size upd) (ov_cache_size self),
      ov_min_ttl = or_else (ov_min_ttl upd) (ov_min_ttl self),
      ov_max_ttl = or_else (ov_max_ttl upd) (ov_max_ttl self),
      ov_probe_domain = or_else (ov_probe_domain upd) (ov_probe_domain self),
      ov_probe_mins = or_else (ov_probe_mins upd) (ov_probe_mins self),
      ov_strip_ech = or_else (ov_strip_ech upd) (ov_strip_ech self),
      ov_log_ipv6 = or_else (ov_log_ipv6 upd) (ov_log_ipv6 self)\<rparr>"

definition from_effective :: "effective \<Rightarrow> dns_overrides" where
  "from_effective e =
     \<lparr>ov_upstreams = Some (ef_upstreams e), ov_upstream_mode = Some (ef_upstream_mode e),
      ov_bootstrap = Some (ef_bootstrap e), ov_cache_size = Some (ef_cache_size e),
      ov_min_ttl = Some (ef_min_ttl e), ov_max_ttl = Some (ef_max_ttl e),
      ov_probe_domain = Some (ef_probe_domain e), ov_probe_mins = Some (ef_probe_mins e),
      ov_strip_ech = Some (ef_strip_ech e), ov_log_ipv6 = Some (ef_log_ipv6 e)\<rparr>"

definition normalized :: "effective \<Rightarrow> effective" where
  "normalized e =
     e\<lparr>ef_upstreams := map trim (ef_upstreams e), ef_bootstrap := map trim (ef_bootstrap e),
       ef_probe_domain := trim (ef_probe_domain e)\<rparr>"

definition from_config :: "dns_config \<Rightarrow> effective" where
  "from_config c = normalized
     \<lparr>ef_upstreams = cf_upstreams c, ef_upstream_mode = cf_upstream_mode c,
      ef_bootstrap = cf_bootstrap c, ef_cache_size = cf_cache_size c, ef_min_ttl = cf_min_ttl c,
      ef_max_ttl = cf_max_ttl c, ef_probe_domain = cf_probe_domain c, ef_probe_mins = cf_probe_mins c,
      ef_strip_ech = cf_strip_ech c, ef_log_ipv6 = cf_log_ipv6 c\<rparr>"

definition with_overrides :: "effective \<Rightarrow> dns_overrides \<Rightarrow> effective" where
  "with_overrides e u = normalized
     \<lparr>ef_upstreams = unwrap_or (ov_upstreams u) (ef_upstreams e),
      ef_upstream_mode = unwrap_or (ov_upstream_mode u) (ef_upstream_mode e),
      ef_bootstrap = unwrap_or (ov_bootstrap u) (ef_bootstrap e),
      ef_cache_size = unwrap_or (ov_cache_size u) (ef_cache_size e),
      ef_min_ttl = unwrap_or (ov_min_ttl u) (ef_min_ttl e),
      ef_max_ttl = unwrap_or (ov_max_ttl u) (ef_max_ttl e),
      ef_probe_domain = unwrap_or (ov_probe_domain u) (ef_probe_domain e),
      ef_probe_mins = unwrap_or (ov_probe_mins u) (ef_probe_mins e),
      ef_strip_ech = unwrap_or (ov_strip_ech u) (ef_strip_ech e),
      ef_log_ipv6 = unwrap_or (ov_log_ipv6 u) (ef_log_ipv6 e)\<rparr>"

datatype settings_error = MinExceedsMax u32 u32

definition validate_settings :: "effective \<Rightarrow> settings_error + unit" where
  "validate_settings e =
     (if ef_min_ttl e > 0 \<and> ef_max_ttl e > 0 \<and> ef_min_ttl e > ef_max_ttl e
      then Inl (MinExceedsMax (ef_min_ttl e) (ef_max_ttl e)) else Inr ())"

section \<open>Commands\<close>

text \<open>\<open>parse_json\<close> is \<open>serde_json::from_slice\<close> (with the text of its error), \<open>mode_of_json\<close> the
  deserializer derived for \<open>UpstreamMode\<close>, \<open>uni\<close> the Unicode case mapping.\<close>

datatype command_error =
    BadJson string
  | ExpectedDomainAnswer
  | ExpectedSpec
  | NameRequired
  | NameHasHash
  | HostRequired
  | UnknownTransport string
  | BadUpstreamMode

definition parse_rewrite_command ::
  "(bytes \<Rightarrow> string + json) \<Rightarrow> bytes \<Rightarrow> command_error + rewrite_command" where
  "parse_rewrite_command parse_json body =
     (case parse_json body of
        Inl e \<Rightarrow> Inl (BadJson e)
      | Inr v \<Rightarrow>
          (case (get_str ''domain'' v, get_str ''answer'' v) of
             (Some dm, Some ans) \<Rightarrow>
               if get_bool ''delete'' v = Some True then Inr (DeleteRewrite dm ans)
               else Inr (case get_bool ''enabled'' v of
                           Some en \<Rightarrow> SetEnabledRewrite dm ans en
                         | None \<Rightarrow> AddRewrite dm ans)
           | _ \<Rightarrow> Inl ExpectedDomainAnswer))"

datatype upstream_command =
    AddUpstream string string string
  | DeleteUpstream string
  | SetEnabledUpstream string bool

definition command_spec :: "json \<Rightarrow> command_error + string" where
  "command_spec v =
     ok_or (filter_opt (\<lambda>s. s \<noteq> []) (map_option trim (get_str ''spec'' v))) ExpectedSpec"

definition command_field :: "string \<Rightarrow> json \<Rightarrow> string" where
  "command_field k v = trim (unwrap_or (get_str k v) [])"

definition transport_of :: "string \<Rightarrow> command_error + string" where
  "transport_of s =
     (if s = ''https'' then Inr ''https''
      else if s = ''tls'' \<or> s = ''dot'' then Inr ''tls''
      else if s = ''udp'' then Inr ''udp''
      else if s = ''tcp'' then Inr ''tcp''
      else Inl (UnknownTransport s))"

definition parse_upstream_command ::
  "(bytes \<Rightarrow> string + json) \<Rightarrow> (string \<Rightarrow> string) \<Rightarrow> bytes \<Rightarrow> command_error + upstream_command" where
  "parse_upstream_command parse_json uni body =
     (case parse_json body of
        Inl e \<Rightarrow> Inl (BadJson e)
      | Inr v \<Rightarrow>
          if get_bool ''delete'' v = Some True
          then and_then (command_spec v) (\<lambda>s. Inr (DeleteUpstream s))
          else case get_bool ''enabled'' v of
            Some en \<Rightarrow> and_then (command_spec v) (\<lambda>s. Inr (SetEnabledUpstream s en))
          | None \<Rightarrow>
              (let name = command_field ''name'' v; host0 = command_field ''host'' v in
               if name = [] then Inl NameRequired
               else if contains_char CHR ''#'' name then Inl NameHasHash
               else if host0 = [] then Inl HostRequired
               else let (typed, host) = (case split_once_str ''://'' host0 of
                        Some (s, h) \<Rightarrow> (Some (to_lowercase uni (trim s)), trim h)
                      | None \<Rightarrow> (None, host0)) in
                    if host = [] then Inl HostRequired
                    else and_then
                      (transport_of (case typed of Some s \<Rightarrow> s
                         | None \<Rightarrow> unwrap_or (get_str ''scheme'' v) ''https''))
                      (\<lambda>sch. Inr (AddUpstream name host sch))))"

datatype dns_config_command = ResetDns | ApplyDns dns_overrides

text \<open>\<open>n as u32\<close> keeps the low 32 bits; \<open>usize\<close> has 64 bits, so \<open>n as usize\<close> keeps all.\<close>

definition parse_dns_config_command ::
  "(bytes \<Rightarrow> string + json) \<Rightarrow> (json \<Rightarrow> upstream_mode option) \<Rightarrow> bytes \<Rightarrow> command_error + dns_config_command" where
  "parse_dns_config_command parse_json mode_of_json body =
     (case parse_json body of
        Inl e \<Rightarrow> Inl (BadJson e)
      | Inr v \<Rightarrow>
          if get_bool ''reset'' v = Some True then Inr ResetDns
          else and_then
            (case jget ''upstream_mode'' v of
               None \<Rightarrow> Inr None
             | Some JNull \<Rightarrow> Inr None
             | Some m \<Rightarrow> and_then (ok_or (mode_of_json m) BadUpstreamMode) (\<lambda>x. Inr (Some x)))
            (\<lambda>mode. Inr (ApplyDns
               \<lparr>ov_upstreams = str_list ''upstreams'' v,
                ov_upstream_mode = mode,
                ov_bootstrap = str_list ''bootstrap'' v,
                ov_cache_size = map_option unat (get_u64 ''cache_size'' v),
                ov_min_ttl = map_option ucast (get_u64 ''override_min_ttl_secs'' v),
                ov_max_ttl = map_option ucast (get_u64 ''override_max_ttl_secs'' v),
                ov_probe_domain = map_option trim (get_str ''ech_probe_domain'' v),
                ov_probe_mins = map_option ucast (get_u64 ''ech_probe_mins'' v),
                ov_strip_ech = get_bool ''strip_ech'' v,
                ov_log_ipv6 = get_bool ''log_ipv6'' v\<rparr>)))"

section \<open>Laws of overrides\<close>

lemma normalized_idem [simp]: "normalized (normalized e) = normalized e"
  by (simp add: normalized_def comp_def)

lemma unwrap_or_or_else: "unwrap_or (or_else a b) d = unwrap_or a (unwrap_or b d)"
  by (cases a) simp_all

lemma unwrap_or_map: "f (unwrap_or a (f d)) = f (unwrap_or a d)" if "\<And>x. f (f x) = f x"
  by (cases a) (simp_all add: that)

text \<open>Applying two updates in turn is applying their merge: the settings in force and the
  settings on file cannot drift apart.\<close>

lemma with_merged: "with_overrides (with_overrides e a) b = with_overrides e (merged_with a b)"
  by (simp add: with_overrides_def normalized_def merged_with_def unwrap_or_or_else
      unwrap_or_map [of "map trim"] unwrap_or_map [of trim] comp_def)

lemma normalized_with [simp]: "normalized (with_overrides e u) = with_overrides e u"
  by (simp add: with_overrides_def)

lemma normalized_from_config [simp]: "normalized (from_config c) = from_config c"
  by (simp add: from_config_def)

lemma with_no_overrides: "normalized e = e \<Longrightarrow> with_overrides e no_overrides = e"
  by (cases e) (simp add: with_overrides_def no_overrides_def normalized_def)

text \<open>A file seeded from the effective settings gives them back over any configuration.\<close>

lemma with_from_effective: "normalized e = e \<Longrightarrow> with_overrides c (from_effective e) = e"
  by (cases e) (simp add: with_overrides_def from_effective_def normalized_def)

lemma merged_assoc: "merged_with (merged_with a b) c = merged_with a (merged_with b c)"
  by (simp add: merged_with_def or_else_assoc)

lemma validate_settings_iff:
  "validate_settings e = Inr () \<longleftrightarrow> ef_min_ttl e = 0 \<or> ef_max_ttl e = 0 \<or> ef_min_ttl e \<le> ef_max_ttl e"
  by (auto simp: validate_settings_def word_neq_0_conv [symmetric] not_less)

end
