(* ===== verification/Dns_Upstream.thy ===== *)
theory Dns_Upstream
  imports Dns_Message Dns_Settings
begin

text \<open>
  \<open>dns/upstream.rs\<close>: upstream server specs, per-server statistics, and the resolver's choice of
  servers. What a server answers, how long it took, the random numbers and the wire encoding are
  arguments; the resolver decides whom to ask, in which order, what counts as an answer, and what
  it remembers of each attempt.
\<close>

section \<open>Server specs\<close>

datatype scheme = Udp | Tcp | Tls | Https

fun scheme_str :: "scheme \<Rightarrow> string" where
  "scheme_str Udp = ''udp''"
| "scheme_str Tcp = ''tcp''"
| "scheme_str Tls = ''tls''"
| "scheme_str Https = ''https''"

record upstream_addr =
  ua_spec :: string
  ua_name :: string
  ua_enabled :: bool
  ua_scheme :: scheme
  ua_host :: string
  ua_ip :: "ipv4 option"
  ua_port :: u16
  ua_path :: string

datatype spec_error =
    UnknownScheme string string
  | BadPinnedIp string
  | UnclosedBracket
  | BadPort string
  | EmptyHost string
  | Ipv6Upstream string
  | BadBootstrap string
  | InSpec string spec_error

definition parse_pinned_ip :: "string \<Rightarrow> spec_error + ipv4 option" where
  "parse_pinned_ip q =
     (case List.map_filter (\<lambda>kv. strip_prefix ''ip='' (trim kv)) (split CHR ''&'' q) of
        [] \<Rightarrow> Inr None
      | v # _ \<Rightarrow> (case parse_ipv4 v of Some a \<Rightarrow> Inr (Some a) | None \<Rightarrow> Inl (BadPinnedIp v)))"

definition parse_port :: "string \<Rightarrow> spec_error + u16" where
  "parse_port p = ok_or (parse_u16 p) (BadPort p)"

definition split_host_port :: "string \<Rightarrow> u16 \<Rightarrow> spec_error + (string \<times> u16)" where
  "split_host_port s default_port =
     (case strip_prefix ''['' s of
        Some rest \<Rightarrow>
          (case split_once CHR '']'' rest of
             None \<Rightarrow> Inl UnclosedBracket
           | Some (host, tail) \<Rightarrow>
               (case strip_prefix '':'' tail of
                  Some p \<Rightarrow> and_then (parse_port p) (\<lambda>port. Inr (host, port))
                | None \<Rightarrow> Inr (host, default_port)))
      | None \<Rightarrow>
          if parse_ipv6 s \<noteq> None then Inr (s, default_port)
          else (case rsplit_once CHR '':'' s of
                  Some (host, p) \<Rightarrow> and_then (parse_port p) (\<lambda>port. Inr (host, port))
                | None \<Rightarrow> Inr (s, default_port)))"

definition split_scheme :: "string \<Rightarrow> string \<Rightarrow> spec_error + (scheme \<times> string)" where
  "split_scheme spec addr =
     (case split_once_str ''://'' addr of
        None \<Rightarrow> Inr (Udp, addr)
      | Some (s, r) \<Rightarrow>
          if s = ''https'' then Inr (Https, r)
          else if s = ''tls'' then Inr (Tls, r)
          else if s = ''udp'' then Inr (Udp, r)
          else if s = ''tcp'' then Inr (Tcp, r)
          else Inl (UnknownScheme spec s))"

fun default_port :: "scheme \<Rightarrow> u16" where
  "default_port Https = 443"
| "default_port Tls = 853"
| "default_port Udp = 53"
| "default_port Tcp = 53"

definition split_pin :: "string \<Rightarrow> spec_error + (string \<times> ipv4 option)" where
  "split_pin rest =
     (case split_once CHR ''?'' rest of
        Some (r, q) \<Rightarrow> and_then (parse_pinned_ip q) (\<lambda>ip. Inr (r, ip))
      | None \<Rightarrow> Inr (rest, None))"

definition split_path :: "string \<Rightarrow> string \<times> string" where
  "split_path rest =
     (case split_once CHR ''/'' rest of
        Some (a, p) \<Rightarrow> (a, CHR ''/'' # p)
      | None \<Rightarrow> (rest, ''/dns-query''))"

definition parse_upstream :: "string \<Rightarrow> spec_error + upstream_addr" where
  "parse_upstream spec0 =
     (let spec = trim spec0;
          (addr0, name) = (case split_once CHR ''#'' spec of
             Some (a, n) \<Rightarrow> (trim_end a, trim n) | None \<Rightarrow> (spec, []));
          (addr, en) = (case strip_prefix ''!'' addr0 of
             Some a \<Rightarrow> (trim_start a, False) | None \<Rightarrow> (addr0, True))
      in and_then (split_scheme spec addr) (\<lambda>(sch, rest0).
         and_then (map_err (InSpec spec) (split_pin rest0)) (\<lambda>(rest, ip).
         let (authority, pth) = split_path rest in
         and_then (map_err (InSpec spec) (split_host_port authority (default_port sch))) (\<lambda>(host, port).
           if host = [] then Inl (EmptyHost spec)
           else if parse_ipv6 host \<noteq> None then Inl (Ipv6Upstream spec)
           else Inr \<lparr>ua_spec = spec, ua_name = name, ua_enabled = en, ua_scheme = sch,
                     ua_host = host, ua_ip = ip, ua_port = port, ua_path = pth\<rparr>))))"

definition addr_label :: "upstream_addr \<Rightarrow> string" where
  "addr_label a = (if ua_name a = [] then ua_spec a else ua_name a)"

definition hostname :: "upstream_addr \<Rightarrow> string" where
  "hostname a = (if parse_ipv4 (ua_host a) \<noteq> None then [] else ua_host a)"

definition addr_address :: "upstream_addr \<Rightarrow> string" where
  "addr_address a =
     (case ua_ip a of Some ip \<Rightarrow> show_ipv4 ip | None \<Rightarrow> ua_host a) @ '':'' @ show_nat (unat (ua_port a))"

definition host_header :: "upstream_addr \<Rightarrow> string" where
  "host_header a = (if ua_port a = 443 then ua_host a else ua_host a @ '':'' @ show_nat (unat (ua_port a)))"

section \<open>Statistics\<close>

record stats =
  st_queries :: u64
  st_failures :: u64
  st_ewma :: u64

definition zero_stats :: stats where
  "zero_stats = \<lparr>st_queries = 0, st_failures = 0, st_ewma = 0\<rparr>"

definition rtt_sample :: "duration \<Rightarrow> u64" where
  "rtt_sample rtt = of_nat (min (as_micros rtt) 18446744073709551615)"

definition ewma :: "u64 \<Rightarrow> u64 \<Rightarrow> u64" where
  "ewma old sample = (if old = 0 then sample else old - old div 8 + sample div 8)"

definition record_stat :: "duration \<Rightarrow> bool \<Rightarrow> stats \<Rightarrow> stats" where
  "record_stat rtt failed s =
     s\<lparr>st_queries := st_queries s + 1,
       st_failures := (if failed then st_failures s + 1 else st_failures s),
       st_ewma := max (ewma (st_ewma s) (rtt_sample rtt)) 1\<rparr>"

definition weight :: "stats \<Rightarrow> u64" where
  "weight s = (if st_ewma s = 0 then 10000 else max (10000 div max (st_ewma s div 1000) 1) 1)"

datatype ech_support = EchUnknown | EchSupported | EchUnsupported

definition ech_from_u8 :: "u8 \<Rightarrow> ech_support" where
  "ech_from_u8 v = (if v = 1 then EchSupported else if v = 2 then EchUnsupported else EchUnknown)"

fun ech_to_u8 :: "ech_support \<Rightarrow> u8" where
  "ech_to_u8 EchUnknown = 0"
| "ech_to_u8 EchSupported = 1"
| "ech_to_u8 EchUnsupported = 2"

record upstream =
  up_addr :: upstream_addr
  up_stats :: stats
  up_ech :: u8
  up_resolved :: "(ip_addr \<times> instant) option"

definition new_upstream :: "upstream_addr \<Rightarrow> upstream" where
  "new_upstream a = \<lparr>up_addr = a, up_stats = zero_stats, up_ech = 0, up_resolved = None\<rparr>"

record upstream_stat =
  us_spec :: string
  us_name :: string
  us_host :: string
  us_address :: string
  us_scheme :: string
  us_enabled :: bool
  us_queries :: u64
  us_failures :: u64
  us_avg_rtt_ms :: "u64 option"
  us_ech :: ech_support

definition stat_of :: "upstream \<Rightarrow> upstream_stat" where
  "stat_of u =
     \<lparr>us_spec = ua_spec (up_addr u), us_name = addr_label (up_addr u), us_host = hostname (up_addr u),
      us_address = addr_address (up_addr u), us_scheme = scheme_str (ua_scheme (up_addr u)),
      us_enabled = ua_enabled (up_addr u), us_queries = st_queries (up_stats u),
      us_failures = st_failures (up_stats u),
      us_avg_rtt_ms = (if st_ewma (up_stats u) = 0 then None else Some (st_ewma (up_stats u) div 1000)),
      us_ech = ech_from_u8 (up_ech u)\<rparr>"

section \<open>The resolver\<close>

record resolver =
  upstreams :: "upstream list"
  mode :: upstream_mode
  bootstrap :: "socket_addr list"
  timeout :: duration
  preferred :: nat

definition parse_bootstrap :: "string \<Rightarrow> spec_error + socket_addr" where
  "parse_bootstrap s =
     and_then (split_host_port (trim s) 53) (\<lambda>(host, port).
       case parse_ipv4 host of Some ip \<Rightarrow> Inr (SockV4 ip port) | None \<Rightarrow> Inl (BadBootstrap s))"

definition resolver_new :: "string list \<Rightarrow> upstream_mode \<Rightarrow> string list \<Rightarrow> u64 \<Rightarrow> spec_error + resolver" where
  "resolver_new ups md boot timeout_ms =
     and_then (try_map parse_upstream ups) (\<lambda>addrs.
     and_then (try_map parse_bootstrap boot) (\<lambda>bs.
       Inr \<lparr>upstreams = map new_upstream addrs, mode = md, bootstrap = bs,
            timeout = from_millis (max (unat timeout_ms) 100), preferred = 0\<rparr>))"

definition upstream_stats :: "resolver \<Rightarrow> upstream_stat list" where
  "upstream_stats r = map stat_of (upstreams r)"

definition reset_stats :: "resolver \<Rightarrow> resolver" where
  "reset_stats r = r\<lparr>upstreams := map (\<lambda>u. u\<lparr>up_stats := zero_stats\<rparr>) (upstreams r)\<rparr>"

definition active :: "resolver \<Rightarrow> nat list" where
  "active r = filter (\<lambda>i. ua_enabled (up_addr (upstreams r ! i))) [0 ..< length (upstreams r)]"

definition same_server :: "upstream_addr \<Rightarrow> upstream_addr \<Rightarrow> bool" where
  "same_server a b \<longleftrightarrow> ua_scheme a = ua_scheme b \<and> ua_host a = ua_host b \<and> ua_port a = ua_port b"

definition inherit_ech :: "resolver \<Rightarrow> resolver \<Rightarrow> resolver" where
  "inherit_ech r old =
     r\<lparr>upstreams := map (\<lambda>u.
         case find (\<lambda>p. same_server (up_addr p) (up_addr u)) (upstreams old) of
           Some prev \<Rightarrow> u\<lparr>up_ech := up_ech prev\<rparr>
         | None \<Rightarrow> u) (upstreams r)\<rparr>"

definition failover_order :: "resolver \<Rightarrow> nat list \<Rightarrow> nat list" where
  "failover_order r act =
     (let start = unwrap_or (position (\<lambda>i. i = preferred r) act) 0
      in map (\<lambda>k. act ! ((start + k) mod length act)) [0 ..< length act])"

fun pick_from :: "u64 \<Rightarrow> u64 list \<Rightarrow> nat option" where
  "pick_from point [] = None"
| "pick_from point (w # ws) =
     (if point < w then Some 0 else map_option Suc (pick_from (point - w) ws))"

definition pick_weighted :: "u64 list \<Rightarrow> u64 \<Rightarrow> nat" where
  "pick_weighted ws r =
     (let total = sum_list ws in
      if total = 0 then 0
      else case pick_from (r mod total) ws of Some i \<Rightarrow> i | None \<Rightarrow> length ws - 1)"

definition load_balanced_order :: "resolver \<Rightarrow> u64 \<Rightarrow> nat list \<Rightarrow> nat list" where
  "load_balanced_order r rnd act =
     (let picked = act ! pick_weighted (map (\<lambda>i. weight (up_stats (upstreams r ! i))) act) rnd;
          order = sort_key (\<lambda>i. st_ewma (up_stats (upstreams r ! i))) act
      in picked # filter (\<lambda>i. i \<noteq> picked) order)"

text \<open>One attempt: a decoded answer, an error, or the timer.\<close>

datatype 'n attempt = Answered "'n message" | AttemptFailed string | TimedOut

datatype resolve_error =
    NoUpstreams
  | AllDisabled
  | Encoding string
  | IdMismatch string
  | UpstreamFailed string string
  | UpstreamTimedOut string
  | NoAttempt

text \<open>\<open>query_one\<close>: UDP falls back to TCP on a truncated answer. The transports are arguments.\<close>

record 'n transports =
  query_udp :: "upstream_addr \<Rightarrow> bytes \<Rightarrow> string + 'n message"
  query_tcp :: "upstream_addr \<Rightarrow> bytes \<Rightarrow> string + 'n message"
  query_dot :: "upstream_addr \<Rightarrow> bytes \<Rightarrow> string + 'n message"
  query_doh :: "upstream_addr \<Rightarrow> bytes \<Rightarrow> string + 'n message"

definition query_one :: "'n transports \<Rightarrow> upstream_addr \<Rightarrow> bytes \<Rightarrow> string + 'n message" where
  "query_one T a wire =
     (case ua_scheme a of
        Udp \<Rightarrow> and_then (query_udp T a wire) (\<lambda>resp.
                 if truncation (meta resp) then query_tcp T a wire else Inr resp)
      | Tcp \<Rightarrow> query_tcp T a wire
      | Tls \<Rightarrow> query_dot T a wire
      | Https \<Rightarrow> query_doh T a wire)"

definition good_answer :: "u16 \<Rightarrow> 'n attempt \<Rightarrow> 'n message option" where
  "good_answer i att =
     (case att of Answered m \<Rightarrow> if msg_id (meta m) = i then Some m else None | _ \<Rightarrow> None)"

fun attempt_error :: "upstream_addr \<Rightarrow> 'n attempt \<Rightarrow> resolve_error" where
  "attempt_error a (Answered _) = IdMismatch (ua_spec a)"
| "attempt_error a (AttemptFailed e) = UpstreamFailed (ua_spec a) e"
| "attempt_error a TimedOut = UpstreamTimedOut (ua_spec a)"

definition note_attempt :: "nat \<Rightarrow> duration \<Rightarrow> bool \<Rightarrow> resolver \<Rightarrow> resolver" where
  "note_attempt i rtt failed r =
     r\<lparr>upstreams := (upstreams r)[i := (upstreams r ! i)\<lparr>
         up_stats := record_stat rtt failed (up_stats (upstreams r ! i))\<rparr>]\<rparr>"

text \<open>\<open>reply\<close> gives the outcome and the elapsed time of asking a server.\<close>

fun resolve_sequential ::
  "(nat \<Rightarrow> 'n attempt \<times> duration) \<Rightarrow> u16 \<Rightarrow> resolve_error \<Rightarrow> nat list \<Rightarrow> resolver \<Rightarrow>
   (resolve_error + 'n message \<times> string) \<times> resolver" where
  "resolve_sequential reply i last_err [] r = (Inl last_err, r)"
| "resolve_sequential reply i last_err (idx # order) r =
     (let a = up_addr (upstreams r ! idx); (att, rtt) = reply idx in
      case good_answer i att of
        Some resp \<Rightarrow> (Inr (resp, addr_label a), (note_attempt idx rtt False r)\<lparr>preferred := idx\<rparr>)
      | None \<Rightarrow> resolve_sequential reply i (attempt_error a att) order
                  (note_attempt idx (timeout r * 2) True r))"

text \<open>In parallel, the attempts arrive in some order; the first good one wins.\<close>

fun resolve_parallel ::
  "u16 \<Rightarrow> resolve_error \<Rightarrow> (nat \<times> 'n attempt \<times> duration) list \<Rightarrow> resolver \<Rightarrow>
   (resolve_error + 'n message \<times> string) \<times> resolver" where
  "resolve_parallel i last_err [] r = (Inl last_err, r)"
| "resolve_parallel i last_err ((idx, att, rtt) # arrivals) r =
     (let a = up_addr (upstreams r ! idx) in
      case good_answer i att of
        Some resp \<Rightarrow> (Inr (resp, addr_label a), note_attempt idx rtt False r)
      | None \<Rightarrow> resolve_parallel i (attempt_error a att) arrivals
                  (note_attempt idx (timeout r * 2) True r))"

text \<open>What the outside contributes to one resolution: the message id drawn, the encoder's verdict,
  a random number, the replies, and the order in which parallel replies arrive.\<close>

record 'n net =
  net_id :: u16
  net_encoded :: "string + bytes"
  net_random :: u64
  net_reply :: "nat \<Rightarrow> 'n attempt \<times> duration"
  net_order :: "nat list \<Rightarrow> nat list"

definition resolve :: "'n net \<Rightarrow> resolver \<Rightarrow> (resolve_error + 'n message \<times> string) \<times> resolver" where
  "resolve W r =
     (let act = active r in
      if act = [] then (Inl (if upstreams r = [] then NoUpstreams else AllDisabled), r)
      else case net_encoded W of
        Inl e \<Rightarrow> (Inl (Encoding e), r)
      | Inr _ \<Rightarrow>
          if mode r = Parallel \<and> length act > 1
          then resolve_parallel (net_id W) NoAttempt (map (\<lambda>j. (j, net_reply W j)) (net_order W act)) r
          else if mode r = LoadBalance \<and> length act > 1
          then resolve_sequential (net_reply W) (net_id W) NoAttempt
                 (load_balanced_order r (net_random W) act) r
          else resolve_sequential (net_reply W) (net_id W) NoAttempt (failover_order r act) r)"

section \<open>Probes and addresses\<close>

definition set_ech :: "nat \<Rightarrow> ech_support \<Rightarrow> resolver \<Rightarrow> resolver" where
  "set_ech i s r = r\<lparr>upstreams := (upstreams r)[i := (upstreams r ! i)\<lparr>up_ech := ech_to_u8 s\<rparr>]\<rparr>"

definition probe_one :: "u16 \<Rightarrow> 'n attempt \<Rightarrow> nat \<Rightarrow> resolver \<Rightarrow> ech_support option \<times> resolver" where
  "probe_one i att idx r =
     (case good_answer i att of
        Some resp \<Rightarrow>
          (let s = (if answer_has_ech resp then EchSupported else EchUnsupported)
           in (Some s, set_ech idx s r))
      | None \<Rightarrow> (None, r))"

text \<open>\<open>probe\<close> is the encoded probe query, \<open>None\<close> when the domain is not a name.\<close>

definition probe_ech :: "u16 option \<Rightarrow> (nat \<Rightarrow> 'n attempt) \<Rightarrow> resolver \<Rightarrow> nat \<times> resolver" where
  "probe_ech probe att r =
     (case probe of
        None \<Rightarrow> (0, r)
      | Some i \<Rightarrow>
          fold (\<lambda>idx (n, r). case probe_one i (att idx) idx r of
                  (Some _, r') \<Rightarrow> (Suc n, r') | (None, r') \<Rightarrow> (n, r')) (active r) (0, r))"

definition probe_ech_spec ::
  "string \<Rightarrow> u16 option \<Rightarrow> (nat \<Rightarrow> 'n attempt) \<Rightarrow> resolver \<Rightarrow> ech_support option \<times> resolver" where
  "probe_ech_spec spec probe att r =
     (case position (\<lambda>u. ua_spec (up_addr u) = spec) (upstreams r) of
        None \<Rightarrow> (None, r)
      | Some idx \<Rightarrow> (case probe of None \<Rightarrow> (None, r) | Some i \<Rightarrow> probe_one i (att idx) idx r))"

datatype lookup_error =
    NeedsBootstrap string
  | BadHostName string
  | BootstrapEncoding string
  | BootstrapSocket string
  | BootstrapUnresolved string

text \<open>One bootstrap server: an error of the local socket ends the lookup, anything else that goes
  wrong moves on to the next server.\<close>

datatype 'n boot_reply = BootSocketError string | BootNothing | BootAnswer "'n message"

definition first_address :: "'n message \<Rightarrow> (ip_addr \<times> u32) option" where
  "first_address m =
     (case List.map_filter (\<lambda>r. case rr_data r of
             DA a \<Rightarrow> if a \<noteq> Ipv4 0 0 0 0 then Some (V4 a, rr_ttl r) else None | _ \<Rightarrow> None) (answers m) of
        [] \<Rightarrow> None | x # _ \<Rightarrow> Some x)"

fun bootstrap_servers ::
  "(socket_addr \<Rightarrow> 'n boot_reply) \<Rightarrow> string \<Rightarrow> socket_addr list \<Rightarrow> lookup_error + (ip_addr \<times> u32)" where
  "bootstrap_servers ask host [] = Inl (BootstrapUnresolved host)"
| "bootstrap_servers ask host (b # bs) =
     (case ask b of
        BootSocketError e \<Rightarrow> Inl (BootstrapSocket e)
      | BootNothing \<Rightarrow> bootstrap_servers ask host bs
      | BootAnswer m \<Rightarrow>
          (case first_address m of Some x \<Rightarrow> Inr x | None \<Rightarrow> bootstrap_servers ask host bs))"

definition bootstrap_lookup ::
  "'n name_ops \<Rightarrow> (socket_addr \<Rightarrow> 'n boot_reply) \<Rightarrow> string \<Rightarrow> resolver \<Rightarrow> lookup_error + (ip_addr \<times> u32)" where
  "bootstrap_lookup N ask host r =
     (if bootstrap r = [] then Inl (NeedsBootstrap host)
      else if from_utf8 N host = None then Inl (BadHostName host)
      else bootstrap_servers ask host (bootstrap r))"

definition resolve_host ::
  "'n name_ops \<Rightarrow> (socket_addr \<Rightarrow> 'n boot_reply) \<Rightarrow> string \<Rightarrow> resolver \<Rightarrow> lookup_error + ip_addr" where
  "resolve_host N ask host r =
     (case parse_ip host of
        Some ip \<Rightarrow> Inr ip
      | None \<Rightarrow> and_then (bootstrap_lookup N ask host r) (\<lambda>(ip, _). Inr ip))"

definition sock_of :: "ip_addr \<Rightarrow> u16 \<Rightarrow> socket_addr" where
  "sock_of ip port = (case ip of V4 a \<Rightarrow> SockV4 a port | V6 a \<Rightarrow> SockV6 a port 0)"

text \<open>\<open>now\<close> is the reading the remembered address is checked against, \<open>later\<close> the one a new
  address is stamped with.\<close>

definition target_addr ::
  "'n name_ops \<Rightarrow> (socket_addr \<Rightarrow> 'n boot_reply) \<Rightarrow> instant \<Rightarrow> instant \<Rightarrow> nat \<Rightarrow> resolver \<Rightarrow>
   (lookup_error + socket_addr) \<times> resolver" where
  "target_addr N ask now later idx r =
     (let u = upstreams r ! idx; a = up_addr u;
          fresh = (\<lambda>_::unit. case bootstrap_lookup N ask (ua_host a) r of
             Inl e \<Rightarrow> (Inl e, r)
           | Inr (ip, ttl) \<Rightarrow>
               (Inr (sock_of ip (ua_port a)),
                r\<lparr>upstreams := (upstreams r)[idx := u\<lparr>up_resolved :=
                    Some (ip, later + from_secs (unat (min (max ttl 60) 3600)))\<rparr>]\<rparr>))
      in case ua_ip a of
           Some ip \<Rightarrow> (Inr (SockV4 ip (ua_port a)), r)
         | None \<Rightarrow>
             (case parse_ip (ua_host a) of
                Some ip \<Rightarrow> (Inr (sock_of ip (ua_port a)), r)
              | None \<Rightarrow>
                  (case up_resolved u of
                     Some (ip, ex) \<Rightarrow> if now < ex then (Inr (sock_of ip (ua_port a)), r) else fresh ()
                   | None \<Rightarrow> fresh ())))"

section \<open>Framing\<close>

datatype frame_error = QueryTooLarge | FrameShort

definition write_framed :: "bytes \<Rightarrow> frame_error + bytes" where
  "write_framed wire =
     (if length wire > 65535 then Inl QueryTooLarge
      else Inr (of_nat (length wire div 256) # of_nat (length wire mod 256) # wire))"

text \<open>\<open>read_framed\<close> up to the decoder: the frame's bytes and what is left in the stream.\<close>

fun read_frame :: "bytes \<Rightarrow> frame_error + (bytes \<times> bytes)" where
  "read_frame (hi # lo # rest) =
     (let n = unat (be_bytes hi lo)
      in if length rest < n then Inl FrameShort else Inr (take n rest, drop n rest))"
| "read_frame _ = Inl FrameShort"

section \<open>Statistics stay in range\<close>

lemma unat_u64: "unat (x :: u64) < 18446744073709551616"
  using unsigned_less [of x] by simp

lemma unat_ewma:
  "unat (ewma old s) = (if old = 0 then unat s else unat old - unat old div 8 + unat s div 8)"
proof -
  have d: "unat (x div 8) = unat x div 8" for x :: u64
    by (simp add: unat_div)
  have le: "old div 8 \<le> old" by (simp add: word_le_nat_alt d)
  then have "unat (old - old div 8) = unat old - unat old div 8" by (simp add: unat_sub d)
  moreover have "unat old - unat old div 8 + unat s div 8 < 18446744073709551616"
    using unat_u64 [of old] unat_u64 [of s] by linarith
  ultimately have "unat (old - old div 8 + s div 8) = unat old - unat old div 8 + unat s div 8"
    by (subst unat_add_lem [THEN iffD1]) (simp_all add: d)
  then show ?thesis by (simp add: ewma_def)
qed

lemma record_stat_ewma: "1 \<le> st_ewma (record_stat rtt failed s)"
  by (simp add: record_stat_def)

lemma weight_bounds: "1 \<le> weight s" "weight s \<le> 10000"
proof -
  show "1 \<le> weight s" by (simp add: weight_def)
  have "10000 div max (st_ewma s div 1000) 1 \<le> (10000 :: u64)"
    by (simp add: word_le_nat_alt unat_div)
  then show "weight s \<le> 10000" by (simp add: weight_def)
qed

lemma ech_round_trip: "ech_from_u8 (ech_to_u8 s) = s"
  by (cases s) (simp_all add: ech_from_u8_def)

section \<open>Weighted choice\<close>

lemma pick_from_bound: "pick_from p ws = Some i \<Longrightarrow> i < length ws"
  by (induction p ws arbitrary: i rule: pick_from.induct) (auto split: if_splits)

lemma pick_weighted_bound: "ws \<noteq> [] \<Longrightarrow> pick_weighted ws r < length ws"
  by (auto simp: pick_weighted_def Let_def pick_from_bound split: option.splits)

lemma pick_from_interval:
  "unat p < sum_list (map unat ws) \<Longrightarrow>
   \<exists>i. pick_from p ws = Some i \<and> sum_list (map unat (take i ws)) \<le> unat p
      \<and> unat p < sum_list (map unat (take (Suc i) ws))"
proof (induction p ws rule: pick_from.induct)
  case (2 p w ws)
  show ?case
  proof (cases "p < w")
    case True
    then show ?thesis by (simp add: word_less_nat_alt)
  next
    case False
    then have s: "unat (p - w) = unat p - unat w" by (simp add: unat_sub not_less)
    have wp: "unat w \<le> unat p" using False by (simp add: word_less_nat_alt not_less)
    obtain i where "pick_from (p - w) ws = Some i" "sum_list (map unat (take i ws)) \<le> unat p - unat w"
      "unat p - unat w < sum_list (map unat (take (Suc i) ws))"
      using 2 False s wp by fastforce
    then show ?thesis using False wp by (intro exI [of _ "Suc i"]) auto
  qed
qed simp

lemma unat_sum_list:
  "sum_list (map unat ws) < 18446744073709551616 \<Longrightarrow> unat (sum_list (ws :: u64 list)) = sum_list (map unat ws)"
proof (induction ws)
  case (Cons w ws)
  then have "unat (sum_list ws) = sum_list (map unat ws)" by simp
  with Cons.prems show ?case by (simp add: unat_add_lem [THEN iffD1])
qed simp

text \<open>A server is picked by the numbers that fall into its interval, whose length is its weight.\<close>

lemma pick_weighted_interval:
  assumes "sum_list (map unat ws) < 18446744073709551616" "0 < sum_list (map unat ws)"
  shows "sum_list (map unat (take (pick_weighted ws r) ws)) \<le> unat r mod sum_list (map unat ws)"
    and "unat r mod sum_list (map unat ws) < sum_list (map unat (take (Suc (pick_weighted ws r)) ws))"
proof -
  have total: "unat (sum_list ws) = sum_list (map unat ws)" by (rule unat_sum_list) (rule assms)
  then have nz: "sum_list ws \<noteq> 0" using assms(2) by (metis less_irrefl unat_0)
  have m: "unat (r mod sum_list ws) = unat r mod sum_list (map unat ws)"
    by (simp add: unat_mod total)
  then have "unat (r mod sum_list ws) < sum_list (map unat ws)" using assms(2) by simp
  from pick_from_interval [OF this] m nz
  show "sum_list (map unat (take (pick_weighted ws r) ws)) \<le> unat r mod sum_list (map unat ws)"
    and "unat r mod sum_list (map unat ws) < sum_list (map unat (take (Suc (pick_weighted ws r)) ws))"
    by (auto simp: pick_weighted_def)
qed

section \<open>Orders\<close>

lemma active_iff: "i \<in> set (active r) \<longleftrightarrow> i < length (upstreams r) \<and> ua_enabled (up_addr (upstreams r ! i))"
  by (auto simp: active_def)

lemma distinct_active: "distinct (active r)"
  by (simp add: active_def)

lemma failover_rotate:
  "failover_order r act = rotate (unwrap_or (position (\<lambda>i. i = preferred r) act) 0) act"
  by (rule nth_equalityI) (auto simp: failover_order_def Let_def nth_rotate add.commute)

lemma mset_rotate: "mset (rotate n xs) = mset xs"
  unfolding rotate_drop_take by (metis append_take_drop_id mset_append union_commute)

lemma failover_mset: "mset (failover_order r act) = mset act"
  by (simp add: failover_rotate mset_rotate)

lemma failover_hd: "preferred r \<in> set act \<Longrightarrow> hd (failover_order r act) = preferred r"
proof -
  assume p: "preferred r \<in> set act"
  then obtain i where i: "position (\<lambda>i. i = preferred r) act = Some i"
    by (cases "position (\<lambda>i. i = preferred r) act") auto
  from position_Some [OF i] have "i < length act" "act ! i = preferred r" by auto
  moreover from this have "act \<noteq> []" by auto
  ultimately show ?thesis by (simp add: failover_rotate i hd_rotate_conv_nth)
qed

lemma load_balanced_picked:
  "act \<noteq> [] \<Longrightarrow> act ! pick_weighted (map (\<lambda>i. weight (up_stats (upstreams r ! i))) act) rnd \<in> set act"
  using pick_weighted_bound [of "map (\<lambda>i. weight (up_stats (upstreams r ! i))) act" rnd] by simp

lemma load_balanced_mset:
  assumes "act \<noteq> []" "distinct act"
  shows "mset (load_balanced_order r rnd act) = mset act"
proof -
  define p where "p = act ! pick_weighted (map (\<lambda>i. weight (up_stats (upstreams r ! i))) act) rnd"
  let ?s = "sort_key (\<lambda>i. st_ewma (up_stats (upstreams r ! i))) act"
  have p: "p \<in> set act" unfolding p_def by (rule load_balanced_picked [OF assms(1)])
  have "distinct (p # filter (\<lambda>i. i \<noteq> p) ?s)" using assms(2) by simp
  moreover have "set (p # filter (\<lambda>i. i \<noteq> p) ?s) = set act" using p by auto
  ultimately have "mset (p # filter (\<lambda>i. i \<noteq> p) ?s) = mset act"
    using assms(2) by (simp only: set_eq_iff_mset_eq_distinct)
  then show ?thesis by (simp add: load_balanced_order_def Let_def p_def)
qed

section \<open>Attempts\<close>

lemma note_attempt_simps [simp]:
  "length (upstreams (note_attempt i d f r)) = length (upstreams r)"
  "timeout (note_attempt i d f r) = timeout r"
  "mode (note_attempt i d f r) = mode r"
  "bootstrap (note_attempt i d f r) = bootstrap r"
  "preferred (note_attempt i d f r) = preferred r"
  by (simp_all add: note_attempt_def)

lemma note_attempt_addr [simp]: "up_addr (upstreams (note_attempt i d f r) ! j) = up_addr (upstreams r ! j)"
proof (cases "i = j")
  case True
  then show ?thesis
    by (cases "j < length (upstreams r)") (simp_all add: note_attempt_def list_update_beyond)
qed (simp add: note_attempt_def)

lemma note_attempt_other: "j \<noteq> i \<Longrightarrow> upstreams (note_attempt i d f r) ! j = upstreams r ! j"
  by (simp add: note_attempt_def)

definition failed_all :: "nat list \<Rightarrow> resolver \<Rightarrow> resolver" where
  "failed_all ids r = fold (\<lambda>i. note_attempt i (timeout r * 2) True) ids r"

definition bad :: "(nat \<Rightarrow> 'n attempt \<times> duration) \<Rightarrow> u16 \<Rightarrow> nat \<Rightarrow> bool" where
  "bad reply i j \<longleftrightarrow> good_answer i (fst (reply j)) = None"

lemma failed_all_Cons: "failed_all (j # js) r = failed_all js (note_attempt j (timeout r * 2) True r)"
  by (simp add: failed_all_def)

text \<open>The servers are asked in order, each failure is charged to its server, the first good
  answer is returned and its server becomes the preferred one.\<close>

lemma resolve_sequential_first:
  assumes "dropWhile (bad reply i) order = j # rest" "good_answer i (fst (reply j)) = Some m"
  shows "resolve_sequential reply i e order r =
    (Inr (m, addr_label (up_addr (upstreams r ! j))),
     (note_attempt j (snd (reply j)) False (failed_all (takeWhile (bad reply i) order) r))\<lparr>preferred := j\<rparr>)"
  using assms(1)
proof (induction order arbitrary: e r)
  case (Cons k order)
  obtain att rtt where k: "reply k = (att, rtt)" by (cases "reply k")
  show ?case
  proof (cases "bad reply i k")
    case True
    then have "good_answer i att = None" by (simp add: bad_def k)
    with Cons True show ?thesis by (simp add: k Let_def failed_all_Cons)
  next
    case False
    then have "k = j" "rest = order" using Cons.prems by auto
    with k assms(2) have "good_answer i att = Some m" "snd (reply j) = rtt" by simp_all
    with False \<open>k = j\<close> k show ?thesis by (simp add: Let_def failed_all_def)
  qed
qed simp

lemma resolve_sequential_none:
  assumes "\<forall>j \<in> set order. bad reply i j"
  shows "resolve_sequential reply i e order r =
    (Inl (if order = [] then e
          else attempt_error (up_addr (upstreams r ! last order)) (fst (reply (last order)))),
     failed_all order r)"
  using assms
proof (induction order arbitrary: e r)
  case (Cons k order)
  obtain att rtt where k: "reply k = (att, rtt)" by (cases "reply k")
  then have "good_answer i att = None" using Cons.prems by (simp add: bad_def)
  with Cons show ?case by (auto simp: k Let_def failed_all_Cons)
qed (simp add: failed_all_def)

lemma failed_all_other: "j \<notin> set ids \<Longrightarrow> upstreams (failed_all ids r) ! j = upstreams r ! j"
  by (induction ids arbitrary: r) (auto simp: failed_all_Cons note_attempt_other, simp add: failed_all_def)

lemma resolve_sequential_other:
  "j \<notin> set order \<Longrightarrow> upstreams (snd (resolve_sequential reply i e order r)) ! j = upstreams r ! j"
  by (induction order arbitrary: e r)
    (auto simp: Let_def note_attempt_other split: prod.splits option.splits)

lemma resolve_parallel_other:
  "j \<notin> fst ` set arr \<Longrightarrow> upstreams (snd (resolve_parallel i e arr r)) ! j = upstreams r ! j"
  by (induction i e arr r rule: resolve_parallel.induct)
    (auto simp: Let_def note_attempt_other split: option.splits)

text \<open>Whatever the mode, a parked server is never asked: its record stays as it was.\<close>

lemma resolve_parked:
  assumes "set (net_order W (active r)) = set (active r)"
    and "j < length (upstreams r)" "\<not> ua_enabled (up_addr (upstreams r ! j))"
  shows "upstreams (snd (resolve W r)) ! j = upstreams r ! j"
proof -
  have j: "j \<notin> set (active r)" using assms(2,3) by (simp add: active_iff)
  have "active r \<noteq> [] \<Longrightarrow> j \<notin> set (load_balanced_order r (net_random W) (active r))"
    using j load_balanced_mset [OF _ distinct_active, of r r "net_random W"] by (metis mset_eq_setD)
  moreover have "j \<notin> set (failover_order r (active r))"
    using j failover_mset by (metis mset_eq_setD)
  moreover have "j \<notin> fst ` set (map (\<lambda>j. (j, net_reply W j)) (net_order W (active r)))"
    using j assms(1) by (auto simp: image_iff)
  ultimately show ?thesis
    by (auto simp: resolve_def Let_def resolve_sequential_other resolve_parallel_other split: sum.splits)
qed

section \<open>Frames\<close>

lemma frame_round_trip:
  assumes "write_framed wire = Inr bs"
  shows "read_frame (bs @ rest) = Inr (wire, rest)"
proof -
  have len: "length wire \<le> 65535" and bs: "bs = of_nat (length wire div 256) # of_nat (length wire mod 256) # wire"
    using assms by (auto simp: write_framed_def split: if_splits)
  have "length wire div 256 < 256" using len by simp
  then have "unat (of_nat (length wire div 256) :: u8) = length wire div 256"
    and "unat (of_nat (length wire mod 256) :: u8) = length wire mod 256"
    by (simp_all add: unat_of_nat)
  moreover have "length wire div 256 * 256 + length wire mod 256 = length wire" by simp
  ultimately have "unat (be_bytes (of_nat (length wire div 256)) (of_nat (length wire mod 256))) = length wire"
    using len by (simp add: be_bytes_def unat_of_nat)
  then show ?thesis by (simp add: bs Let_def)
qed

section \<open>Properties\<close>

lemma resolve_sequential_succeeds:
  "\<not> isl (fst (resolve_sequential reply i e order r)) \<longleftrightarrow> (\<exists>j \<in> set order. \<not> bad reply i j)"
proof (induction order arbitrary: e r)
  case (Cons j order)
  show ?case by (cases "reply j"; cases "good_answer i (fst (reply j))") (use Cons in \<open>simp_all add: bad_def\<close>)
qed simp

lemma resolve_parallel_succeeds:
  "\<not> isl (fst (resolve_parallel i e (map (\<lambda>j. (j, reply j)) ids) r)) \<longleftrightarrow> (\<exists>j \<in> set ids. \<not> bad reply i j)"
proof (induction ids arbitrary: e r)
  case (Cons j ids)
  show ?case by (cases "reply j"; cases "good_answer i (fst (reply j))") (use Cons in \<open>simp_all add: bad_def Let_def\<close>)
qed simp

lemma order_set:
  assumes "act \<noteq> []" "distinct act"
  shows "set (failover_order r act) = set act" "set (load_balanced_order r rnd act) = set act"
  using mset_eq_setD [OF failover_mset] mset_eq_setD [OF load_balanced_mset [OF assms]] by blast+

definition sample_resolver :: resolver where
  "sample_resolver =
     \<lparr>upstreams = map (\<lambda>(h, en). new_upstream \<lparr>ua_spec = h, ua_name = [], ua_enabled = en, ua_scheme = Udp,
        ua_host = h, ua_ip = None, ua_port = 53, ua_path = []\<rparr>) [(''9.9.9.9'', True), (''1.1.1.1'', False), (''8.8.8.8'', True)],
      mode = Failover, bootstrap = [], timeout = 10, preferred = 0\<rparr>"

definition sample_net :: "(nat \<Rightarrow> 'n attempt) \<Rightarrow> 'n net" where
  "sample_net att = \<lparr>net_id = 7, net_encoded = Inr [], net_random = 0, net_reply = (\<lambda>j. (att j, 3)), net_order = id\<rparr>"

abbreviation sample_answer :: "string message" where
  "sample_answer \<equiv> new_message 7 MResponse OpQuery"

lemma sample_active: "active sample_resolver = [0, 2]"
  by (simp add: sample_resolver_def active_def new_upstream_def upt_rec)

text \<open>C24: in every mode (failover, load balancing, parallel) a resolution succeeds exactly when at least
  one enabled upstream gives an answer with the id of the query.\<close>

theorem resolve_succeeds_iff:
  assumes "net_encoded W = Inr wire" "set (net_order W (active r)) = set (active r)"
  shows "\<not> isl (fst (resolve W r)) \<longleftrightarrow>
    (\<exists>j \<in> set (active r). good_answer (net_id W) (fst (net_reply W j)) \<noteq> None)"
proof (cases "active r = []")
  case True
  then show ?thesis by (simp add: resolve_def Let_def)
next
  case False
  note os = order_set [OF False distinct_active]
  show ?thesis
    using False assms os
    by (simp add: resolve_def Let_def resolve_sequential_succeeds resolve_parallel_succeeds bad_def)
qed

theorem resolve_succeeds_iff_witness:
  "\<not> isl (fst (resolve (sample_net (\<lambda>j. if j = 2 then Answered sample_answer else TimedOut))
     sample_resolver))"
proof -
  let ?W = "sample_net (\<lambda>j. if j = 2 then Answered sample_answer else TimedOut)"
  have "net_encoded ?W = Inr []" "set (net_order ?W (active sample_resolver)) = set (active sample_resolver)"
    by (simp_all add: sample_net_def)
  moreover have "\<exists>j \<in> set (active sample_resolver). good_answer (net_id ?W) (fst (net_reply ?W j)) \<noteq> None"
    by (simp add: sample_active sample_net_def good_answer_def new_message_def)
  ultimately show ?thesis by (subst resolve_succeeds_iff) auto
qed

text \<open>a parked upstream is never asked: whatever the mode and the outcome, its statistics and state
  are the same after a resolution.\<close>

theorem parked_never_asked:
  assumes "set (net_order W (active r)) = set (active r)"
    and "j < length (upstreams r)" "\<not> ua_enabled (up_addr (upstreams r ! j))"
  shows "upstreams (snd (resolve W r)) ! j = upstreams r ! j"
  using assms by (rule resolve_parked)

theorem parked_never_asked_witness:
  "upstreams (snd (resolve (sample_net (\<lambda>j. TimedOut) :: string net) sample_resolver)) ! 1 = upstreams sample_resolver ! 1"
  by (rule parked_never_asked) (simp_all add: sample_net_def sample_resolver_def new_upstream_def)

text \<open>failover tries the enabled upstreams in their configured cyclic order starting with the one that
  answered last, answers with the first good reply, charges a failure to every one before it,
  and starts with the answering one next time.\<close>

theorem failover_first_good:
  assumes "mode r = Failover" "net_encoded W = Inr wire"
    and "dropWhile (bad (net_reply W) (net_id W)) (failover_order r (active r)) = j # rest"
    and "good_answer (net_id W) (fst (net_reply W j)) = Some m"
  shows "resolve W r = (Inr (m, addr_label (up_addr (upstreams r ! j))),
      (note_attempt j (snd (net_reply W j)) False
        (failed_all (takeWhile (bad (net_reply W) (net_id W)) (failover_order r (active r))) r))\<lparr>preferred := j\<rparr>) \<and>
    mset (failover_order r (active r)) = mset (active r) \<and>
    (preferred r \<in> set (active r) \<longrightarrow> hd (failover_order r (active r)) = preferred r)"
proof -
  have "active r \<noteq> []"
    using assms(3) failover_mset [of r "active r"] by auto
  then have "resolve W r = resolve_sequential (net_reply W) (net_id W) NoAttempt (failover_order r (active r)) r"
    using assms(1,2) by (simp add: resolve_def Let_def)
  with resolve_sequential_first [OF assms(3,4)] failover_mset failover_hd show ?thesis by metis
qed

theorem failover_first_good_witness:
  "preferred (snd (resolve (sample_net (\<lambda>j. if j = 2 then Answered sample_answer else TimedOut))
     sample_resolver)) = 2"
proof -
  let ?W = "sample_net (\<lambda>j. if j = 2 then Answered sample_answer else TimedOut)"
  have order: "failover_order sample_resolver (active sample_resolver) = [0, 2]"
    by code_simp
  have a: "mode sample_resolver = Failover" by (simp add: sample_resolver_def)
  have b: "net_encoded ?W = Inr []" by (simp add: sample_net_def)
  have c: "dropWhile (bad (net_reply ?W) (net_id ?W)) (failover_order sample_resolver (active sample_resolver)) = 2 # []"
    by (simp add: order sample_net_def bad_def good_answer_def new_message_def)
  have d: "good_answer (net_id ?W) (fst (net_reply ?W 2)) = Some sample_answer"
    by (simp add: sample_net_def good_answer_def new_message_def)
  show ?thesis using failover_first_good [OF a b c d] by simp
qed

text \<open>the smoothed round-trip time never wraps around: the 64-bit update is the exact
  7/8-1/8 average, it stays at least one microsecond once something was recorded, and the weight
  derived from it lies between 1 and 10000.\<close>

theorem rtt_average_exact:
  "unat (ewma old sample) = (if old = 0 then unat sample else unat old - unat old div 8 + unat sample div 8) \<and>
   1 \<le> st_ewma (record_stat rtt failed s) \<and> 1 \<le> weight s \<and> weight s \<le> 10000"
  using unat_ewma record_stat_ewma weight_bounds by blast

text \<open>the weighted choice is proportional: index i is picked exactly when the random number, taken
  modulo the sum of the weights, falls into the i-th interval of the running sums.\<close>

theorem weighted_pick_interval:
  assumes "sum_list (map unat ws) < 18446744073709551616" "0 < sum_list (map unat ws)"
  shows "pick_weighted ws rnd < length ws \<and>
    sum_list (map unat (take (pick_weighted ws rnd) ws)) \<le> unat rnd mod sum_list (map unat ws) \<and>
    unat rnd mod sum_list (map unat ws) < sum_list (map unat (take (Suc (pick_weighted ws rnd)) ws))"
  using pick_weighted_interval [OF assms] pick_weighted_bound [of ws rnd] assms(2) by (cases "ws = []") auto

theorem weighted_pick_interval_witness:
  "pick_weighted [10, 30, 60] 25 = 1 \<and> (10::nat) \<le> 25 mod 100 \<and> 25 mod 100 < (40::nat)"
  using weighted_pick_interval [of "[10, 30, 60]" 25] by (simp add: pick_weighted_def)

text \<open>a DNS message written to a stream with its length in front is read back unchanged, leaving the
  rest of the stream; only messages over 65535 bytes are refused.\<close>

theorem frame_read_back:
  "(case write_framed wire of
      Inr bs \<Rightarrow> read_frame (bs @ rest) = Inr (wire, rest)
    | Inl _ \<Rightarrow> length wire > 65535) \<and> (length wire \<le> 65535 \<longrightarrow> (\<exists>bs. write_framed wire = Inr bs))"
  using frame_round_trip [of wire _ rest] by (cases "length wire > 65535") (simp_all add: write_framed_def)

theorem frame_read_back_witness: "\<exists>bs. write_framed [1, 2, 3] = Inr bs"
  using frame_read_back [of "[1, 2, 3]" "[]"] by simp

end
