(* ===== verification/Stats_History.thy ===== *)
theory Stats_History
  imports Prelude
begin

text \<open>
  \<open>stats/history.rs\<close>: metric counts in ten-minute buckets over a sliding window, with the window
  totals and the per-domain tables kept up to date as buckets enter and leave. A hash map is an
  association list with distinct keys; the counters are natural numbers, so that a subtraction
  below zero would show as a wrong total.
\<close>

section \<open>Model\<close>

datatype metric = Requests | Blocked | Errors | DnsQueries | DnsBlocked | DnsCached

definition all_metrics :: "metric list" where
  "all_metrics = [Requests, Blocked, Errors, DnsQueries, DnsBlocked, DnsCached]"

fun metric_key :: "metric \<Rightarrow> string" where
  "metric_key Requests = ''requests''"
| "metric_key Blocked = ''blocked''"
| "metric_key Errors = ''errors''"
| "metric_key DnsQueries = ''dns_queries''"
| "metric_key DnsBlocked = ''dns_blocked''"
| "metric_key DnsCached = ''dns_cached''"

datatype table = TQueried | TBlocked

fun domain_table :: "metric \<Rightarrow> table option" where
  "domain_table Requests = Some TQueried"
| "domain_table DnsQueries = Some TQueried"
| "domain_table Blocked = Some TBlocked"
| "domain_table DnsBlocked = Some TBlocked"
| "domain_table Errors = None"
| "domain_table DnsCached = None"

definition BUCKET_SECS :: nat where "BUCKET_SECS = 600"
definition BUCKETS_PER_HOUR :: nat where "BUCKETS_PER_HOUR = 6"
definition WINDOW_BUCKETS :: nat where "WINDOW_BUCKETS = 24 * BUCKETS_PER_HOUR"
definition TOP_N :: nat where "TOP_N = 25"

type_synonym counts = "(string \<times> nat) list"

record bucket =
  b_idx :: nat
  b_counts :: "metric \<Rightarrow> nat"
  b_queried :: counts
  b_blocked :: counts

definition new_bucket :: "nat \<Rightarrow> bucket" where
  "new_bucket i = \<lparr>b_idx = i, b_counts = (\<lambda>_. 0), b_queried = [], b_blocked = []\<rparr>"

record history =
  buckets :: "bucket list"
  totals :: "metric \<Rightarrow> nat"
  h_queried :: counts
  h_blocked :: counts
  window_buckets :: nat

definition new_history :: history where
  "new_history = \<lparr>buckets = [], totals = (\<lambda>_. 0), h_queried = [], h_blocked = [],
     window_buckets = WINDOW_BUCKETS\<rparr>"

text \<open>\<open>*entry(d).or_insert(0) += 1\<close>\<close>

fun bump_key :: "string \<Rightarrow> counts \<Rightarrow> counts" where
  "bump_key d [] = [(d, 1)]"
| "bump_key d ((e, n) # m) = (if e = d then (e, n + 1) # m else (e, n) # bump_key d m)"

text \<open>One round of the loop in \<open>subtract\<close>.\<close>

fun sub_key :: "string \<times> nat \<Rightarrow> counts \<Rightarrow> counts" where
  "sub_key (d, k) [] = []"
| "sub_key (d, k) ((e, n) # m) =
     (if e = d then (if n - k = 0 then m else (e, n - k) # m) else (e, n) # sub_key (d, k) m)"

definition subtract :: "counts \<Rightarrow> counts \<Rightarrow> counts" where
  "subtract window expired = fold sub_key expired window"

definition drop_bucket :: "bucket \<Rightarrow> history \<Rightarrow> history" where
  "drop_bucket b h =
     h\<lparr>buckets := tl (buckets h),
       totals := (\<lambda>m. totals h m - b_counts b m),
       h_queried := subtract (h_queried h) (b_queried b),
       h_blocked := subtract (h_blocked h) (b_blocked b)\<rparr>"

function rotate_to :: "nat \<Rightarrow> history \<Rightarrow> history" where
  "rotate_to i h =
     (case buckets h of
        [] \<Rightarrow> h
      | b # _ \<Rightarrow> if b_idx b + window_buckets h \<le> i then rotate_to i (drop_bucket b h) else h)"
  by pat_completeness auto
termination
  by (relation "measure (\<lambda>(i, h). length (buckets h))") (auto simp: drop_bucket_def)

declare rotate_to.simps [simp del]

definition ensure_bucket :: "nat \<Rightarrow> history \<Rightarrow> history" where
  "ensure_bucket i h =
     (if buckets h = [] \<or> b_idx (last (buckets h)) \<noteq> i
      then h\<lparr>buckets := buckets h @ [new_bucket i]\<rparr> else h)"

definition bump_bucket :: "metric \<Rightarrow> string \<Rightarrow> bucket \<Rightarrow> bucket" where
  "bump_bucket m d b =
     (let b1 = b\<lparr>b_counts := (b_counts b)(m := b_counts b m + 1)\<rparr> in
      if d = [] then b1
      else case domain_table m of
        None \<Rightarrow> b1
      | Some TQueried \<Rightarrow> b1\<lparr>b_queried := bump_key d (b_queried b)\<rparr>
      | Some TBlocked \<Rightarrow> b1\<lparr>b_blocked := bump_key d (b_blocked b)\<rparr>)"

definition bump_window :: "metric \<Rightarrow> string \<Rightarrow> history \<Rightarrow> history" where
  "bump_window m d h =
     (let h1 = h\<lparr>totals := (totals h)(m := totals h m + 1)\<rparr> in
      if d = [] then h1
      else case domain_table m of
        None \<Rightarrow> h1
      | Some TQueried \<Rightarrow> h1\<lparr>h_queried := bump_key d (h_queried h)\<rparr>
      | Some TBlocked \<Rightarrow> h1\<lparr>h_blocked := bump_key d (h_blocked h)\<rparr>)"

definition record_at :: "nat \<Rightarrow> metric \<Rightarrow> string \<Rightarrow> history \<Rightarrow> history" where
  "record_at now m d h =
     (let i = now div BUCKET_SECS; h1 = ensure_bucket i (rotate_to i h)
      in bump_window m d
           (h1\<lparr>buckets := butlast (buckets h1) @ [bump_bucket m d (last (buckets h1))]\<rparr>))"

definition reset_history :: "history \<Rightarrow> history" where
  "reset_history h = new_history\<lparr>window_buckets := window_buckets h\<rparr>"

definition set_retention_hours :: "u32 \<Rightarrow> history \<Rightarrow> history" where
  "set_retention_hours hours h = h\<lparr>window_buckets := unat hours * BUCKETS_PER_HOUR\<rparr>"

definition retention_hours :: "history \<Rightarrow> u32" where
  "retention_hours h = of_nat (window_buckets h div BUCKETS_PER_HOUR)"

record snapshot =
  sn_bucket_secs :: nat
  sn_totals :: "metric \<Rightarrow> nat"
  sn_series :: "metric \<Rightarrow> nat list"
  sn_top_queried :: counts
  sn_top_blocked :: counts

text \<open>\<open>sort_unstable_by\<close> on count, greatest first, then on the name: no two entries compare equal,
  so the result does not depend on the iteration order of the map.\<close>

definition top :: "counts \<Rightarrow> counts" where
  "top m = take TOP_N (sort_key (\<lambda>(d, n). (- int n, d)) m)"

text \<open>The position a bucket is plotted at. \<open>idx - b.idx\<close> and \<open>window - 1 - age\<close> are unsigned, and
  the array access is checked: \<open>None\<close> is the panic.\<close>

definition plot_pos :: "nat \<Rightarrow> nat \<Rightarrow> bucket \<Rightarrow> nat option" where
  "plot_pos i window b =
     (if b_idx b \<le> i \<and> i - b_idx b < window then Some (window - 1 - (i - b_idx b)) else None)"

fun plot :: "nat \<Rightarrow> nat \<Rightarrow> bucket list \<Rightarrow> (metric \<Rightarrow> nat list) \<Rightarrow> (metric \<Rightarrow> nat list) option" where
  "plot i window [] series = Some series"
| "plot i window (b # bs) series =
     (case plot_pos i window b of
        None \<Rightarrow> None
      | Some pos \<Rightarrow> plot i window bs (\<lambda>m. (series m)[pos := b_counts b m]))"

definition snapshot_at :: "nat \<Rightarrow> history \<Rightarrow> snapshot option \<times> history" where
  "snapshot_at now h =
     (let i = now div BUCKET_SECS; h1 = rotate_to i h; window = window_buckets h1
      in (map_option (\<lambda>series.
            \<lparr>sn_bucket_secs = BUCKET_SECS, sn_totals = totals h1, sn_series = series,
             sn_top_queried = top (h_queried h1), sn_top_blocked = top (h_blocked h1)\<rparr>)
            (plot i window (buckets h1) (\<lambda>_. replicate window 0)), h1))"

section \<open>Tables\<close>

definition tally :: "counts \<Rightarrow> string \<Rightarrow> nat" where
  "tally m d = (case map_of m d of None \<Rightarrow> 0 | Some n \<Rightarrow> n)"

definition wf_counts :: "counts \<Rightarrow> bool" where
  "wf_counts m \<longleftrightarrow> distinct (map fst m) \<and> list_all (\<lambda>(d, n). 0 < n) m"

lemma tally_Nil [simp]: "tally [] d = 0"
  by (simp add: tally_def)

lemma tally_Cons: "tally ((e, n) # m) d = (if d = e then n else tally m d)"
  by (simp add: tally_def)

lemma tally_notin: "d \<notin> fst ` set m \<Longrightarrow> tally m d = 0"
  by (simp add: tally_def map_of_eq_None_iff [symmetric] split: option.splits)

lemma tally_bump: "tally (bump_key d m) e = tally m e + (if e = d then 1 else 0)"
  by (induction d m rule: bump_key.induct) (auto simp: tally_Cons)

lemma fst_bump: "fst ` set (bump_key d m) = insert d (fst ` set m)"
  by (induction d m rule: bump_key.induct) auto

lemma wf_bump: "wf_counts m \<Longrightarrow> wf_counts (bump_key d m)"
  by (induction d m rule: bump_key.induct) (auto simp: wf_counts_def fst_bump)

lemma fst_sub: "fst ` set (sub_key p m) \<subseteq> fst ` set m"
  by (induction p m rule: sub_key.induct) auto

lemma wf_sub: "wf_counts m \<Longrightarrow> wf_counts (sub_key p m)"
proof (induction p m rule: sub_key.induct)
  case (2 d k e n m)
  then have "wf_counts m" "e \<notin> fst ` set m" "0 < n" by (simp_all add: wf_counts_def)
  moreover from this have "e \<notin> fst ` set (sub_key (d, k) m)" using fst_sub by blast
  ultimately show ?case using 2 by (auto simp: wf_counts_def)
qed simp

lemma tally_sub:
  "wf_counts m \<Longrightarrow> tally (sub_key (d, k) m) e = tally m e - (if e = d then k else 0)"
proof (induction m)
  case (Cons p m)
  then show ?case by (cases p) (auto simp: tally_Cons wf_counts_def tally_notin)
qed simp

lemma tally_subtract:
  "wf_counts w \<Longrightarrow> wf_counts x \<Longrightarrow> tally (subtract w x) d = tally w d - tally x d"
proof (induction x arbitrary: w)
  case (Cons p x)
  obtain e k where p: "p = (e, k)" by (cases p)
  have x: "wf_counts x" "e \<notin> fst ` set x" using Cons.prems(2) by (auto simp: wf_counts_def p)
  have "tally (subtract w (p # x)) d = tally (sub_key (e, k) w) d - tally x d"
    using Cons.IH [of "sub_key (e, k) w"] Cons.prems(1) x by (simp add: subtract_def p wf_sub)
  also have "\<dots> = tally w d - tally (p # x) d"
    using Cons.prems(1) x by (auto simp: tally_sub p tally_Cons tally_notin)
  finally show ?case .
qed (simp add: subtract_def)

lemma wf_subtract: "wf_counts w \<Longrightarrow> wf_counts (subtract w x)"
  by (induction x arbitrary: w) (auto simp: subtract_def wf_sub)

section \<open>The invariant\<close>

text \<open>Totals and tables are the sums over the buckets.\<close>

definition sums_ok :: "history \<Rightarrow> bool" where
  "sums_ok h \<longleftrightarrow>
     (\<forall>m. totals h m = sum_list (map (\<lambda>b. b_counts b m) (buckets h))) \<and>
     (\<forall>d. tally (h_queried h) d = sum_list (map (\<lambda>b. tally (b_queried b) d) (buckets h))) \<and>
     (\<forall>d. tally (h_blocked h) d = sum_list (map (\<lambda>b. tally (b_blocked b) d) (buckets h))) \<and>
     wf_counts (h_queried h) \<and> wf_counts (h_blocked h) \<and>
     list_all (\<lambda>b. wf_counts (b_queried b) \<and> wf_counts (b_blocked b)) (buckets h)"

lemma sums_ok_new: "sums_ok new_history"
  by (simp add: sums_ok_def new_history_def wf_counts_def)

lemma sums_ok_drop: "sums_ok h \<Longrightarrow> buckets h = b # bs \<Longrightarrow> sums_ok (drop_bucket b h)"
  by (simp add: sums_ok_def drop_bucket_def tally_subtract wf_subtract)

lemma sums_ok_rotate: "sums_ok h \<Longrightarrow> sums_ok (rotate_to i h)"
proof (induction i h rule: rotate_to.induct)
  case (1 i h)
  show ?case
    by (subst rotate_to.simps) (use 1 sums_ok_drop in \<open>auto split: list.splits\<close>)
qed

lemma sums_ok_ensure: "sums_ok h \<Longrightarrow> sums_ok (ensure_bucket i h)"
  by (simp add: sums_ok_def ensure_bucket_def new_bucket_def wf_counts_def)

lemma bump_bucket_counts: "b_counts (bump_bucket m d b) k = b_counts b k + (if k = m then 1 else 0)"
  by (auto simp: bump_bucket_def Let_def split: option.splits table.splits)

lemma bump_window_counts: "totals (bump_window m d h) k = totals h k + (if k = m then 1 else 0)"
  by (auto simp: bump_window_def Let_def split: option.splits table.splits)

lemma bump_window_buckets [simp]:
  "buckets (bump_window m d h) = buckets h" "window_buckets (bump_window m d h) = window_buckets h"
  by (auto simp: bump_window_def Let_def split: option.splits table.splits)

lemma bump_tables:
  "tally (b_queried (bump_bucket m d b)) e = tally (b_queried b) e
     + (if d \<noteq> [] \<and> domain_table m = Some TQueried \<and> e = d then 1 else 0)"
  "tally (b_blocked (bump_bucket m d b)) e = tally (b_blocked b) e
     + (if d \<noteq> [] \<and> domain_table m = Some TBlocked \<and> e = d then 1 else 0)"
  "tally (h_queried (bump_window m d h)) e = tally (h_queried h) e
     + (if d \<noteq> [] \<and> domain_table m = Some TQueried \<and> e = d then 1 else 0)"
  "tally (h_blocked (bump_window m d h)) e = tally (h_blocked h) e
     + (if d \<noteq> [] \<and> domain_table m = Some TBlocked \<and> e = d then 1 else 0)"
  by (auto simp: bump_bucket_def bump_window_def Let_def tally_bump split: option.splits table.splits)

lemma bump_wf:
  "wf_counts (b_queried b) \<Longrightarrow> wf_counts (b_queried (bump_bucket m d b))"
  "wf_counts (b_blocked b) \<Longrightarrow> wf_counts (b_blocked (bump_bucket m d b))"
  "wf_counts (h_queried h) \<Longrightarrow> wf_counts (h_queried (bump_window m d h))"
  "wf_counts (h_blocked h) \<Longrightarrow> wf_counts (h_blocked (bump_window m d h))"
  by (auto simp: bump_bucket_def bump_window_def Let_def wf_bump split: option.splits table.splits)

lemma ensure_bucket_ne: "buckets (ensure_bucket i h) \<noteq> []"
  by (auto simp: ensure_bucket_def)

lemma sums_ok_bump:
  assumes "sums_ok h" "buckets h = bs @ [b]"
  shows "sums_ok (bump_window m d (h\<lparr>buckets := bs @ [bump_bucket m d b]\<rparr>))"
  using assms by (simp add: sums_ok_def bump_window_counts bump_bucket_counts bump_tables bump_wf)

theorem sums_ok_record: "sums_ok h \<Longrightarrow> sums_ok (record_at now m d h)"
proof -
  assume "sums_ok h"
  then have s: "sums_ok (ensure_bucket i (rotate_to i h))" for i
    by (intro sums_ok_ensure sums_ok_rotate)
  let ?h = "ensure_bucket (now div BUCKET_SECS) (rotate_to (now div BUCKET_SECS) h)"
  have "buckets ?h = butlast (buckets ?h) @ [last (buckets ?h)]"
    using ensure_bucket_ne by simp
  from sums_ok_bump [OF s this] show ?thesis by (simp add: record_at_def Let_def)
qed

section \<open>The window\<close>

text \<open>With a clock that does not run backwards the buckets are in order, and after a rotation all
  of them lie in the window.\<close>

definition in_order :: "nat \<Rightarrow> history \<Rightarrow> bool" where
  "in_order i h \<longleftrightarrow> sorted_wrt (<) (map b_idx (buckets h)) \<and> (\<forall>b \<in> set (buckets h). b_idx b \<le> i)"

definition in_window :: "nat \<Rightarrow> history \<Rightarrow> bool" where
  "in_window i h \<longleftrightarrow> (\<forall>b \<in> set (buckets h). i < b_idx b + window_buckets h)"

lemma window_rotate [simp]: "window_buckets (rotate_to i h) = window_buckets h"
proof (induction i h rule: rotate_to.induct)
  case (1 i h)
  then show ?case by (subst rotate_to.simps) (auto simp: drop_bucket_def split: list.splits)
qed

lemma rotate_buckets:
  "buckets (rotate_to i h) = dropWhile (\<lambda>b. b_idx b + window_buckets h \<le> i) (buckets h)"
proof (induction i h rule: rotate_to.induct)
  case (1 i h)
  then show ?case
    by (subst rotate_to.simps) (auto simp: drop_bucket_def split: list.splits)
qed

lemma in_order_rotate: "in_order j h \<Longrightarrow> in_order j (rotate_to i h)"
proof -
  assume o: "in_order j h"
  have "\<exists>n. buckets (rotate_to i h) = drop n (buckets h)"
    by (metis rotate_buckets dropWhile_eq_drop)
  then obtain n where n: "buckets (rotate_to i h) = drop n (buckets h)" by blast
  show ?thesis
    using o by (auto simp: in_order_def n drop_map [symmetric] intro: sorted_wrt_drop dest: in_set_dropD)
qed

lemma in_window_rotate: "in_order j h \<Longrightarrow> in_window i (rotate_to i h)"
proof -
  assume o: "in_order j h"
  have "\<forall>b \<in> set (dropWhile (\<lambda>b. b_idx b + w \<le> i) bs). i < b_idx b + w"
    if "sorted_wrt (<) (map b_idx bs)" for bs w
    using that
  proof (induction bs)
    case (Cons a bs)
    show ?case
    proof (cases "b_idx a + w \<le> i")
      case False
      moreover have "b_idx a < b_idx b" if "b \<in> set bs" for b using Cons.prems that by simp
      ultimately show ?thesis by fastforce
    qed (use Cons in simp)
  qed simp
  with o show ?thesis unfolding in_window_def rotate_buckets window_rotate in_order_def by blast
qed

lemma in_order_record: "in_order i h \<Longrightarrow> i \<le> now div BUCKET_SECS \<Longrightarrow>
   in_order (now div BUCKET_SECS) (record_at now m d h)"
proof -
  assume o: "in_order i h" and le: "i \<le> now div BUCKET_SECS"
  let ?i = "now div BUCKET_SECS"
  have r: "in_order ?i (rotate_to ?i h)"
    using in_order_rotate [OF o, of ?i] le by (auto simp: in_order_def)
  have e: "in_order ?i (ensure_bucket ?i (rotate_to ?i h))"
  proof (cases "buckets (rotate_to ?i h)" rule: rev_cases)
    case (snoc bs b)
    then have "\<forall>x \<in> set bs. b_idx x < b_idx b" "b_idx b \<le> ?i"
      using r by (auto simp: in_order_def sorted_wrt_append)
    then show ?thesis
      using r snoc by (auto simp: in_order_def ensure_bucket_def new_bucket_def sorted_wrt_append)
  qed (simp add: in_order_def ensure_bucket_def new_bucket_def)
  have "b_idx (bump_bucket m d b) = b_idx b" for b
    by (auto simp: bump_bucket_def Let_def split: option.splits table.splits)
  moreover obtain bs b where "buckets (ensure_bucket ?i (rotate_to ?i h)) = bs @ [b]"
    by (metis ensure_bucket_ne rev_exhaust)
  ultimately show ?thesis using e by (auto simp: record_at_def Let_def in_order_def)
qed

section \<open>Snapshots\<close>

lemma plot_Some:
  assumes "\<forall>b \<in> set bs. b_idx b \<le> i \<and> i < b_idx b + w"
  shows "\<exists>ser. plot i w bs series = Some ser"
  using assms
proof (induction bs arbitrary: series)
  case (Cons b bs)
  then have "b_idx b \<le> i" "i - b_idx b < w" by auto
  with Cons show ?case by (simp add: plot_pos_def)
qed simp

lemma plot_None: "b \<in> set bs \<Longrightarrow> i < b_idx b \<Longrightarrow> plot i w bs series = None"
  by (induction bs arbitrary: series) (auto simp: plot_pos_def)

text \<open>Plotting into distinct free positions adds the bucket's counts to the sum of the series.\<close>

lemma sum_list_update_0: "p < length xs \<Longrightarrow> xs ! p = 0 \<Longrightarrow> sum_list (xs[p := v]) = sum_list xs + (v :: nat)"
  by (simp add: sum_list_update)

lemma plot_sum:
  assumes "plot i w bs series = Some ser"
    and "sorted_wrt (<) (map b_idx bs)" "length (series m) = w"
    and "\<forall>b \<in> set bs. \<forall>p. plot_pos i w b = Some p \<longrightarrow> series m ! p = 0"
  shows "length (ser m) = w \<and> sum_list (ser m) = sum_list (series m) + sum_list (map (\<lambda>b. b_counts b m) bs)"
  using assms
proof (induction bs arbitrary: series)
  case (Cons b bs)
  obtain p where p: "plot_pos i w b = Some p"
    using Cons.prems(1) by (cases "plot_pos i w b") auto
  let ?s = "\<lambda>m. (series m)[p := b_counts b m]"
  have pw: "p < w" "b_idx b \<le> i" "i - b_idx b < w" "p = w - 1 - (i - b_idx b)"
    using p by (auto simp: plot_pos_def split: if_splits)
  have "\<forall>x \<in> set bs. \<forall>q. plot_pos i w x = Some q \<longrightarrow> ?s m ! q = 0"
  proof (intro ballI allI impI)
    fix x q assume x: "x \<in> set bs" "plot_pos i w x = Some q"
    then have "b_idx b < b_idx x" using Cons.prems(2) by simp
    with x(2) pw have "q \<noteq> p" by (auto simp: plot_pos_def split: if_splits)
    with x Cons.prems(4) show "?s m ! q = 0" by simp
  qed
  moreover have "series m ! p = 0" using Cons.prems(4) p by simp
  ultimately show ?case
    using Cons.IH [of ?s] Cons.prems(1-3) p pw(1) by (simp add: sum_list_update_0)
qed simp

lemma plot_pos_bound: "plot_pos i w b = Some p \<Longrightarrow> p < w"
  by (auto simp: plot_pos_def split: if_splits)

lemma snapshot_ok:
  assumes "sums_ok h" "in_order i h" "i \<le> now div BUCKET_SECS"
  shows "\<exists>sn. fst (snapshot_at now h) = Some sn \<and>
    (\<forall>m. length (sn_series sn m) = window_buckets h \<and> sum_list (sn_series sn m) = sn_totals sn m)"
proof -
  let ?i = "now div BUCKET_SECS"
  let ?h = "rotate_to ?i h"
  have o: "in_order ?i ?h" using in_order_rotate [OF assms(2), of ?i] assms(3) by (auto simp: in_order_def)
  have w: "in_window ?i ?h" using assms(2) by (rule in_window_rotate)
  have s: "sums_ok ?h" using assms(1) by (rule sums_ok_rotate)
  obtain ser where p: "plot ?i (window_buckets h) (buckets ?h) (\<lambda>_. replicate (window_buckets h) 0) = Some ser"
    using plot_Some [of "buckets ?h" ?i "window_buckets h"] o w
    unfolding in_order_def in_window_def window_rotate by blast
  have "length (ser m) = window_buckets h \<and> sum_list (ser m) = totals ?h m" for m
  proof -
    have "\<forall>b \<in> set (buckets ?h). \<forall>q. plot_pos ?i (window_buckets h) b = Some q \<longrightarrow>
        replicate (window_buckets h) (0 :: nat) ! q = 0"
      using plot_pos_bound by simp
    with plot_sum [OF p, of m] o show ?thesis
      using s by (simp add: in_order_def sums_ok_def sum_list_replicate)
  qed
  with p show ?thesis by (simp add: snapshot_at_def Let_def)
qed

lemma top_length: "length (top m) \<le> TOP_N"
  by (simp add: top_def)

lemma top_subset: "set (top m) \<subseteq> set m"
  by (auto simp: top_def dest: in_set_takeD)

text \<open>What the table leaves out never counts more than what it shows.\<close>

lemma top_greatest:
  assumes "(d, n) \<in> set (top m)" "(e, k) \<in> set m" "(e, k) \<notin> set (top m)"
  shows "k \<le> n"
proof -
  let ?f = "\<lambda>(d, n). (- int n, d :: string)"
  let ?s = "sort_key ?f m"
  have "set ?s = set (take TOP_N ?s) \<union> set (drop TOP_N ?s)"
    unfolding set_append [symmetric] append_take_drop_id ..
  moreover have "(e, k) \<in> set ?s" using assms(2) by simp
  ultimately have "(e, k) \<in> set (drop TOP_N ?s)"
    using assms(3) unfolding top_def by blast
  then have "?f (e, k) \<in> set (map ?f (drop TOP_N ?s))" unfolding set_map by (rule imageI)
  moreover have "?f (d, n) \<in> set (map ?f (take TOP_N ?s))"
    using assms(1) unfolding top_def set_map by (rule imageI)
  moreover have "sorted (map ?f (take TOP_N ?s) @ map ?f (drop TOP_N ?s))"
    unfolding map_append [symmetric] append_take_drop_id by (rule sorted_sort_key)
  ultimately have "?f (d, n) \<le> ?f (e, k)" unfolding sorted_append by blast
  then show ?thesis by (simp only: prod.case less_eq_prod_simp) linarith
qed

section \<open>The window of events\<close>

text \<open>The abstract view: the events recorded so far, oldest first, with the second they happened in. The
  counters are a function of the events of the window.\<close>

type_synonym count_event = "nat \<times> metric \<times> string"

definition run_events :: "nat \<Rightarrow> count_event list \<Rightarrow> history" where
  "run_events w es = fold (\<lambda>(t, m, d). record_at t m d) es (new_history\<lparr>window_buckets := w\<rparr>)"

definition events_at :: "count_event list \<Rightarrow> nat \<Rightarrow> metric \<Rightarrow> nat" where
  "events_at es j m = length (filter (\<lambda>(t, k, d). t div BUCKET_SECS = j \<and> k = m) es)"

definition bucket_sum :: "bucket list \<Rightarrow> nat \<Rightarrow> metric \<Rightarrow> nat" where
  "bucket_sum bs j m = sum_list (map (\<lambda>b. if b_idx b = j then b_counts b m else 0) bs)"

definition tracks :: "nat \<Rightarrow> count_event list \<Rightarrow> history \<Rightarrow> bool" where
  "tracks i es h \<longleftrightarrow> (\<forall>j m. i < j + window_buckets h \<longrightarrow> bucket_sum (buckets h) j m = events_at es j m)"

lemma bucket_sum_dropWhile:
  "i < j + w \<Longrightarrow> bucket_sum (dropWhile (\<lambda>b. b_idx b + w \<le> i) bs) j m = bucket_sum bs j m"
  by (induction bs) (auto simp: bucket_sum_def)

lemma tracks_rotate:
  assumes "tracks k es h" "k \<le> i"
  shows "tracks i es (rotate_to i h)"
  using assms by (auto simp: tracks_def rotate_buckets bucket_sum_dropWhile)

lemma bucket_sum_append: "bucket_sum (xs @ ys) j m = bucket_sum xs j m + bucket_sum ys j m"
  by (simp add: bucket_sum_def)

lemma bucket_sum_ensure: "bucket_sum (buckets (ensure_bucket i h)) j m = bucket_sum (buckets h) j m"
  by (simp add: ensure_bucket_def bucket_sum_append) (simp add: bucket_sum_def new_bucket_def)

lemma window_ensure [simp]: "window_buckets (ensure_bucket i h) = window_buckets h"
  by (simp add: ensure_bucket_def)

lemma ensure_last: "b_idx (last (buckets (ensure_bucket i h))) = i"
  by (simp add: ensure_bucket_def new_bucket_def)

lemma bump_bucket_idx [simp]: "b_idx (bump_bucket m d b) = b_idx b"
  by (auto simp: bump_bucket_def Let_def split: option.splits table.splits)

lemma record_buckets:
  assumes "i = now div BUCKET_SECS" "h1 = ensure_bucket i (rotate_to i h)"
  shows "buckets (record_at now m d h) = butlast (buckets h1) @ [bump_bucket m d (last (buckets h1))]"
    and "window_buckets (record_at now m d h) = window_buckets h"
  by (simp_all add: record_at_def Let_def assms)

lemma tracks_record:
  assumes "tracks k es h" "k \<le> now div BUCKET_SECS"
  shows "tracks (now div BUCKET_SECS) (es @ [(now, m, d)]) (record_at now m d h)"
proof -
  let ?i = "now div BUCKET_SECS"
  let ?h = "ensure_bucket ?i (rotate_to ?i h)"
  note r = record_buckets [OF refl refl, of now m d h]
  have split: "bucket_sum (buckets ?h) j k = bucket_sum (butlast (buckets ?h)) j k + bucket_sum [last (buckets ?h)] j k" for j k
    using append_butlast_last_id [OF ensure_bucket_ne, of ?i "rotate_to ?i h"] bucket_sum_append by metis
  have bump: "bucket_sum [bump_bucket m d (last (buckets ?h))] j k =
      bucket_sum [last (buckets ?h)] j k + (if j = ?i \<and> k = m then 1 else 0)" for j k
    by (simp add: bucket_sum_def bump_bucket_counts ensure_last)
  have new: "bucket_sum (buckets (record_at now m d h)) j k = bucket_sum (buckets ?h) j k + (if j = ?i \<and> k = m then 1 else 0)" for j k
    unfolding r(1) bucket_sum_append bump split by simp
  have "tracks ?i es (rotate_to ?i h)" using assms by (rule tracks_rotate)
  then show ?thesis
    by (simp add: tracks_def r(2) new bucket_sum_ensure) (simp add: events_at_def)
qed

lemma run_events_inv:
  assumes "sorted (map fst es)" "\<forall>e \<in> set es. fst e \<le> now"
  shows "sums_ok (run_events w es) \<and> in_order (now div BUCKET_SECS) (run_events w es) \<and>
    tracks (now div BUCKET_SECS) es (run_events w es) \<and> window_buckets (run_events w es) = w"
  using assms
proof (induction es arbitrary: now rule: rev_induct)
  case Nil
  show ?case
    by (simp add: run_events_def new_history_def sums_ok_def in_order_def tracks_def bucket_sum_def events_at_def
        wf_counts_def)
next
  case (snoc e es)
  obtain t m d where e: "e = (t, m, d)" by (cases e)
  have le: "t \<le> now" and s: "sorted (map fst es)" "\<forall>x \<in> set es. fst x \<le> t"
    using snoc.prems by (auto simp: e sorted_append)
  let ?h = "run_events w es"
  have IH: "sums_ok ?h" "in_order (t div BUCKET_SECS) ?h" "tracks (t div BUCKET_SECS) es ?h" "window_buckets ?h = w"
    using snoc.IH [OF s] by simp_all
  have step: "run_events w (es @ [e]) = record_at t m d ?h" by (simp add: run_events_def e)
  have le2: "t div BUCKET_SECS \<le> now div BUCKET_SECS" using le by (rule div_le_mono)
  have "in_order (now div BUCKET_SECS) (record_at t m d ?h)"
    using in_order_record [OF IH(2) order_refl, of m d] le2 by (auto simp: in_order_def)
  moreover have "tracks (now div BUCKET_SECS) (es @ [e]) (record_at t m d ?h)"
    using tracks_record [OF IH(3) order_refl, of m d] le2 by (auto simp: tracks_def e)
  ultimately show ?case
    using sums_ok_record [OF IH(1)] record_buckets(2) [OF refl refl, of t m d ?h] IH(4) by (simp add: step)
qed

lemma sum_filter_index:
  assumes "finite S"
  shows "(\<Sum>j\<in>S. length (filter (\<lambda>x. f x = j \<and> P x) xs)) = length (filter (\<lambda>x. f x \<in> S \<and> P x) xs)"
proof (induction xs)
  case (Cons x xs)
  have "(\<Sum>j\<in>S. length (filter (\<lambda>x. f x = j \<and> P x) (x # xs)))
      = (\<Sum>j\<in>S. length (filter (\<lambda>x. f x = j \<and> P x) xs) + (if f x = j \<and> P x then 1 else 0))"
    by (rule sum.cong) auto
  also have "\<dots> = length (filter (\<lambda>x. f x \<in> S \<and> P x) xs) + (\<Sum>j\<in>S. if f x = j \<and> P x then 1 else 0)"
    by (simp only: sum.distrib Cons)
  also have "(\<Sum>j\<in>S. if f x = j \<and> P x then 1 else 0) = (if f x \<in> S \<and> P x then 1 else (0 :: nat))"
    using assms by (cases "P x") simp_all
  finally show ?case by simp
qed simp

lemma sum_bucket_sum:
  assumes "finite S" "\<forall>b \<in> set bs. b_idx b \<in> S"
  shows "(\<Sum>j\<in>S. bucket_sum bs j m) = sum_list (map (\<lambda>b. b_counts b m) bs)"
  using assms(2)
proof (induction bs)
  case (Cons b bs)
  have "(\<Sum>j\<in>S. bucket_sum (b # bs) j m) = (\<Sum>j\<in>S. if b_idx b = j then b_counts b m else 0) + (\<Sum>j\<in>S. bucket_sum bs j m)"
    by (simp add: bucket_sum_def sum.distrib)
  also have "(\<Sum>j\<in>S. if b_idx b = j then b_counts b m else 0) = b_counts b m"
    using assms(1) Cons.prems by simp
  finally show ?case using Cons by simp
qed (simp add: bucket_sum_def)

lemma window_total:
  assumes "sums_ok h" "in_order i h" "in_window i h" "tracks i es h"
  shows "totals h m = length (filter (\<lambda>(t, k, d). t div BUCKET_SECS \<le> i \<and> i < t div BUCKET_SECS + window_buckets h \<and> k = m) es)"
proof -
  let ?S = "{j. j \<le> i \<and> i < j + window_buckets h}"
  have fin: "finite ?S" by (rule finite_subset [of _ "{..i}"]) auto
  have "totals h m = sum_list (map (\<lambda>b. b_counts b m) (buckets h))" using assms(1) by (simp add: sums_ok_def)
  also have "\<dots> = (\<Sum>j\<in>?S. bucket_sum (buckets h) j m)"
    using assms(2,3) by (intro sum_bucket_sum [OF fin, symmetric]) (auto simp: in_order_def in_window_def)
  also have "\<dots> = (\<Sum>j\<in>?S. events_at es j m)"
    using assms(4) by (intro sum.cong) (auto simp: tracks_def)
  also have "\<dots> = length (filter (\<lambda>x. fst x div BUCKET_SECS \<in> ?S \<and> fst (snd x) = m) es)"
    using sum_filter_index [OF fin, of "\<lambda>x. fst x div BUCKET_SECS" "\<lambda>x. fst (snd x) = m" es]
    by (simp add: events_at_def case_prod_unfold)
  finally show ?thesis by (simp add: case_prod_unfold conj_assoc)
qed

section \<open>Properties\<close>

text \<open>C3: after any events, in the order of the clock, a snapshot does not panic; for every metric its
  total is exactly the number of events whose ten-minute slot lies in the retention window, and
  the plotted series has one point per slot of the window and adds up to that total.\<close>

theorem snapshot_counts_window:
  assumes "sorted (map fst es)" "\<forall>e \<in> set es. fst e \<le> now"
  shows "\<exists>sn. fst (snapshot_at now (run_events w es)) = Some sn \<and> (\<forall>m.
    sn_totals sn m = length (filter (\<lambda>(t, k, d). now div BUCKET_SECS < t div BUCKET_SECS + w \<and> k = m) es) \<and>
    length (sn_series sn m) = w \<and> sum_list (sn_series sn m) = sn_totals sn m)"
proof -
  let ?i = "now div BUCKET_SECS"
  let ?h = "run_events w es"
  have inv: "sums_ok ?h" "in_order ?i ?h" "tracks ?i es ?h" "window_buckets ?h = w"
    using run_events_inv [OF assms, of w] by simp_all
  obtain sn where sn: "fst (snapshot_at now ?h) = Some sn"
    "\<forall>m. length (sn_series sn m) = w \<and> sum_list (sn_series sn m) = sn_totals sn m"
    using snapshot_ok [OF inv(1,2) order_refl] inv(4) by auto
  have "sn_totals sn = totals (rotate_to ?i ?h)" using sn(1) by (auto simp: snapshot_at_def Let_def)
  moreover have "totals (rotate_to ?i ?h) m =
      length (filter (\<lambda>(t, k, d). t div BUCKET_SECS \<le> ?i \<and> ?i < t div BUCKET_SECS + w \<and> k = m) es)" for m
    using window_total [OF sums_ok_rotate [OF inv(1)] in_order_rotate [OF inv(2)] in_window_rotate [OF inv(2)]
        tracks_rotate [OF inv(3) order_refl]] inv(4) by simp
  moreover have "filter (\<lambda>(t, k, d). t div BUCKET_SECS \<le> ?i \<and> ?i < t div BUCKET_SECS + w \<and> k = m) es
      = filter (\<lambda>(t, k, d). ?i < t div BUCKET_SECS + w \<and> k = m) es" for m
    using assms(2) by (intro filter_cong) (auto dest!: bspec intro!: div_le_mono)
  ultimately show ?thesis using sn by (intro exI [of _ sn]) simp
qed

theorem snapshot_counts_window_witness:
  "\<exists>sn. fst (snapshot_at 6200 (run_events 2 [(100, Requests, []), (5500, Requests, []), (6100, Blocked, ''x'')])) = Some sn
     \<and> sn_totals sn Requests = 1 \<and> sum_list (sn_series sn Requests) = 1"
proof -
  let ?es = "[(100, Requests, []), (5500, Requests, []), (6100, Blocked, ''x'')] :: count_event list"
  have "sorted (map fst ?es)" "\<forall>e \<in> set ?es. fst e \<le> 6200" by simp_all
  from snapshot_counts_window [OF this, of 2] show ?thesis by (force simp: BUCKET_SECS_def)
qed

text \<open>C28: a clock that runs backwards breaks the snapshot: with an event of a later slot still stored, the
  unsigned age of its bucket underflows and the snapshot panics.\<close>

theorem snapshot_panics_on_clock_step_back:
  assumes "now div BUCKET_SECS < t div BUCKET_SECS"
  shows "fst (snapshot_at now (run_events w [(t, m, d)])) = None"
proof -
  let ?h = "record_at t m d (new_history\<lparr>window_buckets := w\<rparr>)"
  let ?b = "bump_bucket m d (new_bucket (t div BUCKET_SECS))"
  have h: "buckets ?h = [?b]" "window_buckets ?h = w"
    by (simp_all add: record_at_def Let_def rotate_to.simps ensure_bucket_def new_history_def)
  have "b_idx ?b = t div BUCKET_SECS" by (simp add: new_bucket_def)
  then have "buckets (rotate_to (now div BUCKET_SECS) ?h) = [?b]"
    using assms by (simp add: rotate_buckets h)
  then show ?thesis
    using plot_None [of ?b "[?b]" "now div BUCKET_SECS"] assms
    by (simp add: snapshot_at_def run_events_def Let_def new_bucket_def)
qed

theorem snapshot_panics_on_clock_step_back_witness:
  "fst (snapshot_at 1199 (run_events 144 [(1200, Requests, [])])) = None"
  by (rule snapshot_panics_on_clock_step_back) (simp add: BUCKET_SECS_def)

text \<open>a top list has at most 25 entries, all of them from the table, and nothing it leaves out was
  counted more often than anything it shows.\<close>

theorem top_list_greatest:
  "length (top m) \<le> 25 \<and> set (top m) \<subseteq> set m \<and>
   (\<forall>p \<in> set (top m). \<forall>q \<in> set m. q \<notin> set (top m) \<longrightarrow> snd q \<le> snd p)"
  using top_length [of m] top_subset [of m] top_greatest [of _ _ m] by (auto simp: TOP_N_def)

theorem top_list_greatest_witness:
  "top [(''a'', 1), (''b'', 5)] = [(''b'', 5), (''a'', 1)] \<and> length (top [(''a'', 1), (''b'', 5)]) \<le> 25"
  using top_list_greatest [of "[(''a'', 1), (''b'', 5)]"] by (simp add: top_def TOP_N_def)

end
