(* ===== verification/Stats_Logs.thy ===== *)
theory Stats_Logs
  imports Json
begin

text \<open>
  \<open>stats/errors.rs\<close> and \<open>stats/logs.rs\<close>: the bounded error log and the rotating log files. The
  JSON encoders are parameters; whether a file operation succeeds is an argument of the step that
  performs it.
\<close>

section \<open>Events\<close>

datatype event_kind = EvBlocked | EvError | EvInfo

record event =
  ev_ts_ms :: u64
  ev_kind :: event_kind
  ev_message :: string
  ev_trace :: "string option"

section \<open>The error log\<close>

definition ERROR_LOG_CAP :: nat where
  "ERROR_LOG_CAP = 300"

text \<open>The ring, the number of lines the file is taken to have, and the file: its text, if the log
  has a path.\<close>

record error_log =
  ring :: "event list"
  file_lines :: nat
  has_path :: bool
  log_text :: string

definition error_log_memory :: error_log where
  "error_log_memory = \<lparr>ring = [], file_lines = 0, has_path = False, log_text = []\<rparr>"

text \<open>The \<open>while\<close> loops pop the front until the ring fits.\<close>

function trim_ring :: "event list \<Rightarrow> event list" where
  "trim_ring r = (if length r > ERROR_LOG_CAP then trim_ring (tl r) else r)"
  by pat_completeness auto
termination
  by (relation "measure length") (auto simp: ERROR_LOG_CAP_def)

declare trim_ring.simps [simp del]

text \<open>\<open>of_json\<close> is \<open>serde_json::from_str\<close> at \<open>Event\<close>, \<open>to_json\<close> its \<open>to_string\<close>.\<close>

definition error_log_load :: "(string \<Rightarrow> event option) \<Rightarrow> string option \<Rightarrow> error_log" where
  "error_log_load of_json file =
     (let text = unwrap_or file []
      in \<lparr>ring = trim_ring (List.map_filter of_json (lines text)), file_lines = length (lines text),
          has_path = True, log_text = text\<rparr>)"

definition error_body :: "(event \<Rightarrow> string option) \<Rightarrow> event list \<Rightarrow> string" where
  "error_body to_json r = concat (map (\<lambda>l. l @ [CHR 0x0A]) (List.map_filter to_json r))"

definition error_log_push :: "(event \<Rightarrow> string option) \<Rightarrow> bool \<Rightarrow> event \<Rightarrow> error_log \<Rightarrow> error_log" where
  "error_log_push to_json io_ok e g =
     (let r = trim_ring (ring g @ [e]); g1 = g\<lparr>ring := r\<rparr> in
      if \<not> has_path g then g1
      else if file_lines g \<ge> ERROR_LOG_CAP * 2
      then g1\<lparr>file_lines := length r,
              log_text := (if io_ok then error_body to_json r else log_text g)\<rparr>
      else g1\<lparr>file_lines := file_lines g + 1,
              log_text := (case to_json e of
                  Some l \<Rightarrow> if io_ok then log_text g @ l @ [CHR 0x0A] else log_text g
                | None \<Rightarrow> log_text g)\<rparr>)"

definition error_log_clear :: "bool \<Rightarrow> error_log \<Rightarrow> nat \<times> error_log" where
  "error_log_clear io_ok g =
     (length (ring g),
      g\<lparr>ring := [], file_lines := 0, log_text := (if io_ok then [] else log_text g)\<rparr>)"

lemma trim_ring_drop: "trim_ring r = drop (length r - ERROR_LOG_CAP) r"
proof (induction r rule: trim_ring.induct)
  case (1 r)
  show ?case
  proof (cases "length r > ERROR_LOG_CAP")
    case True
    then obtain x xs where r: "r = x # xs" by (cases r) auto
    with True 1 show ?thesis by (subst trim_ring.simps) (simp add: Suc_diff_le)
  qed (subst trim_ring.simps, simp)
qed

lemma trim_ring_length: "length (trim_ring r) \<le> ERROR_LOG_CAP"
  by (simp add: trim_ring_drop)

lemma drop_drop_snoc:
  "drop (length (drop (length xs - n) xs @ [y]) - n) (drop (length xs - n) xs @ [y])
   = drop (length xs + 1 - n) (xs @ [y])"
  by (cases "n \<le> length xs") (simp_all add: Suc_diff_le)

text \<open>The ring is the tail of everything pushed.\<close>

lemma push_ring: "ring (error_log_push to_json ok e g) = trim_ring (ring g @ [e])"
  by (simp add: error_log_push_def Let_def split: option.splits)

lemma push_ring_last [simp]: "last (ring (error_log_push to_json ok e g)) = e"
  by (simp add: push_ring trim_ring_drop last_drop ERROR_LOG_CAP_def)

lemma pushes_ring:
  "ring (fold (\<lambda>(ok, e). error_log_push to_json ok e) es g) = trim_ring (ring g @ map snd es)
   \<or> es = []"
proof (induction es rule: rev_induct)
  case (snoc p es)
  obtain ok e where p: "p = (ok, e)" by (cases p)
  have "trim_ring (trim_ring xs @ [e]) = trim_ring (xs @ [e])" for xs
    using drop_drop_snoc [of xs ERROR_LOG_CAP e] by (simp add: trim_ring_drop)
  with snoc show ?case by (cases "es = []") (simp_all add: p push_ring)
qed simp

lemma push_file_lines:
  "file_lines g \<le> ERROR_LOG_CAP * 2 \<Longrightarrow> file_lines (error_log_push to_json ok e g) \<le> ERROR_LOG_CAP * 2"
  using trim_ring_length [of "ring g @ [e]"]
  by (auto simp: error_log_push_def Let_def split: option.splits)

section \<open>Rotating log files\<close>

record rotating_log =
  cur_text :: string
  old_text :: string
  file_open :: bool
  started_ms :: "u64 option"
  rotate_ms :: u64
  queue :: "(u64 \<times> string) list"

definition hours_ms :: "u32 \<Rightarrow> u64" where
  "hours_ms h = ucast h * 3600000"

text \<open>\<open>parse_line\<close> is \<open>serde_json::from_str\<close> at \<open>Value\<close>. The first line keeps its newline, which
  is whitespace to the JSON parser.\<close>

fun first_line :: "string \<Rightarrow> string" where
  "first_line [] = []"
| "first_line (c # s) = (if c = CHR 0x0A then [c] else c # first_line s)"

definition first_line_ts :: "(string \<Rightarrow> json option) \<Rightarrow> string option \<Rightarrow> u64 option" where
  "first_line_ts parse_line file =
     Option.bind file (\<lambda>t. Option.bind (parse_line (first_line t)) (get_u64 ''ts_ms''))"

definition log_open :: "(string \<Rightarrow> json option) \<Rightarrow> string option \<Rightarrow> string option \<Rightarrow> u32 \<Rightarrow> rotating_log" where
  "log_open parse_line cur old hours =
     \<lparr>cur_text = unwrap_or cur [], old_text = unwrap_or old [], file_open = False,
      started_ms = first_line_ts parse_line cur, rotate_ms = hours_ms hours, queue = []\<rparr>"

definition set_rotate_hours :: "u32 \<Rightarrow> rotating_log \<Rightarrow> rotating_log" where
  "set_rotate_hours h g = g\<lparr>rotate_ms := hours_ms h\<rparr>"

definition append_line :: "u64 \<Rightarrow> string \<Rightarrow> rotating_log \<Rightarrow> rotating_log" where
  "append_line ts l g = g\<lparr>queue := queue g @ [(ts, l)]\<rparr>"

text \<open>How the file operations of one write turn out.\<close>

record log_io =
  rename_ok :: bool
  open_ok :: bool
  write_ok :: bool

definition rotation_due :: "u64 \<Rightarrow> rotating_log \<Rightarrow> bool" where
  "rotation_due ts g =
     (case started_ms g of None \<Rightarrow> False | Some s \<Rightarrow> rotate_ms g \<le> saturating_sub ts s)"

definition do_rotate :: "log_io \<Rightarrow> rotating_log \<Rightarrow> rotating_log" where
  "do_rotate io g =
     (if rename_ok io
      then g\<lparr>file_open := False, old_text := cur_text g, cur_text := [], started_ms := None\<rparr>
      else g\<lparr>file_open := False, started_ms := None\<rparr>)"

definition write_line :: "log_io \<Rightarrow> u64 \<Rightarrow> string \<Rightarrow> rotating_log \<Rightarrow> rotating_log" where
  "write_line io ts l g =
     (let g1 = (if rotation_due ts g then do_rotate io g else g) in
      if \<not> file_open g1 \<and> \<not> open_ok io then g1
      else let g2 = g1\<lparr>started_ms := Some (unwrap_or (started_ms g1) ts)\<rparr>
           in if write_ok io
              then g2\<lparr>file_open := True, cur_text := cur_text g2 @ l @ [CHR 0x0A]\<rparr>
              else g2\<lparr>file_open := False\<rparr>)"

text \<open>One turn of the writer thread.\<close>

definition writer_step :: "log_io \<Rightarrow> rotating_log \<Rightarrow> rotating_log" where
  "writer_step io g =
     (case queue g of [] \<Rightarrow> g | (ts, l) # q \<Rightarrow> write_line io ts l (g\<lparr>queue := q\<rparr>))"

text \<open>Lines of the two files, newest first.\<close>

definition newest_first :: "rotating_log \<Rightarrow> string list" where
  "newest_first g = rev (lines (cur_text g)) @ rev (lines (old_text g))"

fun page_lines ::
  "(string \<Rightarrow> u64 option) \<Rightarrow> u64 option \<Rightarrow> nat \<Rightarrow> string list \<Rightarrow> string list \<Rightarrow> string list" where
  "page_lines seq_of before limit [] out = out"
| "page_lines seq_of before limit (l # ls) out =
     (case seq_of l of
        None \<Rightarrow> page_lines seq_of before limit ls out
      | Some s \<Rightarrow>
          if (case before of Some b \<Rightarrow> b \<le> s | None \<Rightarrow> False)
          then page_lines seq_of before limit ls out
          else let out' = out @ [l] in
               if limit \<le> length out' then out' else page_lines seq_of before limit ls out')"

definition page :: "(string \<Rightarrow> u64 option) \<Rightarrow> u64 option \<Rightarrow> nat \<Rightarrow> rotating_log \<Rightarrow> string list" where
  "page seq_of before limit g =
     (if limit = 0 then [] else page_lines seq_of before limit (newest_first g) [])"

definition find_line :: "(string \<Rightarrow> bool) \<Rightarrow> rotating_log \<Rightarrow> string option" where
  "find_line p g =
     (case find p (rev (lines (cur_text g))) of
        Some l \<Rightarrow> Some l
      | None \<Rightarrow> find p (rev (lines (old_text g))))"

definition row_below :: "(string \<Rightarrow> u64 option) \<Rightarrow> u64 option \<Rightarrow> string \<Rightarrow> bool" where
  "row_below seq_of before l =
     (case seq_of l of None \<Rightarrow> False
      | Some s \<Rightarrow> (case before of Some b \<Rightarrow> s < b | None \<Rightarrow> True))"

lemma page_lines_take:
  "length out < limit \<Longrightarrow>
   page_lines seq_of before limit ls out = out @ take (limit - length out) (filter (row_below seq_of before) ls)"
proof (induction ls arbitrary: out)
  case (Cons l ls)
  show ?case
  proof (cases "row_below seq_of before l")
    case True
    then have "\<exists>s. seq_of l = Some s \<and> (case before of Some b \<Rightarrow> \<not> b \<le> s | None \<Rightarrow> True)"
      by (auto simp: row_below_def split: option.splits)
    then have step: "page_lines seq_of before limit (l # ls) out
        = (if limit \<le> length (out @ [l]) then out @ [l] else page_lines seq_of before limit ls (out @ [l]))"
      by (auto simp: Let_def split: option.splits)
    show ?thesis
    proof (cases "limit \<le> length (out @ [l])")
      case full: True
      then have "limit - length out = 1" using Cons.prems by simp
      with full step True show ?thesis by simp
    next
      case False
      with Cons.IH [of "out @ [l]"] step True show ?thesis
        by (simp add: take_Cons')
    qed
  next
    case False
    then have "page_lines seq_of before limit (l # ls) out = page_lines seq_of before limit ls out"
      by (auto simp: row_below_def split: option.splits)
    with Cons False show ?thesis by simp
  qed
qed simp

text \<open>A page is the first \<open>limit\<close> rows below the cursor, newest first.\<close>

lemma page_eq: "page seq_of before limit g = take limit (filter (row_below seq_of before) (newest_first g))"
  by (simp add: page_def page_lines_take)

lemma find_line_eq: "find_line p g = find p (newest_first g)"
proof -
  have "find p (xs @ ys) = (case find p xs of Some l \<Rightarrow> Some l | None \<Rightarrow> find p ys)" for xs ys
    by (induction xs) simp_all
  then show ?thesis by (simp add: find_line_def newest_first_def)
qed

section \<open>What the writer leaves in the files\<close>

definition nl_terminated :: "string \<Rightarrow> bool" where
  "nl_terminated t \<longleftrightarrow> t = [] \<or> last t = CHR 0x0A"

lemma lines_from_append:
  "lines_from acc (t @ CHR 0x0A # s) = lines_from acc (t @ [CHR 0x0A]) @ lines_from [] s"
  by (induction t arbitrary: acc) auto

lemma lines_append: "nl_terminated t \<Longrightarrow> lines (t @ s) = lines t @ lines s"
proof (cases t rule: rev_cases)
  case (snoc u c)
  moreover assume "nl_terminated t"
  ultimately have "t = u @ [CHR 0x0A]" by (simp add: nl_terminated_def)
  then show ?thesis using lines_from_append [of "[]" u s] by (simp add: lines_def)
qed simp

lemma lines_one: "printable_line l \<Longrightarrow> lines (l @ [CHR 0x0A]) = [l]"
  using lines_concat [of "[l]"] by simp

definition log_wf :: "rotating_log \<Rightarrow> bool" where
  "log_wf g \<longleftrightarrow> nl_terminated (cur_text g) \<and> nl_terminated (old_text g)"

lemma write_line_wf: "log_wf g \<Longrightarrow> log_wf (write_line io ts l g)"
  by (simp add: log_wf_def write_line_def do_rotate_def nl_terminated_def Let_def)

text \<open>A row written is the newest row; a rotation keeps the rows of the file it moves away.\<close>

lemma write_line_newest:
  assumes "log_wf g" "printable_line l" "open_ok io" "write_ok io" "rename_ok io"
  shows "newest_first (write_line io ts l g) =
    l # (if rotation_due ts g then rev (lines (cur_text g)) else newest_first g)"
  using assms lines_one [OF assms(2)]
  by (auto simp: write_line_def Let_def do_rotate_def newest_first_def log_wf_def lines_append)

section \<open>Properties\<close>

text \<open>the error log keeps exactly the 300 newest errors, in order, whatever happens to its file, and
  the line count it assumes for the file never exceeds twice that.\<close>

theorem error_ring_newest:
  "ring (fold (\<lambda>(ok, e). error_log_push to_json ok e) es error_log_memory) = drop (length es - 300) (map snd es) \<and>
   (file_lines g \<le> 600 \<longrightarrow> file_lines (error_log_push to_json ok e g) \<le> 600)"
proof
  show "ring (fold (\<lambda>(ok, e). error_log_push to_json ok e) es error_log_memory) = drop (length es - 300) (map snd es)"
    using pushes_ring [of to_json es error_log_memory]
    by (auto simp: error_log_memory_def trim_ring_drop ERROR_LOG_CAP_def)
  show "file_lines g \<le> 600 \<longrightarrow> file_lines (error_log_push to_json ok e g) \<le> 600"
    using push_file_lines [of g to_json ok e] by (simp add: ERROR_LOG_CAP_def)
qed

theorem error_ring_newest_witness:
  "file_lines (error_log_push (\<lambda>_. None) True \<lparr>ev_ts_ms = 1, ev_kind = EvError, ev_message = ''x'', ev_trace = None\<rparr>
     error_log_memory) \<le> 600"
  using error_ring_newest [of "\<lambda>_. None" "[]" error_log_memory] by (simp add: error_log_memory_def)

text \<open>a row that is written becomes the first row of the first page, in front of the rows there were
  before; when the write rotates the file, the rows of the file moved away stay readable.\<close>

theorem written_row_pages_first:
  assumes "log_wf g" "printable_line l" "open_ok io" "write_ok io" "rename_ok io" "seq_of l = Some n" "0 < limit"
  shows "page seq_of None limit (write_line io ts l g) =
    l # take (limit - 1) (filter (\<lambda>x. seq_of x \<noteq> None)
          (if rotation_due ts g then rev (lines (cur_text g)) else newest_first g))"
proof -
  have below: "row_below seq_of None = (\<lambda>x. seq_of x \<noteq> None)"
    by (auto simp: row_below_def split: option.splits)
  show ?thesis
    using assms(6,7)
    unfolding page_eq below write_line_newest [OF assms(1-5)] by (cases limit) simp_all
qed

theorem written_row_pages_first_witness:
  "page (\<lambda>_. Some 7) None 5 (write_line \<lparr>rename_ok = True, open_ok = True, write_ok = True\<rparr> 3 ''row''
     (log_open (\<lambda>_. None) (Some [CHR ''a'', CHR 0x0A]) None 24)) = [''row'', ''a'']"
proof -
  let ?g = "log_open (\<lambda>_. None) (Some [CHR ''a'', CHR 0x0A]) None 24"
  have "log_wf ?g" "printable_line ''row''"
    by (simp_all add: log_open_def log_wf_def nl_terminated_def printable_line_def)
  moreover have "\<not> rotation_due 3 ?g" "newest_first ?g = [''a'']"
    by code_simp+
  ultimately show ?thesis
    by (subst written_row_pages_first [where n = 7]) simp_all
qed

text \<open>a page holds the newest rows whose sequence number is readable and below the bound, at most as
  many as asked for, and paging on from a bound never repeats or reorders a row.\<close>

theorem page_is_filtered_prefix:
  "page seq_of before limit g = take limit (filter (row_below seq_of before) (rev (lines (old_text g) @ lines (cur_text g))))"
  using page_eq [of seq_of before limit g] by (simp add: newest_first_def)

end
