(* ===== verification/Stats_Exclude.thy ===== *)
theory Stats_Exclude
  imports Json
begin

text \<open>
  \<open>stats/exclude.rs\<close>: the domains kept out of the statistics. \<open>uni\<close> is the Unicode case mapping.
\<close>

definition se_normalize :: "(string \<Rightarrow> string) \<Rightarrow> string \<Rightarrow> string" where
  "se_normalize uni domain =
     (let d = to_lowercase uni (trim domain)
      in trim (trim_matches CHR ''.'' (unwrap_or (strip_prefix ''*.'' d) d)))"

definition se_entry :: "(string \<Rightarrow> string) \<Rightarrow> string entry" where
  "se_entry uni =
     \<lparr>entry_parse = (\<lambda>line. let d = se_normalize uni line in if d \<noteq> [] then Some d else None),
      entry_format = (\<lambda>d. d)\<rparr>"

definition se_header_lines :: "string list" where
  "se_header_lines =
     [''# Domains excluded from statistics and logging. Managed by the admin UI;'',
      ''# one host per line. Matches the exact host or any subdomain (a leading'',
      ''# *. is accepted and means the same thing).'']"

type_synonym stats_exclusions = "string persisted_set"

text \<open>\<open>sort\<close> then \<open>dedup\<close>.\<close>

definition sort_dedup :: "string list \<Rightarrow> string list" where
  "sort_dedup ds = dedup_key (\<lambda>d. d) (sort ds)"

definition se_load :: "(string \<Rightarrow> string) \<Rightarrow> path \<Rightarrow> disk \<Rightarrow> stats_exclusions" where
  "se_load uni p d = load_set (se_entry uni) p (join [CHR 0x0A] se_header_lines) sort_dedup d"

definition excludes :: "stats_exclusions \<Rightarrow> string \<Rightarrow> bool" where
  "excludes s host \<longleftrightarrow>
     host \<noteq> [] \<and> list_ex (\<lambda>d. host = d \<or> ends_with (''.'' @ d) host) (entries s)"

datatype se_error = SeEmpty | SeIo io_error | SeBadJson string | SeExpectedDomain

definition se_add ::
  "(string \<Rightarrow> string) \<Rightarrow> string \<Rightarrow> stats_exclusions \<Rightarrow> disk \<Rightarrow> (se_error + string list) \<times> stats_exclusions \<times> disk" where
  "se_add uni domain s d =
     (let dom' = se_normalize uni domain in
      if dom' = [] then (Inl SeEmpty, s, d)
      else case mutate (se_entry uni) (\<lambda>ds.
                  let ds' = (if list_ex (\<lambda>x. x = dom') ds then ds else sort (ds @ [dom']))
                  in (ds', ds', True)) s d of
             (r, s', d') \<Rightarrow> (map_err SeIo r, s', d'))"

definition se_remove ::
  "(string \<Rightarrow> string) \<Rightarrow> string \<Rightarrow> stats_exclusions \<Rightarrow> disk \<Rightarrow> (se_error + bool) \<times> stats_exclusions \<times> disk" where
  "se_remove uni domain s d =
     (let dom' = se_normalize uni domain in
      case mutate (se_entry uni) (\<lambda>ds.
             let kept = filter (\<lambda>x. x \<noteq> dom') ds; removed = (length kept \<noteq> length ds)
             in (removed, kept, removed)) s d of
        (r, s', d') \<Rightarrow> (map_err SeIo r, s', d'))"

datatype se_command = SeAdd string | SeDelete string

definition parse_se_command :: "(bytes \<Rightarrow> string + json) \<Rightarrow> bytes \<Rightarrow> se_error + se_command" where
  "parse_se_command parse_json body =
     (case parse_json body of
        Inl e \<Rightarrow> Inl (SeBadJson e)
      | Inr v \<Rightarrow>
          (case map_option trim (get_str ''domain'' v) of
             None \<Rightarrow> Inl SeExpectedDomain
           | Some dm \<Rightarrow> Inr (if get_bool ''delete'' v = Some True then SeDelete dm else SeAdd dm)))"

section \<open>Matching\<close>

text \<open>Excluding a domain excludes the domain and all its subdomains, and nothing is excluded
  without a reason on the list.\<close>

lemma excludes_iff:
  "excludes s host \<longleftrightarrow> host \<noteq> [] \<and> (\<exists>d \<in> set (entries s). host = d \<or> (\<exists>sub. host = sub @ ''.'' @ d))"
  by (auto simp: excludes_def list_ex_iff ends_with_iff)

text \<open>The normal form is not a fixed point: a name that carries two wildcard labels loses one of
  them at every pass, so what is stored is not what the file gives back.\<close>

lemma se_normalize_twice:
  "se_normalize uni ''*.*.x'' = ''*.x'' \<and> se_normalize uni ''*.x'' = ''x''"
  by code_simp

end
