(* ===== verification/Stats_State.thy ===== *)
theory Stats_State
  imports Stats_History Stats_Logs Stats_Exclude
begin

text \<open>
  \<open>stats/mod.rs\<close> and \<open>stats/records.rs\<close>: the shared runtime state of the Stats module, which every
  other module reports to. Clock readings and JSON encoders are arguments. The broadcast channel is
  the list of the messages sent and whether anybody is listening.
\<close>

section \<open>Records\<close>

datatype request_kind = Forwarded | KBlocked | Tunnel | Failed

record request_record =
  rq_seq :: u64
  rq_ts_ms :: u64
  rq_method :: string
  rq_status :: u16
  rq_kind :: request_kind
  rq_type :: string
  rq_url :: string
  rq_req_body :: string
  rq_resp_body :: string
  rq_req_body_raw :: string
  rq_resp_body_raw :: string
  rq_req_headers :: string
  rq_resp_headers :: string
  rq_blocked_by :: string
  rq_scriptlets :: string
  rq_ech :: bool

record request_detail =
  rd_seq :: u64
  rd_req_headers :: string
  rd_resp_headers :: string
  rd_req_body :: string
  rd_resp_body :: string
  rd_req_body_raw :: string
  rd_resp_body_raw :: string
  rd_scriptlets :: string

definition empty_detail :: "u64 \<Rightarrow> request_detail" where
  "empty_detail s = \<lparr>rd_seq = s, rd_req_headers = [], rd_resp_headers = [], rd_req_body = [],
     rd_resp_body = [], rd_req_body_raw = [], rd_resp_body_raw = [], rd_scriptlets = []\<rparr>"

definition detail_from_record :: "request_record \<Rightarrow> request_detail option" where
  "detail_from_record r =
     (if rq_req_headers r = [] \<and> rq_resp_headers r = [] \<and> rq_req_body r = [] \<and> rq_resp_body r = []
         \<and> rq_scriptlets r = []
      then None
      else Some \<lparr>rd_seq = rq_seq r, rd_req_headers = rq_req_headers r,
        rd_resp_headers = rq_resp_headers r, rd_req_body = rq_req_body r,
        rd_resp_body = rq_resp_body r, rd_req_body_raw = rq_req_body_raw r,
        rd_resp_body_raw = rq_resp_body_raw r, rd_scriptlets = rq_scriptlets r\<rparr>)"

datatype capture_slot =
  ReqBody | RespBody | ReqBodyRaw | RespBodyRaw | ReqHeaders | RespHeaders | Scriptlets

fun slot_str :: "capture_slot \<Rightarrow> string" where
  "slot_str ReqBody = ''req_body''"
| "slot_str RespBody = ''resp_body''"
| "slot_str ReqBodyRaw = ''req_body_raw''"
| "slot_str RespBodyRaw = ''resp_body_raw''"
| "slot_str ReqHeaders = ''req_headers''"
| "slot_str RespHeaders = ''resp_headers''"
| "slot_str Scriptlets = ''scriptlets''"

fun slot_apply :: "capture_slot \<Rightarrow> string \<Rightarrow> request_record \<Rightarrow> request_record" where
  "slot_apply ReqBody t r = r\<lparr>rq_req_body := t\<rparr>"
| "slot_apply RespBody t r = r\<lparr>rq_resp_body := t\<rparr>"
| "slot_apply ReqBodyRaw t r = r\<lparr>rq_req_body_raw := t\<rparr>"
| "slot_apply RespBodyRaw t r = r\<lparr>rq_resp_body_raw := t\<rparr>"
| "slot_apply ReqHeaders t r = r\<lparr>rq_req_headers := t\<rparr>"
| "slot_apply RespHeaders t r = r\<lparr>rq_resp_headers := t\<rparr>"
| "slot_apply Scriptlets t r = r\<lparr>rq_scriptlets := t\<rparr>"

datatype dns_outcome = OResolved | OCached | OBlocked | ORewritten | OError

record dns_record =
  dr_seq :: u64
  dr_ts_ms :: u64
  dr_domain :: string
  dr_qtype :: string
  dr_outcome :: dns_outcome
  dr_rcode :: string
  dr_answers :: string
  dr_upstream :: string
  dr_ech :: bool
  dr_blocked_by :: string
  dr_elapsed_ms :: u64
  dr_proxy :: bool

datatype ui_msg =
    UiRequest request_record
  | UiAttach u64 capture_slot string
  | UiClosed u64 u64
  | UiDns dns_record
  | UiEvent event

section \<open>State\<close>

record metrics =
  m_requests :: u64
  m_blocked :: u64
  m_errors :: u64
  m_dns_queries :: u64
  m_dns_blocked :: u64
  m_dns_cached :: u64
  m_dns_errors :: u64

definition zero_metrics :: metrics where
  "zero_metrics = \<lparr>m_requests = 0, m_blocked = 0, m_errors = 0, m_dns_queries = 0,
     m_dns_blocked = 0, m_dns_cached = 0, m_dns_errors = 0\<rparr>"

record stats_overrides =
  so_retention :: "u32 option"
  so_rotate :: "u32 option"

definition DEFAULT_RETENTION_HOURS :: u32 where "DEFAULT_RETENTION_HOURS = 24"
definition DEFAULT_LOG_ROTATE_HOURS :: u32 where "DEFAULT_LOG_ROTATE_HOURS = 24"
definition MAX_RETENTION_HOURS :: u32 where "MAX_RETENTION_HOURS = 168"
definition MAX_LOG_ROTATE_HOURS :: u32 where "MAX_LOG_ROTATE_HOURS = 2160"

text \<open>The JSON encoders and decoders of the record types.\<close>

record codecs =
  enc_request :: "request_record \<Rightarrow> string option"
  enc_detail :: "request_detail \<Rightarrow> string option"
  enc_dns :: "dns_record \<Rightarrow> string option"
  enc_event :: "event \<Rightarrow> string option"
  dec_request :: "string \<Rightarrow> request_record option"
  dec_detail :: "string \<Rightarrow> request_detail option"
  dec_dns :: "string \<Rightarrow> dns_record option"
  dec_value :: "string \<Rightarrow> json option"
  enc_settings :: "stats_overrides \<Rightarrow> string"
  dec_settings :: "string \<Rightarrow> stats_overrides option"

record shared_state =
  metrics :: metrics
  history :: history
  log_actions :: bool
  log_requests :: bool
  ui_connected :: bool
  ui_sent :: "ui_msg list"
  next_seq :: u64
  errors :: error_log
  request_log :: "rotating_log option"
  detail_log :: "rotating_log option"
  query_log :: "rotating_log option"
  settings_store :: "path option"
  log_rotate_hours :: u32
  exclusions :: "stats_exclusions option"

definition state_new :: "bool \<Rightarrow> bool \<Rightarrow> shared_state" where
  "state_new actions requests =
     \<lparr>metrics = zero_metrics, history = new_history, log_actions = actions, log_requests = requests,
      ui_connected = False, ui_sent = [], next_seq = 1, errors = error_log_memory,
      request_log = None, detail_log = None, query_log = None, settings_store = None,
      log_rotate_hours = DEFAULT_LOG_ROTATE_HOURS, exclusions = None\<rparr>"

definition line_seq :: "codecs \<Rightarrow> string \<Rightarrow> u64 option" where
  "line_seq K l = Option.bind (dec_value K l) (get_u64 ''seq'')"

definition newest_seq :: "codecs \<Rightarrow> rotating_log \<Rightarrow> u64 option" where
  "newest_seq K g = Option.bind (find_line (\<lambda>_. True) g) (line_seq K)"

definition max_seq :: "u64 list \<Rightarrow> u64" where
  "max_seq xs = fold max xs 0"

text \<open>The files \<open>with_data_dir\<close> opens; \<open>pth\<close> places a file of the data directory.\<close>

definition with_data_dir ::
  "codecs \<Rightarrow> (string \<Rightarrow> string) \<Rightarrow> (string \<Rightarrow> event option) \<Rightarrow> (string \<Rightarrow> string \<Rightarrow> path) \<Rightarrow>
   disk \<Rightarrow> shared_state \<Rightarrow> shared_state \<times> disk" where
  "with_data_dir K uni of_event pth d0 s =
     (let store = pth ''settings'' ''stats-settings.json'';
          d = ensure_overrides (enc_settings K) store
                \<lparr>so_retention = Some DEFAULT_RETENTION_HOURS, so_rotate = Some DEFAULT_LOG_ROTATE_HOURS\<rparr> d0;
          saved = load_overrides (dec_settings K) \<lparr>so_retention = None, so_rotate = None\<rparr> store d;
          retention = unwrap_or (so_retention saved) DEFAULT_RETENTION_HOURS;
          rotate = unwrap_or (so_rotate saved) DEFAULT_LOG_ROTATE_HOURS;
          opn = (\<lambda>cur old. log_open (dec_value K) (read_to_string d (pth ''logs'' cur))
                   (read_to_string d (pth ''logs'' old)) rotate);
          rl = opn ''request-log.jsonl'' ''request-log.old.jsonl'';
          dl = opn ''request-detail.jsonl'' ''request-detail.old.jsonl'';
          ql = opn ''query-log.jsonl'' ''query-log.old.jsonl'';
          on_disk = max_seq (List.map_filter (newest_seq K) [rl, dl, ql])
      in (s\<lparr>errors := error_log_load of_event (read_to_string d (pth ''logs'' ''error-log.jsonl'')),
            history := set_retention_hours retention (history s),
            log_rotate_hours := rotate,
            request_log := Some rl, detail_log := Some dl, query_log := Some ql,
            next_seq := on_disk + 1,
            settings_store := Some store,
            exclusions := Some (se_load uni (pth ''settings'' ''stats-excluded-domains.conf'') d)\<rparr>, d))"

section \<open>Counting\<close>

definition stats_excluded :: "shared_state \<Rightarrow> string \<Rightarrow> bool" where
  "stats_excluded s host = (case exclusions s of None \<Rightarrow> False | Some x \<Rightarrow> excludes x host)"

fun bump_metric :: "metric \<Rightarrow> metrics \<Rightarrow> metrics" where
  "bump_metric Requests m = m\<lparr>m_requests := m_requests m + 1\<rparr>"
| "bump_metric Blocked m = m\<lparr>m_blocked := m_blocked m + 1\<rparr>"
| "bump_metric Errors m = m\<lparr>m_errors := m_errors m + 1\<rparr>"
| "bump_metric DnsQueries m = m\<lparr>m_dns_queries := m_dns_queries m + 1\<rparr>"
| "bump_metric DnsBlocked m = m\<lparr>m_dns_blocked := m_dns_blocked m + 1\<rparr>"
| "bump_metric DnsCached m = m\<lparr>m_dns_cached := m_dns_cached m + 1\<rparr>"

definition bump :: "nat \<Rightarrow> metric \<Rightarrow> string \<Rightarrow> shared_state \<Rightarrow> shared_state" where
  "bump now m dm s = s\<lparr>metrics := bump_metric m (metrics s), history := record_at now m dm (history s)\<rparr>"

definition count :: "nat \<Rightarrow> metric \<Rightarrow> string \<Rightarrow> shared_state \<Rightarrow> shared_state" where
  "count now m dm s = (if stats_excluded s dm then s else bump now m dm s)"

fun traffic_of :: "metric \<Rightarrow> metric option" where
  "traffic_of Blocked = Some Requests"
| "traffic_of DnsBlocked = Some DnsQueries"
| "traffic_of _ = None"

text \<open>The two counters are bumped one after the other, each with its own clock reading.\<close>

definition count_block :: "nat \<Rightarrow> nat \<Rightarrow> metric \<Rightarrow> string \<Rightarrow> shared_state \<Rightarrow> shared_state" where
  "count_block now later m dm s =
     (if stats_excluded s dm then s
      else case traffic_of m of
        None \<Rightarrow> s
      | Some t \<Rightarrow> bump later m dm (bump now t [] s))"

definition count_dns_error :: "shared_state \<Rightarrow> shared_state" where
  "count_dns_error s = s\<lparr>metrics := (metrics s)\<lparr>m_dns_errors := m_dns_errors (metrics s) + 1\<rparr>\<rparr>"

definition reset_all :: "shared_state \<Rightarrow> shared_state" where
  "reset_all s = s\<lparr>metrics := zero_metrics, history := reset_history (history s)\<rparr>"

section \<open>Settings\<close>

datatype stats_error = RetentionRange | RotateRange | StatsIo io_error

definition stats_settings :: "shared_state \<Rightarrow> stats_overrides" where
  "stats_settings s = \<lparr>so_retention = Some (retention_hours (history s)), so_rotate = Some (log_rotate_hours s)\<rparr>"

definition bad_hours :: "u32 option \<Rightarrow> u32 \<Rightarrow> bool" where
  "bad_hours h mx = (case h of None \<Rightarrow> False | Some x \<Rightarrow> x = 0 \<or> mx < x)"

definition set_log_hours :: "u32 \<Rightarrow> shared_state \<Rightarrow> shared_state" where
  "set_log_hours h s =
     s\<lparr>log_rotate_hours := h,
       request_log := map_option (set_rotate_hours h) (request_log s),
       detail_log := map_option (set_rotate_hours h) (detail_log s),
       query_log := map_option (set_rotate_hours h) (query_log s)\<rparr>"

definition apply_stats_settings ::
  "codecs \<Rightarrow> stats_overrides \<Rightarrow> shared_state \<Rightarrow> disk \<Rightarrow> (stats_error + unit) \<times> shared_state \<times> disk" where
  "apply_stats_settings K change s d =
     (if bad_hours (so_retention change) MAX_RETENTION_HOURS then (Inl RetentionRange, s, d)
      else if bad_hours (so_rotate change) MAX_LOG_ROTATE_HOURS then (Inl RotateRange, s, d)
      else let cur = stats_settings s;
               merged = \<lparr>so_retention = or_else (so_retention change) (so_retention cur),
                         so_rotate = or_else (so_rotate change) (so_rotate cur)\<rparr>;
               (r, d') = (case settings_store s of
                  None \<Rightarrow> (Inr (), d)
                | Some p \<Rightarrow> save_overrides (enc_settings K) p merged d)
           in case r of
                Inl e \<Rightarrow> (Inl (StatsIo e), s, d')
              | Inr _ \<Rightarrow>
                  (let s1 = (case so_retention change of
                         Some h \<Rightarrow> s\<lparr>history := set_retention_hours h (history s)\<rparr> | None \<Rightarrow> s);
                       s2 = (case so_rotate change of Some h \<Rightarrow> set_log_hours h s1 | None \<Rightarrow> s1)
                   in (Inr (), s2, d')))"

section \<open>Events and records\<close>

definition ui_send :: "ui_msg \<Rightarrow> shared_state \<Rightarrow> shared_state" where
  "ui_send m s = s\<lparr>ui_sent := ui_sent s @ [m]\<rparr>"

text \<open>\<open>trace\<close> is the backtrace, if one was captured.\<close>

definition log_event ::
  "codecs \<Rightarrow> bool \<Rightarrow> u64 \<Rightarrow> string option \<Rightarrow> event_kind \<Rightarrow> string \<Rightarrow> shared_state \<Rightarrow> shared_state" where
  "log_event K io_ok ms trace kind msg s =
     (let e = \<lparr>ev_ts_ms = ms, ev_kind = kind, ev_message = msg,
               ev_trace = (if kind = EvError then trace else None)\<rparr>;
          s1 = (if kind = EvError then s\<lparr>errors := error_log_push (enc_event K) io_ok e (errors s)\<rparr> else s)
      in if ui_connected s1 then ui_send (UiEvent e) s1 else s1)"

definition append_opt :: "u64 \<Rightarrow> string option \<Rightarrow> rotating_log option \<Rightarrow> rotating_log option" where
  "append_opt ts line log =
     (case line of None \<Rightarrow> log | Some l \<Rightarrow> map_option (append_line ts l) log)"

definition record_dns :: "codecs \<Rightarrow> dns_record \<Rightarrow> shared_state \<Rightarrow> shared_state" where
  "record_dns K r0 s =
     (if \<not> log_requests s \<or> stats_excluded s (dr_domain r0) then s
      else let r = r0\<lparr>dr_seq := next_seq s\<rparr>;
               s1 = s\<lparr>next_seq := next_seq s + 1,
                      query_log := append_opt (dr_ts_ms r) (enc_dns K r) (query_log s)\<rparr>
           in if ui_connected s1 then ui_send (UiDns r) s1 else s1)"

record request_facts =
  f_method :: string
  f_type :: string
  f_url :: string
  f_host :: string

record exchange =
  ex_seq :: u64
  ex_live :: bool
  ex_captures :: "request_record option"

definition begin_exchange ::
  "codecs \<Rightarrow> u64 \<Rightarrow> request_kind \<Rightarrow> request_facts \<Rightarrow> u16 \<Rightarrow> string \<Rightarrow> bool \<Rightarrow> shared_state \<Rightarrow>
   exchange \<times> shared_state" where
  "begin_exchange K ms kind f status blocked_by ech s =
     (let live = ui_connected s; persist = (request_log s \<noteq> None) in
      if \<not> log_requests s \<or> (\<not> live \<and> \<not> persist) \<or> stats_excluded s (f_host f)
      then (\<lparr>ex_seq = 0, ex_live = False, ex_captures = None\<rparr>, s)
      else let sq = next_seq s;
               r = \<lparr>rq_seq = sq, rq_ts_ms = ms, rq_method = f_method f, rq_status = status, rq_kind = kind,
                    rq_type = f_type f, rq_url = f_url f, rq_req_body = [], rq_resp_body = [],
                    rq_req_body_raw = [], rq_resp_body_raw = [], rq_req_headers = [],
                    rq_resp_headers = [], rq_blocked_by = blocked_by, rq_scriptlets = [], rq_ech = ech\<rparr>;
               s1 = s\<lparr>next_seq := next_seq s + 1,
                      request_log := append_opt ms (enc_request K r) (request_log s)\<rparr>;
               s2 = (if live then ui_send (UiRequest r) s1 else s1)
           in (\<lparr>ex_seq = sq, ex_live = live, ex_captures = Some r\<rparr>, s2))"

definition record_forwarded where
  "record_forwarded K ms f status ech s = begin_exchange K ms Forwarded f status [] ech s"

definition record_blocked where
  "record_blocked K ms f by s = begin_exchange K ms KBlocked f 0 by False s"

definition record_failed where
  "record_failed K ms f err s = begin_exchange K ms Failed f 0 err False s"

definition record_tunnel where
  "record_tunnel K ms f attribution s = begin_exchange K ms Tunnel f 0 attribution False s"

definition attach :: "capture_slot \<Rightarrow> string \<Rightarrow> exchange \<Rightarrow> shared_state \<Rightarrow> exchange \<times> shared_state" where
  "attach slot t x s =
     (case ex_captures x of
        None \<Rightarrow> (x, s)
      | Some r \<Rightarrow>
          (x\<lparr>ex_captures := Some (slot_apply slot t r)\<rparr>,
           if ex_live x then ui_send (UiAttach (ex_seq x) slot t) s else s))"

definition attach_quiet :: "capture_slot \<Rightarrow> string \<Rightarrow> exchange \<Rightarrow> exchange" where
  "attach_quiet slot t x = x\<lparr>ex_captures := map_option (slot_apply slot t) (ex_captures x)\<rparr>"

definition closed :: "u64 \<Rightarrow> exchange \<Rightarrow> shared_state \<Rightarrow> shared_state" where
  "closed ms x s = (if ex_live x then ui_send (UiClosed (ex_seq x) ms) s else s)"

text \<open>\<open>Drop\<close>: the captures go to the detail log.\<close>

definition drop_exchange :: "codecs \<Rightarrow> exchange \<Rightarrow> shared_state \<Rightarrow> shared_state" where
  "drop_exchange K x s =
     (case ex_captures x of
        None \<Rightarrow> s
      | Some r \<Rightarrow>
          (case detail_from_record r of
             None \<Rightarrow> s
           | Some dt \<Rightarrow> s\<lparr>detail_log := append_opt (rq_ts_ms r) (enc_detail K dt) (detail_log s)\<rparr>))"

section \<open>Queries\<close>

definition request_page :: "codecs \<Rightarrow> u64 option \<Rightarrow> nat \<Rightarrow> shared_state \<Rightarrow> request_record list" where
  "request_page K before limit s =
     (case request_log s of
        None \<Rightarrow> []
      | Some g \<Rightarrow> List.map_filter (dec_request K) (page (line_seq K) before limit g))"

definition query_page :: "codecs \<Rightarrow> u64 option \<Rightarrow> nat \<Rightarrow> shared_state \<Rightarrow> dns_record list" where
  "query_page K before limit s =
     (case query_log s of
        None \<Rightarrow> []
      | Some g \<Rightarrow> List.map_filter (dec_dns K) (page (line_seq K) before limit g))"

definition stored_detail :: "codecs \<Rightarrow> u64 \<Rightarrow> shared_state \<Rightarrow> request_detail" where
  "stored_detail K sq s =
     unwrap_or (Option.bind (detail_log s) (\<lambda>g.
        Option.bind (find_line (\<lambda>l. line_seq K l = Some sq) g) (dec_detail K))) (empty_detail sq)"

definition request_detail_of :: "codecs \<Rightarrow> u64 \<Rightarrow> shared_state \<Rightarrow> request_detail" where
  "request_detail_of K sq s = (stored_detail K sq s)\<lparr>rd_req_body_raw := [], rd_resp_body_raw := []\<rparr>"

section \<open>Excluded hosts leave no trace\<close>

lemma count_excluded: "stats_excluded s h \<Longrightarrow> count now m h s = s"
  by (simp add: count_def)

lemma count_block_excluded: "stats_excluded s h \<Longrightarrow> count_block now later m h s = s"
  by (simp add: count_block_def)

lemma record_dns_excluded: "stats_excluded s (dr_domain r) \<Longrightarrow> record_dns K r s = s"
  by (simp add: record_dns_def)

lemma begin_excluded:
  "stats_excluded s (f_host f) \<Longrightarrow>
   begin_exchange K ms kind f st by ech s = (\<lparr>ex_seq = 0, ex_live = False, ex_captures = None\<rparr>, s)"
  by (simp add: begin_exchange_def)

text \<open>An exchange that captures nothing writes nothing either.\<close>

lemma inert_exchange:
  assumes "ex_captures x = None" "\<not> ex_live x"
  shows "attach slot t x s = (x, s)" "attach_quiet slot t x = x" "closed ms x s = s" "drop_exchange K x s = s"
  using assms by (simp_all add: attach_def attach_quiet_def closed_def drop_exchange_def)

section \<open>What recording leaves alone\<close>

lemma metrics_log_event [simp]: "metrics (log_event K ok ms t k m s) = metrics s"
  by (simp add: log_event_def Let_def ui_send_def)

lemma errors_log_event:
  "errors (log_event K ok ms t EvError m s) =
     error_log_push (enc_event K) ok \<lparr>ev_ts_ms = ms, ev_kind = EvError, ev_message = m, ev_trace = t\<rparr> (errors s)"
  by (simp add: log_event_def Let_def ui_send_def)

lemma metrics_record_dns [simp]: "metrics (record_dns K r s) = metrics s"
  by (simp add: record_dns_def Let_def ui_send_def)

lemma exclusions_log_event [simp]: "stats_excluded (log_event K ok ms t k m s) h = stats_excluded s h"
  by (simp add: log_event_def Let_def ui_send_def stats_excluded_def)

lemma exclusions_count [simp]: "stats_excluded (count now m dm s) h = stats_excluded s h"
  by (simp add: count_def bump_def stats_excluded_def)

lemma metrics_count:
  "metrics (count now m dm s) = (if stats_excluded s dm then metrics s else bump_metric m (metrics s))"
  by (simp add: count_def bump_def)

lemma metrics_count_block:
  "metrics (count_block now later m dm s) =
     (if stats_excluded s dm then metrics s
      else case traffic_of m of None \<Rightarrow> metrics s | Some t \<Rightarrow> bump_metric m (bump_metric t (metrics s)))"
  by (simp add: count_block_def bump_def split: option.splits)

lemma excluded_empty [simp]: "\<not> stats_excluded s []"
  by (simp add: stats_excluded_def excludes_iff split: option.splits)

section \<open>Properties\<close>

text \<open>a host on the exclusion list, or below a domain on it, leaves no trace through the recording
  operations: nothing is counted, no query is recorded, no exchange is opened, and the inert
  exchange it gets records nothing afterwards.\<close>

theorem excluded_host_no_trace:
  assumes "stats_excluded s h"
  shows "count now m h s = s \<and> count_block now later b h s = s \<and>
    (dr_domain r = h \<longrightarrow> record_dns K r s = s) \<and>
    (f_host f = h \<longrightarrow> snd (begin_exchange K ms kind f status reason ech s) = s \<and>
       (let x = fst (begin_exchange K ms kind f status reason ech s)
        in attach slot t x s' = (x, s') \<and> closed ms' x s' = s' \<and> drop_exchange K x s' = s'))"
  using assms
  by (simp add: count_excluded count_block_excluded record_dns_excluded begin_excluded inert_exchange Let_def)

theorem excluded_host_no_trace_witness:
  "count 5 Requests ''ads.a.test'' ((state_new True True)\<lparr>exclusions :=
       Some \<lparr>entries = [''a.test''], file_path = ([], []), file_header = []\<rparr>\<rparr>)
   = (state_new True True)\<lparr>exclusions := Some \<lparr>entries = [''a.test''], file_path = ([], []), file_header = []\<rparr>\<rparr>"
proof -
  have "stats_excluded ((state_new True True)\<lparr>exclusions :=
      Some \<lparr>entries = [''a.test''], file_path = ([], []), file_header = []\<rparr>\<rparr>) ''ads.a.test''"
    by code_simp
  from excluded_host_no_trace [OF this] show ?thesis by blast
qed

text \<open>a statistics-settings change is checked before it is stored and stored before it is applied: a
  value out of range or a failed write changes nothing, and an accepted change has every given
  value in its range, sets exactly the given values and leaves the counters alone.\<close>

theorem stats_settings_change:
  "(case apply_stats_settings K change s d of
      (Inl _, s', d') \<Rightarrow> s' = s
    | (Inr _, s', d') \<Rightarrow>
        \<not> bad_hours (so_retention change) MAX_RETENTION_HOURS \<and> \<not> bad_hours (so_rotate change) MAX_LOG_ROTATE_HOURS \<and>
        window_buckets (history s') =
          (case so_retention change of Some h \<Rightarrow> unat h * BUCKETS_PER_HOUR | None \<Rightarrow> window_buckets (history s)) \<and>
        log_rotate_hours s' = (case so_rotate change of Some h \<Rightarrow> h | None \<Rightarrow> log_rotate_hours s) \<and>
        metrics s' = metrics s)"
  by (auto simp: apply_stats_settings_def set_log_hours_def set_retention_hours_def Let_def
      split: sum.splits prod.splits option.splits)

end
