(* ===== verification/Dns_Service.thy ===== *)
theory Dns_Service
  imports Dns_Cache Dns_Upstream Stats_State
begin

text \<open>
  \<open>dns/mod.rs\<close>, \<open>dns/plan.rs\<close> and \<open>dns/lookup.rs\<close>: the DNS service. A query is planned (reject,
  no data, rewrite, block, resolve), answered accordingly from the rewrites, the cache or the
  upstreams, counted and recorded with Stats. The block decision is the \<open>check_dns\<close> of the Adblock
  module: whether the name is blocked, and the attribution to show.
\<close>

section \<open>Planning\<close>

datatype verdict =
    Nodata
  | RewriteTo "rewrite_answer list"
  | BlockedBy string
  | ResolveKey cache_key

datatype 'n query_plan = Invalid response_code | Answer "'n query" string verdict

type_synonym adblock_dns = "string \<Rightarrow> bool \<times> string"

definition query_domain :: "'n name_ops \<Rightarrow> 'n query \<Rightarrow> string" where
  "query_domain N q = to_ascii_lowercase (trim_end_matches CHR ''.'' (to_utf8 N (q_name q)))"

definition plan_query ::
  "'n name_ops \<Rightarrow> adblock_dns \<Rightarrow> rewrite_store \<Rightarrow> 'n message \<Rightarrow> 'n query_plan" where
  "plan_query N check rs request =
     (if op_code (meta request) \<noteq> OpQuery then Invalid NotImp
      else case queries request of
        [] \<Rightarrow> Invalid FormErr
      | q # _ \<Rightarrow>
          (let dm = query_domain N q;
               v = (if q_type q = rt_AAAA then Nodata
                    else let rw = matching rs dm in
                      if rw \<noteq> [] then RewriteTo rw
                      else if fst (check dm) then BlockedBy (snd (check dm))
                      else ResolveKey (key_of N q))
           in Answer q dm v))"

section \<open>The service\<close>

record 'c dns_service =
  sv_rewrites :: rewrite_store
  sv_cache :: "'c dns_cache"
  sv_settings :: effective
  sv_resolver :: resolver
  sv_base :: dns_config
  sv_store :: path
  sv_listen :: socket_addr

definition REWRITE_TTL :: u32 where
  "REWRITE_TTL = 30"

text \<open>The ambient readings of one request: the history clock (twice, for a block), the wall clock
  for the query record and for an event, the elapsed time, the monotonic clock at cache lookup (twice) and at cache insertion, what the
  network answers to a query, the fate of the error-log write and the captured backtrace.\<close>

record 'n request_env =
  re_secs :: nat
  re_secs2 :: nat
  re_ms :: u64
  re_event_ms :: u64
  re_elapsed_ms :: u64
  re_now :: instant
  re_later :: instant
  re_stored :: instant
  re_net :: "'n query \<Rightarrow> 'n net"
  re_io_ok :: bool
  re_trace :: "string option"

text \<open>What does not change during a request: the name operations, the display of record types, the
  block decision, the JSON encoders and the LRU operations.\<close>

record ('c, 'n) dns_deps =
  dd_names :: "'n name_ops"
  dd_rt_show :: "rtype \<Rightarrow> string"
  dd_check :: adblock_dns
  dd_codecs :: codecs
  dd_lru :: "('c, 'n) cache_lru"

fun show_resolve_error :: "resolve_error \<Rightarrow> string" where
  "show_resolve_error NoUpstreams = ''no DNS upstreams configured''"
| "show_resolve_error AllDisabled = ''every DNS upstream is disabled''"
| "show_resolve_error (Encoding e) = ''encoding query: '' @ e"
| "show_resolve_error (IdMismatch sp) = sp @ '': response id mismatch''"
| "show_resolve_error (UpstreamFailed sp e) = sp @ '': '' @ e"
| "show_resolve_error (UpstreamTimedOut sp) = sp @ '': timed out''"
| "show_resolve_error NoAttempt = []"

definition blocked_response :: "dns_config \<Rightarrow> 'n message \<Rightarrow> 'n query \<Rightarrow> 'n message" where
  "blocked_response base request q =
     (let resp = base_response request in
      case cf_blocking_mode base of
        BmRefused \<Rightarrow> resp\<lparr>meta := (meta resp)\<lparr>response_code := Refused\<rparr>\<rparr>
      | Nxdomain \<Rightarrow> resp\<lparr>meta := (meta resp)\<lparr>response_code := NXDomain\<rparr>\<rparr>
      | NullIp \<Rightarrow>
          if q_type q = rt_A
          then add_answer (from_rdata (q_name q) (cf_blocked_ttl base) (DA (Ipv4 0 0 0 0))) resp
          else resp)"

text \<open>The loop over the rewrite answers: addresses accumulate, a CNAME ends it.\<close>

fun rewrite_answers ::
  "'n name_ops \<Rightarrow> ('n query \<Rightarrow> 'n net) \<Rightarrow> 'n query \<Rightarrow> rewrite_answer list \<Rightarrow> 'n message \<Rightarrow> resolver \<Rightarrow>
   'n message \<times> resolver" where
  "rewrite_answers N W q [] resp r = (resp, r)"
| "rewrite_answers N W q (RV4 ip # as) resp r =
     rewrite_answers N W q as
       (if q_type q = rt_A then add_answer (from_rdata (q_name q) REWRITE_TTL (DA ip)) resp else resp) r"
| "rewrite_answers N W q (RCname target # as) resp r =
     (case from_utf8 N (target @ ''.'') of
        None \<Rightarrow> rewrite_answers N W q as resp r
      | Some t \<Rightarrow>
          (let resp1 = add_answer (from_rdata (q_name q) REWRITE_TTL (DCNAME t)) resp in
           if q_type q = rt_A
           then (case resolve (W (query_of t (q_type q))) r of
                   (Inr (up, _), r') \<Rightarrow> (fold add_answer (answers up) resp1, r')
                 | (Inl _, r') \<Rightarrow> (resp1, r'))
           else (resp1, r)))"

definition rewrite_response ::
  "'n name_ops \<Rightarrow> ('n query \<Rightarrow> 'n net) \<Rightarrow> 'n message \<Rightarrow> 'n query \<Rightarrow> rewrite_answer list \<Rightarrow> resolver \<Rightarrow>
   'n message \<times> resolver" where
  "rewrite_response N W request q as r = rewrite_answers N W q as (base_response request) r"

datatype recorded_as =
    RecNodata
  | RecResolved string
  | RecRewritten
  | RecCached
  | RecBlocked string
  | RecError string

fun recorded_fields :: "recorded_as \<Rightarrow> dns_outcome \<times> string \<times> string \<times> string option" where
  "recorded_fields RecNodata = (OResolved, [], [], None)"
| "recorded_fields (RecResolved up) = (OResolved, up, [], None)"
| "recorded_fields RecRewritten = (ORewritten, ''rewrite'', [], None)"
| "recorded_fields RecCached = (OCached, [], [], None)"
| "recorded_fields (RecBlocked by) = (OBlocked, [], by, None)"
| "recorded_fields (RecError cause) = (OError, [], [], Some cause)"

definition record_query ::
  "('c, 'n) dns_deps \<Rightarrow> 'n request_env \<Rightarrow> bool \<Rightarrow> 'n query \<Rightarrow> string \<Rightarrow> 'n message \<Rightarrow> recorded_as \<Rightarrow>
   shared_state \<Rightarrow> shared_state" where
  "record_query D V proxy q dm resp outcome st =
     (case recorded_fields outcome of (kind, up, by, cause) \<Rightarrow>
        record_dns (dd_codecs D)
          \<lparr>dr_seq = 0, dr_ts_ms = re_ms V, dr_domain = dm, dr_qtype = dd_rt_show D (q_type q),
           dr_outcome = kind,
           dr_rcode = (case cause of Some c \<Rightarrow> c | None \<Rightarrow> rcode_str (response_code (meta resp))),
           dr_answers = summarize_answers (dd_names D) (dd_rt_show D) resp,
           dr_upstream = up, dr_ech = answer_has_ech resp, dr_blocked_by = by,
           dr_elapsed_ms = re_elapsed_ms V, dr_proxy = proxy\<rparr> st)"

definition block_message :: "('c, 'n) dns_deps \<Rightarrow> 'n query \<Rightarrow> string \<Rightarrow> string \<Rightarrow> string" where
  "block_message D q dm by =
     ''DNS '' @ dd_rt_show D (q_type q) @ '' '' @ dm @ [CHR 0x20, CHR 0xE2, CHR 0x80, CHR 0x94, CHR 0x20] @ by"

type_synonym ('c, 'n) answer = "'n message \<times> 'c dns_service \<times> shared_state"

definition answer_nodata ::
  "('c, 'n) dns_deps \<Rightarrow> 'n request_env \<Rightarrow> bool \<Rightarrow> 'n message \<Rightarrow> 'n query \<Rightarrow> string \<Rightarrow>
   'c dns_service \<Rightarrow> shared_state \<Rightarrow> ('c, 'n) answer" where
  "answer_nodata D V proxy request q dm sv st =
     (let resp = base_response request
      in (resp, sv, if ef_log_ipv6 (sv_settings sv) then record_query D V proxy q dm resp RecNodata st else st))"

definition answer_rewrite ::
  "('c, 'n) dns_deps \<Rightarrow> 'n request_env \<Rightarrow> bool \<Rightarrow> 'n message \<Rightarrow> 'n query \<Rightarrow> string \<Rightarrow> rewrite_answer list \<Rightarrow>
   'c dns_service \<Rightarrow> shared_state \<Rightarrow> ('c, 'n) answer" where
  "answer_rewrite D V proxy request q dm as sv st =
     (case rewrite_response (dd_names D) (re_net V) request q as (sv_resolver sv) of (resp, r) \<Rightarrow>
        (resp, sv\<lparr>sv_resolver := r\<rparr>, record_query D V proxy q dm resp RecRewritten st))"

definition answer_blocked ::
  "('c, 'n) dns_deps \<Rightarrow> 'n request_env \<Rightarrow> bool \<Rightarrow> 'n message \<Rightarrow> 'n query \<Rightarrow> string \<Rightarrow> string \<Rightarrow>
   'c dns_service \<Rightarrow> shared_state \<Rightarrow> ('c, 'n) answer" where
  "answer_blocked D V proxy request q dm by sv st =
     (let st1 = count_block (re_secs V) (re_secs2 V) DnsBlocked dm st;
          st2 = (if log_actions st1
                 then log_event (dd_codecs D) (re_io_ok V) (re_event_ms V) (re_trace V) EvBlocked
                        (block_message D q dm by) st1
                 else st1);
          resp = blocked_response (sv_base sv) request q
      in (resp, sv, record_query D V proxy q dm resp (RecBlocked by) st2))"

definition strip_if :: "bool \<Rightarrow> 'n message \<Rightarrow> 'n message" where
  "strip_if b m = (if b then fst (strip_ech_params m) else m)"

definition answer_resolve ::
  "('c, 'n) dns_deps \<Rightarrow> 'n request_env \<Rightarrow> bool \<Rightarrow> 'n message \<Rightarrow> 'n query \<Rightarrow> string \<Rightarrow> cache_key \<Rightarrow>
   'c dns_service \<Rightarrow> shared_state \<Rightarrow> ('c, 'n) answer" where
  "answer_resolve D V proxy request q dm k sv st =
     (let strip = ef_strip_ech (sv_settings sv) in
      case cache_get (dd_lru D) (re_now V) (re_later V) k (sv_cache sv) of
        (Some cached, c) \<Rightarrow>
          (let resp = finish_response (strip_if strip cached) request
           in (resp, sv\<lparr>sv_cache := c\<rparr>,
               record_query D V proxy q dm resp RecCached (count (re_secs V) DnsCached dm st)))
      | (None, c) \<Rightarrow>
          (case resolve (re_net V q) (sv_resolver sv) of
             (Inr (up, label), r) \<Rightarrow>
               (let resp = finish_response (strip_if strip up) request
                in (resp, sv\<lparr>sv_cache := cache_put (dd_lru D) (re_stored V) k up c, sv_resolver := r\<rparr>,
                    record_query D V proxy q dm resp (RecResolved label) st))
           | (Inl e, r) \<Rightarrow>
               (let resp = error_response request ServFail;
                    st1 = log_event (dd_codecs D) (re_io_ok V) (re_event_ms V) (re_trace V) EvError
                            (''dns '' @ dm @ '': '' @ show_resolve_error e) (count_dns_error st)
                in (resp, sv\<lparr>sv_cache := c, sv_resolver := r\<rparr>,
                    record_query D V proxy q dm resp (RecError (show_resolve_error e)) st1))))"

definition handle_from ::
  "('c, 'n) dns_deps \<Rightarrow> 'n request_env \<Rightarrow> 'n message \<Rightarrow> bool \<Rightarrow> 'c dns_service \<Rightarrow> shared_state \<Rightarrow>
   ('c, 'n) answer" where
  "handle_from D V request proxy sv st =
     (case plan_query (dd_names D) (dd_check D) (sv_rewrites sv) request of
        Invalid rc \<Rightarrow> (error_response request rc, sv, count (re_secs V) DnsQueries [] st)
      | Answer q dm v \<Rightarrow>
          (let st1 = (case v of BlockedBy _ \<Rightarrow> st | _ \<Rightarrow> count (re_secs V) DnsQueries dm st) in
           case v of
             Nodata \<Rightarrow> answer_nodata D V proxy request q dm sv st1
           | RewriteTo as \<Rightarrow> answer_rewrite D V proxy request q dm as sv st1
           | BlockedBy by \<Rightarrow> answer_blocked D V proxy request q dm by sv st1
           | ResolveKey k \<Rightarrow> answer_resolve D V proxy request q dm k sv st1))"

section \<open>In-process lookups\<close>

text \<open>The typed lookups of \<open>dns/lookup.rs\<close> for the proxy: they build a query with a random message id
  and run it through \<open>handle_proxy\<close>.\<close>

datatype lookup_failure = BadHost string | BlockedName string | NoARecord string | DidNotResolve string response_code

definition lookup_request :: "'n name_ops \<Rightarrow> u16 \<Rightarrow> string \<Rightarrow> rtype \<Rightarrow> lookup_failure + 'n message" where
  "lookup_request N i host t =
     (case from_utf8 N (trim_end_matches CHR ''.'' host @ ''.'') of
        None \<Rightarrow> Inl (BadHost host)
      | Some n \<Rightarrow>
          (let m = new_message i MQuery OpQuery
           in Inr (m\<lparr>meta := (meta m)\<lparr>recursion_desired := True\<rparr>, queries := [query_of n t]\<rparr>)))"

definition a_records :: "'n message \<Rightarrow> ipv4 list" where
  "a_records m = List.map_filter (\<lambda>r. case rr_data r of DA a \<Rightarrow> Some a | _ \<Rightarrow> None) (answers m)"

definition aaaa_records :: "'n message \<Rightarrow> ipv6 list" where
  "aaaa_records m = List.map_filter (\<lambda>r. case rr_data r of DAAAA a \<Rightarrow> Some a | _ \<Rightarrow> None) (answers m)"

definition param_config :: "(svc_key \<times> svc_value) list \<Rightarrow> bytes option" where
  "param_config ps =
     (case List.map_filter (\<lambda>(_, v). case v of ValEchConfigList b \<Rightarrow> Some b | ValOther _ \<Rightarrow> None) ps of
        [] \<Rightarrow> None | b # _ \<Rightarrow> Some b)"

definition ech_config :: "'n message \<Rightarrow> bytes option" where
  "ech_config m =
     (case List.map_filter (\<lambda>r. Option.bind (svc_params_of (rr_data r)) param_config)
             (answers m @ additionals m) of
        [] \<Rightarrow> None | b # _ \<Rightarrow> Some b)"

definition resolve_failure :: "string \<Rightarrow> 'n message \<Rightarrow> bool \<Rightarrow> lookup_failure" where
  "resolve_failure host resp blocked =
     (if blocked then BlockedName host
      else if response_code (meta resp) = NoError then NoARecord host
      else DidNotResolve host (response_code (meta resp)))"

text \<open>The end of \<open>resolve\<close>: only specified addresses are handed out.\<close>

definition specified_or_fail :: "string \<Rightarrow> 'n message \<Rightarrow> ip_addr list \<Rightarrow> lookup_failure + ip_addr list" where
  "specified_or_fail host a_resp all =
     (let blocked = list_ex is_unspecified all;
          addrs = filter (\<lambda>ip. \<not> is_unspecified ip) all
      in if addrs = [] then Inl (resolve_failure host a_resp blocked) else Inr addrs)"

definition lookup ::
  "('c, 'n) dns_deps \<Rightarrow> 'n request_env \<Rightarrow> u16 \<Rightarrow> string \<Rightarrow> rtype \<Rightarrow> 'c dns_service \<Rightarrow> shared_state \<Rightarrow>
   (lookup_failure + 'n message) \<times> 'c dns_service \<times> shared_state" where
  "lookup D V i host t sv st =
     (case lookup_request (dd_names D) i host t of
        Inl e \<Rightarrow> (Inl e, sv, st)
      | Inr m \<Rightarrow> (case handle_from D V m True sv st of (resp, sv', st') \<Rightarrow> (Inr resp, sv', st')))"

definition resolve_name ::
  "('c, 'n) dns_deps \<Rightarrow> 'n request_env \<Rightarrow> 'n request_env \<Rightarrow> u16 \<Rightarrow> u16 \<Rightarrow> string \<Rightarrow> bool \<Rightarrow> 'c dns_service \<Rightarrow>
   shared_state \<Rightarrow> (lookup_failure + ip_addr list) \<times> 'c dns_service \<times> shared_state" where
  "resolve_name D V W i j host want_ipv6 sv st =
     (case lookup D V i host rt_A sv st of
        (Inl e, sv1, st1) \<Rightarrow> (Inl e, sv1, st1)
      | (Inr a_resp, sv1, st1) \<Rightarrow>
          (let v4 = map V4 (a_records a_resp) in
           if want_ipv6
           then (case lookup D W j host rt_AAAA sv1 st1 of (r6, sv2, st2) \<Rightarrow>
                   (specified_or_fail host a_resp
                      (v4 @ (case r6 of Inr m \<Rightarrow> map V6 (aaaa_records m) | Inl _ \<Rightarrow> [])), sv2, st2))
           else (specified_or_fail host a_resp v4, sv1, st1)))"

definition ech_config_list ::
  "('c, 'n) dns_deps \<Rightarrow> 'n request_env \<Rightarrow> u16 \<Rightarrow> string \<Rightarrow> 'c dns_service \<Rightarrow> shared_state \<Rightarrow>
   bytes option \<times> 'c dns_service \<times> shared_state" where
  "ech_config_list D V i host sv st =
     (case lookup D V i host rt_HTTPS sv st of
        (Inl _, sv', st') \<Rightarrow> (None, sv', st')
      | (Inr m, sv', st') \<Rightarrow> (ech_config m, sv', st'))"

section \<open>Answers\<close>

text \<open>Every answer echoes the request: its id, its questions, as a response with recursion
  available.\<close>

definition echoes :: "'n message \<Rightarrow> 'n message \<Rightarrow> bool" where
  "echoes request resp \<longleftrightarrow> msg_id (meta resp) = msg_id (meta request) \<and> queries resp = queries request
     \<and> message_type (meta resp) = MResponse \<and> op_code (meta resp) = OpQuery
     \<and> recursion_desired (meta resp) = recursion_desired (meta request)
     \<and> recursion_available (meta resp) \<and> \<not> authoritative (meta resp)
     \<and> (edns resp \<noteq> None \<longleftrightarrow> edns request \<noteq> None)"

lemma echoes_base [simp]: "echoes request (base_response request)"
  by (simp add: echoes_def base_response_def new_message_def our_edns_def Let_def)

lemma echoes_finish [simp]: "echoes request (finish_response m request)"
  by (simp add: echoes_def finish_response_def our_edns_def)

lemma echoes_error [simp]: "echoes request (error_response request c)"
  by (simp add: echoes_def error_response_def base_response_def new_message_def our_edns_def Let_def)

lemma echoes_add [simp]: "echoes request (add_answer r m) = echoes request m"
  by (simp add: echoes_def add_answer_def)

lemma echoes_fold [simp]: "echoes request (fold add_answer rs m) = echoes request m"
  by (induction rs arbitrary: m) simp_all

lemma echoes_blocked [simp]: "echoes request (blocked_response base request q)"
  by (auto simp: blocked_response_def echoes_def base_response_def new_message_def our_edns_def
      add_answer_def Let_def split: blocking_mode.splits)

lemma echoes_rewrite: "echoes request m \<Longrightarrow> echoes request (fst (rewrite_answers N W q as m r))"
  by (induction N W q as m r rule: rewrite_answers.induct)
    (auto simp: Let_def split: option.splits prod.splits sum.splits)

lemma answer_resolve_echo: "echoes request (fst (answer_resolve D V proxy request q dm k sv st))"
  by (simp add: answer_resolve_def Let_def split: prod.splits option.splits sum.splits)

lemma handle_echo: "echoes request (fst (handle_from D V request proxy sv st))"
proof (cases "plan_query (dd_names D) (dd_check D) (sv_rewrites sv) request")
  case (Invalid rc)
  then show ?thesis by (simp add: handle_from_def)
next
  case (Answer q dm v)
  have "echoes request (fst (answer_rewrite D V proxy request q dm as sv st'))" for as st'
    using echoes_rewrite [of request "base_response request"]
    by (simp add: answer_rewrite_def rewrite_response_def split: prod.splits) (metis echoes_base fst_conv)
  then show ?thesis
    using Answer answer_resolve_echo
    by (cases v) (simp_all add: handle_from_def answer_nodata_def answer_blocked_def Let_def)
qed

text \<open>Answering never touches the rewrite records or the settings.\<close>

lemma handle_rewrites:
  "sv_rewrites (fst (snd (handle_from D V request proxy sv st))) = sv_rewrites sv"
  "sv_settings (fst (snd (handle_from D V request proxy sv st))) = sv_settings sv"
  by (auto simp: handle_from_def answer_nodata_def answer_rewrite_def answer_blocked_def answer_resolve_def Let_def
      split: query_plan.splits verdict.splits prod.splits option.splits sum.splits)

section \<open>ECH stripping\<close>

lemma strip_clean: "\<not> answer_has_ech (fst (strip_ech_params m))"
proof -
  obtain as n ad k where s: "strip_records (answers m) = (as, n)" "strip_records (additionals m) = (ad, k)"
    by (cases "strip_records (answers m)"; cases "strip_records (additionals m)")
  have "as = map (\<lambda>r. r\<lparr>rr_data := fst (strip_rdata (rr_data r))\<rparr>) (answers m)"
    "ad = map (\<lambda>r. r\<lparr>rr_data := fst (strip_rdata (rr_data r))\<rparr>) (additionals m)"
    using strip_records_map [of "answers m"] strip_records_map [of "additionals m"] s by simp_all
  then show ?thesis
    using s strip_record_clean
    by (auto simp: strip_ech_params_def answer_has_ech_def list_ex_iff)
qed

lemma answer_has_ech_finish [simp]: "answer_has_ech (finish_response m request) = answer_has_ech m"
  by (simp add: answer_has_ech_def finish_response_def)

lemma answer_has_ech_error [simp]: "\<not> answer_has_ech (error_response request c)"
  by (simp add: answer_has_ech_def error_response_def base_response_def new_message_def Let_def)

lemma resolve_stripped:
  assumes "ef_strip_ech (sv_settings sv)"
  shows "\<not> answer_has_ech (fst (answer_resolve D V proxy request q dm k sv st))"
  using assms
  by (simp add: answer_resolve_def strip_if_def Let_def strip_clean split: prod.splits option.splits sum.splits)

section \<open>Blocked names\<close>

lemma plan_cases:
  "plan_query N check rs request = Answer q dm v \<Longrightarrow>
   op_code (meta request) = OpQuery \<and> queries request \<noteq> [] \<and> q = hd (queries request) \<and> dm = query_domain N q \<and>
   v = (if q_type q = rt_AAAA then Nodata
        else if matching rs dm \<noteq> [] then RewriteTo (matching rs dm)
        else if fst (check dm) then BlockedBy (snd (check dm)) else ResolveKey (key_of N q))"
  by (auto simp: plan_query_def Let_def split: if_splits list.splits)

lemma blocked_null_ip:
  assumes "cf_blocking_mode base = NullIp"
  shows "answers (blocked_response base request q) =
    (if q_type q = rt_A then [from_rdata (q_name q) (cf_blocked_ttl base) (DA (Ipv4 0 0 0 0))] else [])"
  using assms by (simp add: blocked_response_def base_response_def new_message_def add_answer_def Let_def)

lemma specified_or_fail_Inr:
  "specified_or_fail host m all = Inr ips \<Longrightarrow> ips \<noteq> [] \<and> (\<forall>ip \<in> set ips. \<not> is_unspecified ip \<and> ip \<in> set all)"
  by (simp add: specified_or_fail_def Let_def split: if_splits) auto

text \<open>Both lookups of a host plan to a query for that host; an AAAA one is answered with nothing.\<close>

lemma lookup_request_plan:
  "lookup_request N i host t = Inr m \<Longrightarrow> op_code (meta m) = OpQuery \<and> (\<exists>n. queries m = [query_of n t])"
  by (auto simp: lookup_request_def new_message_def Let_def split: option.splits)

lemma lookup_aaaa_empty:
  assumes "lookup D V i host rt_AAAA sv st = (Inr m, sv', st')"
  shows "aaaa_records m = []"
proof -
  obtain req where req: "lookup_request (dd_names D) i host rt_AAAA = Inr req"
    "handle_from D V req True sv st = (m, sv', st')"
    using assms by (auto simp: lookup_def split: sum.splits prod.splits)
  then have "m = base_response req"
    using lookup_request_plan [OF req(1)]
    by (auto simp: handle_from_def plan_query_def answer_nodata_def query_of_def Let_def)
  then show ?thesis
    by (simp add: aaaa_records_def base_response_def new_message_def List.map_filter_def Let_def)
qed

lemma specified_or_fail_blocked:
  "list_all is_unspecified all \<Longrightarrow> all \<noteq> [] \<Longrightarrow> specified_or_fail host m all = Inl (BlockedName host)"
  by (cases all) (auto simp: specified_or_fail_def resolve_failure_def filter_empty_conv list_all_iff)

section \<open>Properties\<close>

text \<open>A small instance for the witnesses: names are strings, one blocked name, a service with one
  upstream and an empty cache.\<close>

definition sample_names :: "string name_ops" where
  "sample_names = \<lparr>to_ascii = id, to_utf8 = id, show_name = id, from_utf8 = Some\<rparr>"

definition sample_codecs :: codecs where
  "sample_codecs = \<lparr>enc_request = (\<lambda>_. None), enc_detail = (\<lambda>_. None), enc_dns = (\<lambda>_. None),
     enc_event = (\<lambda>_. None), dec_request = (\<lambda>_. None), dec_detail = (\<lambda>_. None), dec_dns = (\<lambda>_. None),
     dec_value = (\<lambda>_. None), enc_settings = (\<lambda>_. []), dec_settings = (\<lambda>_. None)\<rparr>"

definition sample_deps :: "(nat \<times> (cache_key \<times> string cache_entry) list, string) dns_deps" where
  "sample_deps = \<lparr>dd_names = sample_names, dd_rt_show = (\<lambda>_. ''A''),
     dd_check = (\<lambda>n. (n = ''ads.test'', ''list'')), dd_codecs = sample_codecs, dd_lru = list_lru\<rparr>"

definition sample_service :: "(nat \<times> (cache_key \<times> string cache_entry) list) dns_service" where
  "sample_service =
     \<lparr>sv_rewrites = \<lparr>entries = [], file_path = ([], []), file_header = []\<rparr>,
      sv_cache = cache_new list_lru 8 0 0, sv_settings = from_config default_dns_config,
      sv_resolver = \<lparr>upstreams = [], mode = Failover, bootstrap = [], timeout = 0, preferred = 0\<rparr>,
      sv_base = default_dns_config, sv_store = ([], []), sv_listen = SockV4 (Ipv4 0 0 0 0) 53\<rparr>"

definition sample_query :: "string \<Rightarrow> string message" where
  "sample_query n = (new_message 9 MQuery OpQuery)\<lparr>queries := [query_of n rt_A]\<rparr>"

lemmas sample_defs = sample_names_def sample_codecs_def sample_deps_def sample_service_def sample_query_def

lemma sample_plan_blocked:
  "plan_query (dd_names sample_deps) (dd_check sample_deps) (sv_rewrites sample_service) (sample_query ''ads.test.'')
     = Answer (query_of ''ads.test.'' rt_A) ''ads.test'' (BlockedBy ''list'')"
  by code_simp

text \<open>whatever the query, the settings, the cache and the network, the answer carries the id and the
  questions of the request, is a non-authoritative response with recursion available, and has
  EDNS exactly when the request has.\<close>

theorem answer_echoes_request: "echoes request (fst (handle_from D V request proxy sv st))"
  by (rule handle_echo)

text \<open>the order of the decisions. A request that is no query, or asks nothing, is refused; AAAA gets
  an empty answer; then rewrites win over the block decision, and only a name that is neither
  rewritten nor blocked is looked up in the cache and upstream.\<close>

theorem plan_order:
  "plan_query N check rs request =
     (if op_code (meta request) \<noteq> OpQuery then Invalid NotImp
      else if queries request = [] then Invalid FormErr
      else let q = hd (queries request); dm = query_domain N q in
        Answer q dm
          (if q_type q = rt_AAAA then Nodata
           else if \<exists>r \<in> set (entries rs). rw_enabled r \<and> pattern_matches (rw_domain r) dm
             then RewriteTo (matching rs dm)
           else if fst (check dm) then BlockedBy (snd (check dm)) else ResolveKey (key_of N q)))"
  unfolding plan_query_def Let_def matching_nonempty by (cases "queries request") auto

text \<open>a blocked name is answered from the configuration alone. The network is not asked, and the
  rewrites, the cache and the upstream state stay as they were; in the null-address mode an A
  query gets the single address 0.0.0.0.\<close>

theorem blocked_answer:
  assumes "plan_query (dd_names D) (dd_check D) (sv_rewrites sv) request = Answer q dm (BlockedBy rule)"
  shows "fst (handle_from D V request proxy sv st) = blocked_response (sv_base sv) request q \<and>
    fst (snd (handle_from D V request proxy sv st)) = sv \<and>
    (cf_blocking_mode (sv_base sv) = NullIp \<longrightarrow>
       a_records (fst (handle_from D V request proxy sv st)) = (if q_type q = rt_A then [Ipv4 0 0 0 0] else []))"
proof -
  have "handle_from D V request proxy sv st = answer_blocked D V proxy request q dm rule sv st"
    using assms by (simp add: handle_from_def)
  then show ?thesis
    using blocked_null_ip [of "sv_base sv" request q]
    by (simp add: answer_blocked_def Let_def a_records_def List.map_filter_def from_rdata_def)
qed

theorem blocked_answer_witness:
  "\<forall>V proxy st. a_records (fst (handle_from sample_deps V (sample_query ''ads.test.'') proxy sample_service st))
     = [Ipv4 0 0 0 0]"
proof -
  have "cf_blocking_mode (sv_base sample_service) = NullIp"
    by (simp add: sample_service_def default_dns_config_def)
  moreover have "q_type (query_of ''ads.test.'' rt_A) = rt_A" by (simp add: query_of_def)
  ultimately show ?thesis using blocked_answer [OF sample_plan_blocked] by metis
qed

definition counted_domain :: "('c, 'n) dns_deps \<Rightarrow> 'c dns_service \<Rightarrow> 'n message \<Rightarrow> string" where
  "counted_domain D sv request =
     (case plan_query (dd_names D) (dd_check D) (sv_rewrites sv) request of Invalid _ \<Rightarrow> [] | Answer _ dm _ \<Rightarrow> dm)"

text \<open>every request is counted as exactly one DNS query, whichever way it is answered, and a query
  for a name excluded from the statistics is not counted at all.\<close>

theorem query_counted_once:
  "m_dns_queries (metrics (snd (snd (handle_from D V request proxy sv st)))) =
     m_dns_queries (metrics st) + (if stats_excluded st (counted_domain D sv request) then 0 else 1)"
proof (cases "plan_query (dd_names D) (dd_check D) (sv_rewrites sv) request")
  case (Invalid rc)
  then show ?thesis by (simp add: handle_from_def counted_domain_def metrics_count)
next
  case (Answer q dm v)
  have cd: "counted_domain D sv request = dm" using Answer by (simp add: counted_domain_def)
  show ?thesis
  proof (cases v)
    case Nodata
    with Answer cd show ?thesis by (simp add: handle_from_def answer_nodata_def record_query_def metrics_count Let_def)
  next
    case (RewriteTo as)
    with Answer cd show ?thesis
      by (simp add: handle_from_def answer_rewrite_def record_query_def metrics_count Let_def split: prod.splits)
  next
    case (BlockedBy rule)
    with Answer cd show ?thesis
      by (simp add: handle_from_def answer_blocked_def record_query_def metrics_count_block Let_def)
  next
    case (ResolveKey k)
    with Answer cd show ?thesis
      by (simp add: handle_from_def answer_resolve_def record_query_def metrics_count count_dns_error_def Let_def
          split: prod.splits option.splits sum.splits)
  qed
qed

text \<open>with ECH stripping on, no answer from the cache or from an upstream carries an ECH
  configuration.\<close>

theorem no_ech_when_stripping:
  assumes "ef_strip_ech (sv_settings sv)"
    and "plan_query (dd_names D) (dd_check D) (sv_rewrites sv) request = Answer q dm (ResolveKey k)"
  shows "\<not> answer_has_ech (fst (handle_from D V request proxy sv st))"
  using assms resolve_stripped by (simp add: handle_from_def)

theorem no_ech_when_stripping_witness:
  "\<forall>V proxy st. \<not> answer_has_ech (fst (handle_from sample_deps V (sample_query ''a.test.'') proxy
     (sample_service\<lparr>sv_settings := (sv_settings sample_service)\<lparr>ef_strip_ech := True\<rparr>\<rparr>) st))"
proof (intro allI, rule no_ech_when_stripping)
  show "plan_query (dd_names sample_deps) (dd_check sample_deps)
      (sv_rewrites (sample_service\<lparr>sv_settings := (sv_settings sample_service)\<lparr>ef_strip_ech := True\<rparr>\<rparr>))
      (sample_query ''a.test.'') = Answer (query_of ''a.test.'' rt_A) ''a.test''
        (ResolveKey (key_of sample_names (query_of ''a.test.'' rt_A)))"
    by code_simp
qed simp

text \<open>stripping is exact: it reports the number of ECH parameters there were in the answer and
  additional records, and keeps every other service parameter in its place.\<close>

theorem strip_ech_exact:
  "snd (strip_ech_params m) = sum_list (map ech_count (answers m @ additionals m)) \<and>
   map (\<lambda>r. svc_params_of (rr_data r)) (answers (fst (strip_ech_params m))) =
     map (\<lambda>r. map_option (filter (\<lambda>p. \<not> is_ech_param p)) (svc_params_of (rr_data r))) (answers m) \<and>
   map (\<lambda>r. svc_params_of (rr_data r)) (additionals (fst (strip_ech_params m))) =
     map (\<lambda>r. map_option (filter (\<lambda>p. \<not> is_ech_param p)) (svc_params_of (rr_data r))) (additionals m)"
proof -
  obtain as n ad k where s: "strip_records (answers m) = (as, n)" "strip_records (additionals m) = (ad, k)"
    by (cases "strip_records (answers m)"; cases "strip_records (additionals m)")
  have "n = sum_list (map ech_count (answers m))" "k = sum_list (map ech_count (additionals m))"
    "as = map (\<lambda>r. r\<lparr>rr_data := fst (strip_rdata (rr_data r))\<rparr>) (answers m)"
    "ad = map (\<lambda>r. r\<lparr>rr_data := fst (strip_rdata (rr_data r))\<rparr>) (additionals m)"
    using strip_records_map [of "answers m"] strip_records_map [of "additionals m"]
      strip_records_count [of "answers m"] strip_records_count [of "additionals m"] s by simp_all
  then show ?thesis
    using s by (simp add: strip_ech_params_def strip_rdata_params)
qed


definition sample_env :: "nat \<Rightarrow> string request_env" where
  "sample_env t =
     \<lparr>re_secs = 0, re_secs2 = 0, re_ms = 0, re_event_ms = 0, re_elapsed_ms = 0, re_now = t, re_later = t,
      re_stored = t, re_net = (\<lambda>_. \<lparr>net_id = 7, net_encoded = Inr [], net_random = 0,
        net_reply = (\<lambda>_. (Answered sample_reply, 3)), net_order = id\<rparr>),
      re_io_ok = True, re_trace = None\<rparr>"

definition sample_live :: "(nat \<times> (cache_key \<times> string cache_entry) list) dns_service" where
  "sample_live = sample_service\<lparr>sv_resolver := (sv_resolver sample_service)
     \<lparr>upstreams := [new_upstream \<lparr>ua_spec = ''u'', ua_name = [], ua_enabled = True, ua_scheme = Udp,
        ua_host = ''9.9.9.9'', ua_ip = None, ua_port = 53, ua_path = []\<rparr>]\<rparr>\<rparr>"

abbreviation "sample_state \<equiv> state_new False False"

abbreviation "sample_after \<equiv>
  fst (snd (handle_from sample_deps (sample_env 5) (sample_query ''a.test.'') False sample_live sample_state))"

lemma sample_lookup:
  "plan_query (dd_names sample_deps) (dd_check sample_deps) (sv_rewrites sample_live) (sample_query ''a.test.'')
     = Answer (query_of ''a.test.'' rt_A) ''a.test'' (ResolveKey (key_of sample_names (query_of ''a.test.'' rt_A)))"
  "plan_query (dd_names sample_deps) (dd_check sample_deps) (sv_rewrites sample_after) (sample_query ''a.test.'')
     = Answer (query_of ''a.test.'' rt_A) ''a.test'' (ResolveKey (key_of sample_names (query_of ''a.test.'' rt_A)))"
proof -
  show *: "plan_query (dd_names sample_deps) (dd_check sample_deps) (sv_rewrites sample_live) (sample_query ''a.test.'')
      = Answer (query_of ''a.test.'' rt_A) ''a.test'' (ResolveKey (key_of sample_names (query_of ''a.test.'' rt_A)))"
    by code_simp
  then show "plan_query (dd_names sample_deps) (dd_check sample_deps) (sv_rewrites sample_after) (sample_query ''a.test.'')
      = Answer (query_of ''a.test.'' rt_A) ''a.test'' (ResolveKey (key_of sample_names (query_of ''a.test.'' rt_A)))"
    by (simp only: handle_rewrites)
qed


lemma resolve_name_addresses:
  assumes "fst (resolve_name D V W i j host want_ipv6 sv st) = Inr ips"
  shows "ips \<noteq> [] \<and> (\<forall>ip \<in> set ips. \<not> is_unspecified ip \<and> is_v4 ip)"
proof -
  obtain a_resp sv1 st1 where a: "lookup D V i host rt_A sv st = (Inr a_resp, sv1, st1)"
    using assms by (cases "lookup D V i host rt_A sv st") (auto simp: resolve_name_def split: sum.splits)
  have "(case fst (lookup D W j host rt_AAAA sv1 st1) of Inr m \<Rightarrow> map V6 (aaaa_records m) | Inl _ \<Rightarrow> []) = []"
    by (cases "lookup D W j host rt_AAAA sv1 st1") (auto dest: lookup_aaaa_empty split: sum.splits)
  then have "specified_or_fail host a_resp (map V4 (a_records a_resp)) = Inr ips"
    using assms a by (auto simp: resolve_name_def Let_def split: prod.splits if_splits)
  from specified_or_fail_Inr [OF this] show ?thesis by auto
qed

text \<open>C26: an in-process lookup that succeeds hands out addresses, all of them specified and all of them
  IPv4, also when IPv6 was asked for: the AAAA query it makes is always answered with no data.\<close>

theorem lookup_addresses:
  assumes "fst (resolve_name D V W i j host want_ipv6 sv st) = Inr ips"
  shows "ips \<noteq> [] \<and> (\<forall>ip \<in> set ips. \<not> is_unspecified ip \<and> is_v4 ip)"
  by (rule resolve_name_addresses [OF assms])

definition sample_rewriting :: "(nat \<times> (cache_key \<times> string cache_entry) list) dns_service" where
  "sample_rewriting = sample_service\<lparr>sv_rewrites := (sv_rewrites sample_service)
     \<lparr>entries := [\<lparr>rw_domain = ''a.test'', rw_answer = RV4 (Ipv4 10 0 0 9), rw_enabled = True\<rparr>]\<rparr>\<rparr>"

theorem lookup_addresses_witness:
  "fst (resolve_name sample_deps (sample_env 5) (sample_env 5) 7 7 ''a.test'' True sample_rewriting sample_state)
     = Inr [V4 (Ipv4 10 0 0 9)] \<and> \<not> is_unspecified (V4 (Ipv4 10 0 0 9)) \<and> is_v4 (V4 (Ipv4 10 0 0 9))"
proof -
  have "fst (resolve_name sample_deps (sample_env 5) (sample_env 5) 7 7 ''a.test'' True sample_rewriting sample_state)
      = Inr [V4 (Ipv4 10 0 0 9)]"
    by code_simp
  with lookup_addresses [OF this] show ?thesis by simp
qed

text \<open>C27: a failed resolution is counted and put, with the name, at the end of the error log also when
  the name is excluded from the statistics.\<close>

theorem excluded_failure_logged:
  assumes "stats_excluded st dm"
    and "plan_query (dd_names D) (dd_check D) (sv_rewrites sv) request = Answer q dm (ResolveKey k)"
    and "fst (cache_get (dd_lru D) (re_now V) (re_later V) k (sv_cache sv)) = None"
    and "fst (resolve (re_net V q) (sv_resolver sv)) = Inl e"
  shows "m_dns_errors (metrics (snd (snd (handle_from D V request proxy sv st)))) = m_dns_errors (metrics st) + 1 \<and>
    ev_message (last (ring (errors (snd (snd (handle_from D V request proxy sv st)))))) =
      ''dns '' @ dm @ '': '' @ show_resolve_error e"
proof -
  obtain c where "cache_get (dd_lru D) (re_now V) (re_later V) k (sv_cache sv) = (None, c)"
    using assms(3) by (cases "cache_get (dd_lru D) (re_now V) (re_later V) k (sv_cache sv)") auto
  moreover obtain r where "resolve (re_net V q) (sv_resolver sv) = (Inl e, r)"
    using assms(4) by (cases "resolve (re_net V q) (sv_resolver sv)") auto
  ultimately have "snd (snd (handle_from D V request proxy sv st)) =
      record_query D V proxy q dm (error_response request ServFail) (RecError (show_resolve_error e))
        (log_event (dd_codecs D) (re_io_ok V) (re_event_ms V) (re_trace V) EvError
           (''dns '' @ dm @ '': '' @ show_resolve_error e) (count_dns_error st))"
    using assms(1,2) by (simp add: handle_from_def answer_resolve_def count_excluded Let_def)
  moreover have "stats_excluded (count_dns_error st) dm"
    using assms(1) by (simp add: count_dns_error_def stats_excluded_def)
  ultimately show ?thesis
    by (simp add: record_query_def record_dns_excluded count_dns_error_def errors_log_event)
qed

definition sample_excluding :: shared_state where
  "sample_excluding = sample_state\<lparr>exclusions := Some \<lparr>entries = [''a.test''], file_path = ([], []), file_header = []\<rparr>\<rparr>"

theorem excluded_failure_logged_witness:
  "stats_excluded sample_excluding ''a.test'' \<and>
   ev_message (last (ring (errors (snd (snd (handle_from sample_deps (sample_env 5) (sample_query ''a.test.'') False
     sample_service sample_excluding)))))) = ''dns a.test: no DNS upstreams configured''"
proof -
  have ex: "stats_excluded sample_excluding ''a.test''" by code_simp
  have pl: "plan_query (dd_names sample_deps) (dd_check sample_deps) (sv_rewrites sample_service) (sample_query ''a.test.'')
      = Answer (query_of ''a.test.'' rt_A) ''a.test'' (ResolveKey (key_of sample_names (query_of ''a.test.'' rt_A)))"
    by code_simp
  have miss: "fst (cache_get (dd_lru sample_deps) (re_now (sample_env 5)) (re_later (sample_env 5))
      (key_of sample_names (query_of ''a.test.'' rt_A)) (sv_cache sample_service)) = None"
    by code_simp
  have "fst (resolve (re_net (sample_env 5) (query_of ''a.test.'' rt_A)) (sv_resolver sample_service)) = Inl NoUpstreams"
    by code_simp
  with excluded_failure_logged [OF ex pl miss] ex show ?thesis by simp
qed

end
