(* ===== verification/Dns_Admin.thy ===== *)
theory Dns_Admin
  imports Dns_Service
begin

text \<open>
  The administrative half of \<open>dns/mod.rs\<close>: construction of the service, changing and resetting its
  settings, editing the upstream list, flushing the cache. \<open>to_json\<close> and \<open>of_json\<close> are the JSON
  encoder and decoder of the override file.
\<close>

section \<open>Construction\<close>

datatype service_error = BadListen string | BadUpstreams spec_error

text \<open>The service built around settings and the resolver made from them.\<close>

definition build_service ::
  "('c, 'n) cache_lru \<Rightarrow> dns_config \<Rightarrow> path \<Rightarrow> socket_addr \<Rightarrow> rewrite_store \<Rightarrow> effective \<Rightarrow> resolver \<Rightarrow> 'c dns_service" where
  "build_service L cfg store listen rs e r =
     \<lparr>sv_rewrites = rs, sv_cache = cache_new L (ef_cache_size e) (ef_min_ttl e) (ef_max_ttl e),
      sv_settings = e, sv_resolver = r, sv_base = cfg, sv_store = store, sv_listen = listen\<rparr>"

definition build_resolver :: "dns_config \<Rightarrow> effective \<Rightarrow> spec_error + resolver" where
  "build_resolver cfg e = resolver_new (ef_upstreams e) (ef_upstream_mode e) (ef_bootstrap e) (cf_timeout_ms cfg)"

definition base_upstreams :: "effective \<Rightarrow> effective \<Rightarrow> effective" where
  "base_upstreams base e =
     e\<lparr>ef_upstreams := ef_upstreams base, ef_upstream_mode := ef_upstream_mode base,
       ef_bootstrap := ef_bootstrap base\<rparr>"

text \<open>Saved upstreams that do not parse are replaced by those of the configuration.\<close>

definition choose_settings :: "dns_config \<Rightarrow> effective \<Rightarrow> spec_error + (effective \<times> resolver)" where
  "choose_settings cfg eff =
     (case build_resolver cfg eff of
        Inr r \<Rightarrow> Inr (eff, r)
      | Inl _ \<Rightarrow>
          (let e2 = base_upstreams (from_config cfg) eff
           in and_then (build_resolver cfg e2) (\<lambda>r. Inr (e2, r))))"

definition service_new ::
  "('c, 'n) cache_lru \<Rightarrow> (dns_overrides \<Rightarrow> string) \<Rightarrow> (string \<Rightarrow> dns_overrides option) \<Rightarrow> dns_config \<Rightarrow> string \<Rightarrow>
   disk \<Rightarrow> (service_error + 'c dns_service) \<times> disk" where
  "service_new L to_json of_json cfg dir d0 =
     (case parse_socket_addr (cf_listen cfg) of
        None \<Rightarrow> (Inl (BadListen (cf_listen cfg)), d0)
      | Some listen \<Rightarrow>
          (let store = (dir, ''dns-settings.json'');
               d = ensure_overrides to_json store (from_effective (from_config cfg)) d0;
               eff = with_overrides (from_config cfg) (load_overrides of_json no_overrides store d)
           in case choose_settings cfg eff of
                Inl e \<Rightarrow> (Inl (BadUpstreams e), d)
              | Inr (e, r) \<Rightarrow>
                  (Inr (build_service L cfg store listen (load_rewrites (dir, ''dns-rewrites.conf'') d) e r), d)))"

section \<open>Settings\<close>

datatype apply_error = ApInvalid settings_error | ApSpec spec_error | ApIo io_error

definition next_resolver :: "effective \<Rightarrow> 'c dns_service \<Rightarrow> spec_error + resolver" where
  "next_resolver eff sv =
     (if ef_upstreams eff \<noteq> ef_upstreams (sv_settings sv)
         \<or> ef_upstream_mode eff \<noteq> ef_upstream_mode (sv_settings sv)
         \<or> ef_bootstrap eff \<noteq> ef_bootstrap (sv_settings sv)
      then and_then (resolver_new (ef_upstreams eff) (ef_upstream_mode eff) (ef_bootstrap eff)
                       (cf_timeout_ms (sv_base sv)))
             (\<lambda>r. Inr (inherit_ech r (sv_resolver sv)))
      else Inr (sv_resolver sv))"

definition realize ::
  "('c, 'n) cache_lru \<Rightarrow> effective \<Rightarrow> (disk \<Rightarrow> (io_error + unit) \<times> disk) \<Rightarrow> 'c dns_service \<Rightarrow> disk \<Rightarrow>
   (apply_error + unit) \<times> 'c dns_service \<times> disk" where
  "realize L eff persist_fn sv d =
     (case validate_settings eff of
        Inl e \<Rightarrow> (Inl (ApInvalid e), sv, d)
      | Inr _ \<Rightarrow>
          (case next_resolver eff sv of
             Inl e \<Rightarrow> (Inl (ApSpec e), sv, d)
           | Inr r \<Rightarrow>
               (case persist_fn d of
                  (Inl e, d') \<Rightarrow> (Inl (ApIo e), sv, d')
                | (Inr _, d') \<Rightarrow>
                    (Inr (), sv\<lparr>sv_cache := cache_set_config L (ef_cache_size eff) (ef_min_ttl eff)
                                             (ef_max_ttl eff) (sv_cache sv),
                                sv_resolver := r, sv_settings := eff\<rparr>, d'))))"

definition apply_settings ::
  "('c, 'n) cache_lru \<Rightarrow> (dns_overrides \<Rightarrow> string) \<Rightarrow> (string \<Rightarrow> dns_overrides option) \<Rightarrow> dns_overrides \<Rightarrow>
   'c dns_service \<Rightarrow> disk \<Rightarrow> (apply_error + unit) \<times> 'c dns_service \<times> disk" where
  "apply_settings L to_json of_json upd sv d =
     realize L (with_overrides (sv_settings sv) upd)
       (\<lambda>d. save_overrides to_json (sv_store sv)
              (merged_with (load_overrides of_json no_overrides (sv_store sv) d) upd) d) sv d"

definition reset_settings ::
  "('c, 'n) cache_lru \<Rightarrow> 'c dns_service \<Rightarrow> disk \<Rightarrow> (apply_error + unit) \<times> 'c dns_service \<times> disk" where
  "reset_settings L sv d = realize L (from_config (sv_base sv)) (reset_overrides (sv_store sv)) sv d"

definition flush_cache ::
  "('c, 'n) cache_lru \<Rightarrow> codecs \<Rightarrow> bool \<Rightarrow> u64 \<Rightarrow> 'c dns_service \<Rightarrow> shared_state \<Rightarrow>
   nat \<times> 'c dns_service \<times> shared_state" where
  "flush_cache L K io_ok ms sv st =
     (case cache_clear L (sv_cache sv) of (n, c) \<Rightarrow>
        (n, sv\<lparr>sv_cache := c\<rparr>,
         log_event K io_ok ms None EvInfo (''dns cache flushed ('' @ show_nat n @ '' entries)'') st))"

section \<open>Editing the upstream list\<close>

datatype edit_error =
    NoSuchUpstream string
  | EditSpec spec_error
  | EditLookup lookup_error
  | Ipv6Only string
  | AlreadyConfigured string
  | DidNotAnswer string
  | EditApply apply_error

definition bare_spec :: "string \<Rightarrow> string" where
  "bare_spec spec = trim_start (trim_start_matches CHR ''!'' spec)"

definition added_spec :: "string \<Rightarrow> string \<Rightarrow> upstream_addr \<Rightarrow> ipv4 \<Rightarrow> string" where
  "added_spec name sch typed ip =
     (let pth = (if ua_scheme typed = Https then ua_path typed else []);
          pin = (if hostname typed = [] then [] else ''?ip='' @ show_ipv4 ip)
      in sch @ ''://'' @ ua_host typed @ '':'' @ show_nat (unat (ua_port typed)) @ pth @ pin @ ''#'' @ name)"

text \<open>The new list, the message, and for an addition its spec and how to name it.\<close>

definition edit_list ::
  "'n name_ops \<Rightarrow> (socket_addr \<Rightarrow> 'n boot_reply) \<Rightarrow> resolver \<Rightarrow> upstream_command \<Rightarrow> string list \<Rightarrow>
   edit_error + (string list \<times> string \<times> (string \<times> string) option)" where
  "edit_list N ask r cmd xs =
     (case cmd of
        DeleteUpstream spec \<Rightarrow>
          (case position (\<lambda>s. s = spec) xs of
             None \<Rightarrow> Inl (NoSuchUpstream spec)
           | Some i \<Rightarrow> Inr (remove_at i xs, ''dns upstream removed: '' @ spec, None))
      | SetEnabledUpstream spec en \<Rightarrow>
          (case position (\<lambda>s. s = spec) xs of
             None \<Rightarrow> Inl (NoSuchUpstream spec)
           | Some i \<Rightarrow>
               (let new = (if en then bare_spec spec else ''!'' @ bare_spec spec) in
                and_then (map_err EditSpec (parse_upstream new)) (\<lambda>addr.
                  Inr (xs[i := new],
                       ''dns upstream '' @ (if en then ''enabled'' else ''disabled'') @ '': '' @ addr_label addr,
                       None))))
      | AddUpstream name host sch \<Rightarrow>
          and_then (map_err EditSpec (parse_upstream (sch @ ''://'' @ host))) (\<lambda>typed.
          and_then (map_err EditLookup (resolve_host N ask (ua_host typed) r)) (\<lambda>ip.
          (case ip of
             V6 _ \<Rightarrow> Inl (Ipv6Only host)
           | V4 v4 \<Rightarrow>
               (let spec = added_spec name sch typed v4 in
                and_then (map_err EditSpec (parse_upstream spec)) (\<lambda>addr.
                  if list_ex (\<lambda>s. case parse_upstream s of Inr a \<Rightarrow> same_server a addr | Inl _ \<Rightarrow> False) xs
                  then Inl (AlreadyConfigured (ua_host addr))
                  else Inr (xs @ [spec],
                            ''dns upstream added: '' @ name @ '' ('' @ show_ipv4 v4 @ '')'',
                            Some (spec, name @ '' ('' @ addr_address addr @ '')''))))))))"

text \<open>\<open>probe\<close> and \<open>att\<close> are the test query and the attempts of the probe.\<close>

definition edit_upstreams ::
  "('c, 'n) dns_deps \<Rightarrow> (dns_overrides \<Rightarrow> string) \<Rightarrow> (string \<Rightarrow> dns_overrides option) \<Rightarrow>
   (socket_addr \<Rightarrow> 'n boot_reply) \<Rightarrow> (string \<Rightarrow> u16 option) \<Rightarrow> (nat \<Rightarrow> 'n attempt) \<Rightarrow> upstream_command \<Rightarrow>
   'c dns_service \<Rightarrow> disk \<Rightarrow> (edit_error + string) \<times> 'c dns_service \<times> disk" where
  "edit_upstreams D to_json of_json ask probe att cmd sv d =
     (let previous = ef_upstreams (sv_settings sv);
          set_list = (\<lambda>l. apply_settings (dd_lru D) to_json of_json (no_overrides\<lparr>ov_upstreams := Some l\<rparr>))
      in case edit_list (dd_names D) ask (sv_resolver sv) cmd previous of
           Inl e \<Rightarrow> (Inl e, sv, d)
         | Inr (l, msg, added) \<Rightarrow>
             (case set_list l sv d of
                (Inl e, sv1, d1) \<Rightarrow> (Inl (EditApply e), sv1, d1)
              | (Inr _, sv1, d1) \<Rightarrow>
                  (case added of
                     None \<Rightarrow> (Inr msg, sv1, d1)
                   | Some (spec, what) \<Rightarrow>
                       (let pd = ef_probe_domain (sv_settings sv1) in
                        if pd = [] then (Inr msg, sv1, d1)
                        else case probe_ech_spec spec (probe pd) att (sv_resolver sv1) of
                          (Some _, r2) \<Rightarrow> (Inr msg, sv1\<lparr>sv_resolver := r2\<rparr>, d1)
                        | (None, r2) \<Rightarrow>
                            (case set_list previous (sv1\<lparr>sv_resolver := r2\<rparr>) d1 of
                               (Inl e, sv2, d2) \<Rightarrow> (Inl (EditApply e), sv2, d2)
                             | (Inr _, sv2, d2) \<Rightarrow> (Inl (DidNotAnswer what), sv2, d2))))))"

section \<open>Consistency\<close>

text \<open>The resolver is built from the settings in force.\<close>

definition resolver_matches :: "resolver \<Rightarrow> effective \<Rightarrow> bool" where
  "resolver_matches r e \<longleftrightarrow>
     try_map parse_upstream (ef_upstreams e) = Inr (map up_addr (upstreams r)) \<and>
     try_map parse_bootstrap (ef_bootstrap e) = Inr (bootstrap r) \<and> mode r = ef_upstream_mode e"

definition service_ok :: "'c dns_service \<Rightarrow> bool" where
  "service_ok sv \<longleftrightarrow> resolver_matches (sv_resolver sv) (sv_settings sv)
     \<and> min_ttl (sv_cache sv) = ef_min_ttl (sv_settings sv)
     \<and> max_ttl (sv_cache sv) = ef_max_ttl (sv_settings sv)
     \<and> (c_entries (sv_cache sv) = None \<longleftrightarrow> ef_cache_size (sv_settings sv) = 0)"

text \<open>The settings in force are what a restart would load.\<close>

definition settings_on_file :: "(string \<Rightarrow> dns_overrides option) \<Rightarrow> 'c dns_service \<Rightarrow> disk \<Rightarrow> bool" where
  "settings_on_file of_json sv d \<longleftrightarrow>
     sv_settings sv = with_overrides (from_config (sv_base sv)) (load_overrides of_json no_overrides (sv_store sv) d)"

lemma resolver_new_matches:
  "resolver_new (ef_upstreams e) (ef_upstream_mode e) (ef_bootstrap e) t = Inr r \<Longrightarrow> resolver_matches r e"
  by (auto simp: resolver_new_def and_then_Inr resolver_matches_def new_upstream_def comp_def)

lemma inherit_ech_addr: "map up_addr (upstreams (inherit_ech r old)) = map up_addr (upstreams r)"
  by (simp add: inherit_ech_def comp_def split: option.splits)

lemma resolver_matches_inherit: "resolver_matches (inherit_ech r old) e = resolver_matches r e"
  by (simp add: resolver_matches_def inherit_ech_addr) (simp add: inherit_ech_def)

lemma resolver_matches_note: "resolver_matches (note_attempt i t f r) e = resolver_matches r e"
proof -
  have "map up_addr (upstreams (note_attempt i t f r)) = map up_addr (upstreams r)"
    by (rule nth_equalityI) simp_all
  then show ?thesis by (simp add: resolver_matches_def)
qed

lemma resolver_matches_preferred [simp]: "resolver_matches (r\<lparr>preferred := p\<rparr>) e = resolver_matches r e"
  by (simp add: resolver_matches_def)

lemma resolver_matches_sequential:
  "resolver_matches (snd (resolve_sequential reply i e order r)) s = resolver_matches r s"
  by (induction order arbitrary: e r)
    (auto simp: Let_def resolver_matches_note split: prod.splits option.splits)

lemma resolver_matches_parallel:
  "resolver_matches (snd (resolve_parallel i e arr r)) s = resolver_matches r s"
  by (induction i e arr r rule: resolve_parallel.induct)
    (auto simp: Let_def resolver_matches_note split: option.splits)

lemma resolver_matches_resolve: "resolver_matches (snd (resolve W r)) s = resolver_matches r s"
  by (simp add: resolve_def Let_def resolver_matches_sequential resolver_matches_parallel split: sum.splits)

lemma next_resolver_matches:
  assumes "next_resolver eff sv = Inr r" "resolver_matches (sv_resolver sv) (sv_settings sv)"
  shows "resolver_matches r eff"
proof (cases "ef_upstreams eff \<noteq> ef_upstreams (sv_settings sv)
         \<or> ef_upstream_mode eff \<noteq> ef_upstream_mode (sv_settings sv)
         \<or> ef_bootstrap eff \<noteq> ef_bootstrap (sv_settings sv)")
  case True
  with assms(1) show ?thesis
    by (auto simp: next_resolver_def and_then_Inr resolver_matches_inherit intro: resolver_new_matches)
next
  case False
  with assms show ?thesis by (auto simp: next_resolver_def resolver_matches_def)
qed

lemma realize_cases:
  assumes "realize L eff pf sv d = (res, sv', d')"
  shows "res = Inl e \<Longrightarrow> sv' = sv"
    and "res = Inr () \<Longrightarrow> validate_settings eff = Inr () \<and> (\<exists>r. next_resolver eff sv = Inr r \<and>
      sv' = sv\<lparr>sv_cache := cache_set_config L (ef_cache_size eff) (ef_min_ttl eff) (ef_max_ttl eff) (sv_cache sv),
               sv_resolver := r, sv_settings := eff\<rparr>) \<and> pf d = (Inr (), d')"
  using assms by (auto simp: realize_def split: sum.splits prod.splits)

lemma realize_ok:
  assumes "realize L eff pf sv d = (res, sv', d')" "service_ok sv"
  shows "service_ok sv'"
proof (cases res)
  case (Inl e)
  with realize_cases(1) [OF assms(1)] assms(2) show ?thesis by simp
next
  case (Inr u)
  with realize_cases(2) [OF assms(1)] obtain r where r: "next_resolver eff sv = Inr r"
    "sv' = sv\<lparr>sv_cache := cache_set_config L (ef_cache_size eff) (ef_min_ttl eff) (ef_max_ttl eff) (sv_cache sv),
               sv_resolver := r, sv_settings := eff\<rparr>" by auto
  with next_resolver_matches [OF r(1)] assms(2) show ?thesis
    by (simp add: service_ok_def cache_set_config_def split: option.splits)
qed

lemma load_after_save:
  assumes "save_overrides to_json p x d = (Inr (), d')" "of_json (to_json x) = Some x"
  shows "load_overrides of_json dflt p d' = x"
  using assms
  by (auto simp: save_overrides_def write_file_def load_overrides_def read_to_string_def
      split: sum.splits option.splits prod.splits)

lemma load_after_reset:
  assumes "reset_overrides p d = (Inr (), d')"
  shows "load_overrides of_json dflt p d' = dflt"
  using assms
  by (auto simp: reset_overrides_def path_exists_def load_overrides_def read_to_string_def
      split: if_splits option.splits)

lemma apply_on_file:
  assumes "apply_settings L to_json of_json upd sv d = (Inr (), sv', d')"
    and "settings_on_file of_json sv d"
    and "m = merged_with (load_overrides of_json no_overrides (sv_store sv) d) upd" "of_json (to_json m) = Some m"
  shows "settings_on_file of_json sv' d'"
proof -
  have saved: "save_overrides to_json (sv_store sv) m d = (Inr (), d')"
    and sv': "sv_settings sv' = with_overrides (sv_settings sv) upd" "sv_base sv' = sv_base sv" "sv_store sv' = sv_store sv"
    using realize_cases(2) [OF assms(1) [unfolded apply_settings_def]] assms(3) by auto
  have "load_overrides of_json no_overrides (sv_store sv) d' = m"
    by (rule load_after_save [OF saved]) (rule assms(4))
  with sv' assms(2,3) show ?thesis by (simp add: settings_on_file_def with_merged)
qed

lemma reset_on_file:
  assumes "reset_settings L sv d = (Inr (), sv', d')"
  shows "settings_on_file of_json sv' d'"
proof -
  have gone: "reset_overrides (sv_store sv) d = (Inr (), d')"
    and sv': "sv_settings sv' = from_config (sv_base sv)" "sv_base sv' = sv_base sv" "sv_store sv' = sv_store sv"
    using realize_cases(2) [OF assms [unfolded reset_settings_def]] by auto
  have "load_overrides of_json no_overrides (sv_store sv) d' = no_overrides"
    by (rule load_after_reset [OF gone])
  with sv' show ?thesis by (simp add: settings_on_file_def with_no_overrides)
qed

section \<open>The states of the service\<close>

lemma resolver_matches_set_ech: "resolver_matches (set_ech i s r) e = resolver_matches r e"
proof -
  have "map up_addr (upstreams (set_ech i s r)) = map up_addr (upstreams r)"
    by (simp add: set_ech_def map_update)
      (metis list_update_id map_update nth_map list_update_beyond not_less length_map)
  then show ?thesis by (simp add: resolver_matches_def) (simp add: set_ech_def)
qed

lemma resolver_matches_probe_one: "resolver_matches (snd (probe_one i a j r)) e = resolver_matches r e"
  by (simp add: probe_one_def resolver_matches_set_ech Let_def split: option.splits)

lemma resolver_matches_probe_spec: "resolver_matches (snd (probe_ech_spec sp pr at r)) e = resolver_matches r e"
  by (simp add: probe_ech_spec_def resolver_matches_probe_one split: option.splits)

lemma resolver_matches_probe: "resolver_matches (snd (probe_ech pr at r)) e = resolver_matches r e"
proof -
  have "resolver_matches (snd (fold (\<lambda>idx (n, r). case probe_one i (at idx) idx r of
      (Some _, r') \<Rightarrow> (Suc n, r') | (None, r') \<Rightarrow> (n, r')) xs (n, r))) e = resolver_matches r e" for i xs n r
  proof (induction xs arbitrary: n r)
    case (Cons x xs)
    show ?case
      using Cons resolver_matches_probe_one [of i "at x" x r e]
      by (cases "probe_one i (at x) x r"; cases "fst (probe_one i (at x) x r)") simp_all
  qed simp
  then show ?thesis by (simp add: probe_ech_def split: option.splits)
qed

lemma resolver_matches_reset: "resolver_matches (reset_stats r) e = resolver_matches r e"
  by (simp add: resolver_matches_def reset_stats_def comp_def)

lemma resolver_matches_rewrite:
  "resolver_matches (snd (rewrite_answers N W q as m r)) e = resolver_matches r e"
proof (induction N W q as m r rule: rewrite_answers.induct)
  case (3 N W q target as resp r)
  then show ?case
    using resolver_matches_resolve [of "W (query_of (the (from_utf8 N (target @ ''.''))) (q_type q))" r e]
    by (auto simp: Let_def split: option.splits prod.splits sum.splits)
qed simp_all

lemma cache_get_config:
  assumes "cache_get L now later k c = (x, c')"
  shows "min_ttl c' = min_ttl c" "max_ttl c' = max_ttl c" "c_entries c' = None \<longleftrightarrow> c_entries c = None"
  using assms by (auto simp: cache_get_def Let_def split: option.splits prod.splits if_splits)

lemma cache_put_config:
  "min_ttl (cache_put L t k m c) = min_ttl c" "max_ttl (cache_put L t k m c) = max_ttl c"
  "c_entries (cache_put L t k m c) = None \<longleftrightarrow> c_entries c = None"
  by (auto simp: cache_put_def Let_def split: option.splits)

lemma answer_resolve_ok:
  assumes "service_ok sv"
  shows "service_ok (fst (snd (answer_resolve D V proxy request q dm k sv st)))"
proof -
  obtain x c where g: "cache_get (dd_lru D) (re_now V) (re_later V) k (sv_cache sv) = (x, c)"
    by (cases "cache_get (dd_lru D) (re_now V) (re_later V) k (sv_cache sv)")
  obtain y r where w: "resolve (re_net V q) (sv_resolver sv) = (y, r)"
    by (cases "resolve (re_net V q) (sv_resolver sv)")
  note cfg = cache_get_config [OF g]
  have r: "resolver_matches r (sv_settings sv)"
    using assms resolver_matches_resolve [of "re_net V q" "sv_resolver sv" "sv_settings sv"] w
    by (simp add: service_ok_def)
  show ?thesis
    using assms cfg r
    by (cases x; cases y) (auto simp: answer_resolve_def g w Let_def service_ok_def cache_put_config)
qed

lemma handle_ok:
  assumes "service_ok sv"
  shows "service_ok (fst (snd (handle_from D V request proxy sv st)))"
proof (cases "plan_query (dd_names D) (dd_check D) (sv_rewrites sv) request")
  case (Invalid rc)
  with assms show ?thesis by (simp add: handle_from_def)
next
  case (Answer q dm v)
  have "service_ok (fst (snd (answer_rewrite D V proxy request q dm as sv st')))" for as st'
    using assms resolver_matches_rewrite [of "dd_names D" "re_net V" q as "base_response request" "sv_resolver sv"]
    by (cases "rewrite_answers (dd_names D) (re_net V) q as (base_response request) (sv_resolver sv)")
      (simp add: answer_rewrite_def rewrite_response_def service_ok_def)
  with Answer assms answer_resolve_ok show ?thesis
    by (cases v) (simp_all add: handle_from_def answer_nodata_def answer_blocked_def Let_def)
qed

lemma flush_ok: "service_ok sv \<Longrightarrow> service_ok (fst (snd (flush_cache L K ok ms sv st)))"
  by (auto simp: flush_cache_def cache_clear_def service_ok_def split: option.splits)

lemma choose_settings_ok:
  assumes "choose_settings cfg eff = Inr (e, r)" "normalized eff = eff"
  shows "resolver_matches r e \<and> normalized e = e"
proof -
  have "normalized (base_upstreams (from_config cfg) eff) = base_upstreams (from_config cfg) eff"
    using assms(2) normalized_from_config [of cfg]
    by (cases eff; cases "from_config cfg") (simp add: normalized_def base_upstreams_def)
  with assms show ?thesis
    by (auto simp: choose_settings_def build_resolver_def and_then_Inr Let_def
        intro: resolver_new_matches split: sum.splits)
qed

lemma service_new_ok:
  assumes "service_new L to_json of_json cfg dir d0 = (Inr sv, d)"
  shows "service_ok sv \<and> normalized (sv_settings sv) = sv_settings sv"
proof -
  obtain listen eff e r rs where "sv = build_service L cfg (dir, ''dns-settings.json'') listen rs e r"
    "choose_settings cfg eff = Inr (e, r)" "normalized eff = eff"
    using assms by (simp add: service_new_def Let_def split: option.splits sum.splits prod.splits)
      (metis normalized_with)
  with choose_settings_ok [of cfg eff e r] show ?thesis
    by (simp add: build_service_def service_ok_def cache_new_def)
qed

lemma apply_base:
  "apply_settings L tj oj upd sv d = (r, sv', d') \<Longrightarrow> sv_base sv' = sv_base sv \<and> sv_store sv' = sv_store sv"
  "reset_settings L sv d = (r, sv', d') \<Longrightarrow> sv_base sv' = sv_base sv \<and> sv_store sv' = sv_store sv"
  by (auto simp: apply_settings_def reset_settings_def realize_def split: sum.splits prod.splits)

lemma apply_normalized:
  assumes "apply_settings L tj oj upd sv d = (r, sv', d')" "normalized (sv_settings sv) = sv_settings sv"
  shows "normalized (sv_settings sv') = sv_settings sv'"
  using assms by (auto simp: apply_settings_def realize_def split: sum.splits prod.splits)

lemma reset_normalized:
  assumes "reset_settings L sv d = (r, sv', d')" "normalized (sv_settings sv) = sv_settings sv"
  shows "normalized (sv_settings sv') = sv_settings sv'"
  using assms by (auto simp: reset_settings_def realize_def split: sum.splits prod.splits)

definition service_inv :: "'c dns_service \<Rightarrow> bool" where
  "service_inv sv \<longleftrightarrow> service_ok sv \<and> normalized (sv_settings sv) = sv_settings sv"

lemma service_inv_resolver:
  "service_inv sv \<Longrightarrow> resolver_matches r (sv_settings sv) \<Longrightarrow> service_inv (sv\<lparr>sv_resolver := r\<rparr>)"
  by (simp add: service_inv_def service_ok_def)

lemma apply_inv:
  assumes "apply_settings L tj oj upd sv d = (r, sv', d')" "service_inv sv"
  shows "service_inv sv'"
  using assms apply_normalized [OF assms(1)] realize_ok [OF assms(1) [unfolded apply_settings_def]]
  by (simp add: service_inv_def)

lemma reset_inv:
  assumes "reset_settings L sv d = (r, sv', d')" "service_inv sv"
  shows "service_inv sv'"
  using assms reset_normalized [OF assms(1)] realize_ok [OF assms(1) [unfolded reset_settings_def]]
  by (simp add: service_inv_def)

lemma edit_inv:
  assumes "edit_upstreams D tj oj ask probe att cmd sv d = (r, sv', d')" "service_inv sv"
  shows "service_inv sv'"
proof (cases "edit_list (dd_names D) ask (sv_resolver sv) cmd (ef_upstreams (sv_settings sv))")
  case (Inl e)
  with assms show ?thesis by (simp add: edit_upstreams_def)
next
  case (Inr res)
  obtain l msg added where res: "res = (l, msg, added)" by (cases res)
  let ?set = "\<lambda>l. apply_settings (dd_lru D) tj oj (no_overrides\<lparr>ov_upstreams := Some l\<rparr>)"
  obtain r1 sv1 d1 where s1: "?set l sv d = (r1, sv1, d1)" by (cases "?set l sv d")
  note i1 = apply_inv [OF s1 assms(2)]
  show ?thesis
  proof (cases "isl r1 \<or> added = None \<or> ef_probe_domain (sv_settings sv1) = []")
    case True
    with assms(1) Inr res s1 i1 show ?thesis
      by (auto simp: edit_upstreams_def Let_def split: sum.splits option.splits)
  next
    case False
    then obtain spec what u where a: "added = Some (spec, what)" "r1 = Inr u"
      "ef_probe_domain (sv_settings sv1) \<noteq> []" by (cases r1) auto
    let ?p = "probe (ef_probe_domain (sv_settings sv1))"
    obtain ans r2 where p: "probe_ech_spec spec ?p att (sv_resolver sv1) = (ans, r2)"
      by (cases "probe_ech_spec spec ?p att (sv_resolver sv1)")
    have "resolver_matches r2 (sv_settings sv1)"
      using i1 resolver_matches_probe_spec [of spec ?p att "sv_resolver sv1"] p
      by (simp add: service_inv_def service_ok_def)
    with i1 have i2: "service_inv (sv1\<lparr>sv_resolver := r2\<rparr>)" by (rule service_inv_resolver)
    obtain r3 sv3 d3 where s3: "?set (ef_upstreams (sv_settings sv)) (sv1\<lparr>sv_resolver := r2\<rparr>) d1 = (r3, sv3, d3)"
      by (cases "?set (ef_upstreams (sv_settings sv)) (sv1\<lparr>sv_resolver := r2\<rparr>) d1")
    note i3 = apply_inv [OF s3 i2]
    show ?thesis
      using assms(1) Inr res s1 a p s3 i2 i3
      by (cases ans; cases r3) (auto simp: edit_upstreams_def Let_def)
  qed
qed

text \<open>Every way the service changes: requests, settings, list edits, flushes, probes and resets of the
  statistics.\<close>

inductive service_reach ::
  "('c, 'n) dns_deps \<Rightarrow> (dns_overrides \<Rightarrow> string) \<Rightarrow> (string \<Rightarrow> dns_overrides option) \<Rightarrow> 'c dns_service \<Rightarrow> bool"
  for D :: "('c, 'n) dns_deps" and tj oj where
  New: "service_new (dd_lru D) tj oj cfg dir d0 = (Inr sv, d) \<Longrightarrow> service_reach D tj oj sv"
| Handle: "service_reach D tj oj sv \<Longrightarrow>
    service_reach D tj oj (fst (snd (handle_from D V request proxy sv st)))"
| Apply: "service_reach D tj oj sv \<Longrightarrow>
    apply_settings (dd_lru D) tj oj upd sv d = (r, sv', d') \<Longrightarrow> service_reach D tj oj sv'"
| Reset: "service_reach D tj oj sv \<Longrightarrow>
    reset_settings (dd_lru D) sv d = (r, sv', d') \<Longrightarrow> service_reach D tj oj sv'"
| Edit: "service_reach D tj oj sv \<Longrightarrow>
    edit_upstreams D tj oj ask probe att cmd sv d = (r2, sv', d') \<Longrightarrow> service_reach D tj oj sv'"
| Flush: "service_reach D tj oj sv \<Longrightarrow>
    service_reach D tj oj (fst (snd (flush_cache (dd_lru D) K ok ms sv st)))"
| Rewrite: "service_reach D tj oj sv \<Longrightarrow> service_reach D tj oj (sv\<lparr>sv_rewrites := rs\<rparr>)"
| Probe: "service_reach D tj oj sv \<Longrightarrow>
    service_reach D tj oj (sv\<lparr>sv_resolver := snd (probe_ech pr (at :: nat \<Rightarrow> 'n attempt) (sv_resolver sv))\<rparr>)"
| ResetStats: "service_reach D tj oj sv \<Longrightarrow>
    service_reach D tj oj (sv\<lparr>sv_resolver := reset_stats (sv_resolver sv)\<rparr>)"

lemma service_reach_inv: "service_reach D tj oj sv \<Longrightarrow> service_inv sv"
proof (induction rule: service_reach.induct)
  case (New cfg dir d0 sv d)
  then show ?case using service_new_ok [OF New] by (simp add: service_inv_def)
next
  case (Handle sv V request proxy st)
  then show ?case by (simp add: service_inv_def handle_ok handle_rewrites)
next
  case (Apply sv upd d r sv' d')
  then show ?case using apply_inv by blast
next
  case (Reset sv d r sv' d')
  then show ?case using reset_inv by blast
next
  case (Edit sv ask probe att cmd d r2 sv' d')
  then show ?case using edit_inv by blast
next
  case (Flush sv K ok ms st)
  then show ?case
    using flush_ok [of sv "dd_lru D" K ok ms st]
    by (simp add: service_inv_def flush_cache_def split: prod.splits)
next
  case (Rewrite sv rs)
  then show ?case by (simp add: service_inv_def service_ok_def)
next
  case (Probe sv pr at)
  then show ?case by (simp add: service_inv_def service_ok_def resolver_matches_probe)
next
  case (ResetStats sv)
  then show ?case by (simp add: service_inv_def service_ok_def resolver_matches_reset)
qed

section \<open>Restart\<close>

lemma build_resolver_matching:
  "resolver_matches r e \<Longrightarrow> \<exists>r'. build_resolver cfg e = Inr r'"
  by (auto simp: resolver_matches_def build_resolver_def resolver_new_def)

lemma ensure_after_save:
  assumes "save_overrides to_json p x d = (Inr (), d')"
  shows "ensure_overrides tj p y d' = d'"
  using assms
  by (auto simp: save_overrides_def write_file_def ensure_overrides_def path_exists_def
      split: sum.splits option.splits prod.splits)

lemma restart_finds_settings:
  assumes "apply_settings L to_json of_json upd sv d = (Inr (), sv', d')" "service_inv sv"
    and "settings_on_file of_json sv d"
    and "m = merged_with (load_overrides of_json no_overrides (sv_store sv) d) upd" "of_json (to_json m) = Some m"
    and "sv_store sv = (dir, ''dns-settings.json'')" "parse_socket_addr (cf_listen (sv_base sv)) = Some listen"
  shows "\<exists>sv2. service_new L to_json of_json (sv_base sv) dir d' = (Inr sv2, d') \<and> sv_settings sv2 = sv_settings sv'"
proof -
  have saved: "save_overrides to_json (sv_store sv) m d = (Inr (), d')"
    using realize_cases(2) [OF assms(1) [unfolded apply_settings_def]] assms(4) by auto
  have same: "sv_base sv' = sv_base sv" "sv_store sv' = sv_store sv" using apply_base(1) [OF assms(1)] by simp_all
  have "settings_on_file of_json sv' d'" by (rule apply_on_file [OF assms(1,3,4,5)])
  then have eff: "with_overrides (from_config (sv_base sv)) (load_overrides of_json no_overrides (sv_store sv) d')
      = sv_settings sv'"
    by (simp add: settings_on_file_def same)
  have "resolver_matches (sv_resolver sv') (sv_settings sv')"
    using apply_inv [OF assms(1,2)] by (simp add: service_inv_def service_ok_def)
  then obtain r where r: "build_resolver (sv_base sv) (sv_settings sv') = Inr r"
    using build_resolver_matching by blast
  have ens: "ensure_overrides to_json (sv_store sv) y d' = d'" for y by (rule ensure_after_save [OF saved])
  have "service_new L to_json of_json (sv_base sv) dir d' =
      (Inr (build_service L (sv_base sv) (sv_store sv) listen (load_rewrites (dir, ''dns-rewrites.conf'') d') (sv_settings sv') r), d')"
    using eff ens r by (simp only: service_new_def assms(6,7) choose_settings_def Let_def) simp
  then show ?thesis by (simp add: build_service_def)
qed

section \<open>Properties\<close>

definition sample_config :: dns_config where
  "sample_config = default_dns_config\<lparr>cf_listen := show_socket_addr (SockV4 (Ipv4 0 0 0 0) 53), cf_bootstrap := []\<rparr>"

lemma sample_listen: "parse_socket_addr (cf_listen sample_config) = Some (SockV4 (Ipv4 0 0 0 0) 53)"
  by (simp add: sample_config_def parse_show_socket_v4 del: show_socket_addr.simps)

text \<open>The witnesses use a one-value encoding of the overrides.\<close>

definition sample_update :: dns_overrides where
  "sample_update = no_overrides\<lparr>ov_min_ttl := Some 30\<rparr>"

abbreviation "sample_tj \<equiv> (\<lambda>_ :: dns_overrides. [] :: string)"
abbreviation "sample_oj \<equiv> (\<lambda>_ :: string. Some sample_update)"

definition sample_start :: "(nat \<times> (cache_key \<times> string cache_entry) list) dns_service" where
  "sample_start = build_service list_lru sample_config (''dir'', ''dns-settings.json'') (SockV4 (Ipv4 0 0 0 0) 53)
     (load_rewrites (''dir'', ''dns-rewrites.conf'')
        (ensure_overrides sample_tj (''dir'', ''dns-settings.json'') (from_effective (from_config sample_config)) empty_disk))
     (with_overrides (from_config sample_config) sample_update)
     \<lparr>upstreams = [], mode = Failover, bootstrap = [], timeout = from_millis (max (unat (5000 :: u64)) 100), preferred = 0\<rparr>"

definition sample_disk0 :: disk where
  "sample_disk0 = ensure_overrides sample_tj (''dir'', ''dns-settings.json'') (from_effective (from_config sample_config)) empty_disk"

lemma sample_load: "load_overrides sample_oj no_overrides (''dir'', ''dns-settings.json'') sample_disk0 = sample_update"
  by (simp add: sample_disk0_def load_overrides_def read_to_string_def ensure_overrides_def path_exists_def
      save_overrides_def write_file_def create_parent_def empty_disk_def)

lemma sample_new: "service_new list_lru sample_tj sample_oj sample_config ''dir'' empty_disk = (Inr sample_start, sample_disk0)"
proof -
  have "choose_settings sample_config (with_overrides (from_config sample_config) sample_update) =
      Inr (with_overrides (from_config sample_config) sample_update,
      \<lparr>upstreams = [], mode = Failover, bootstrap = [], timeout = from_millis (max (unat (5000 :: u64)) 100), preferred = 0\<rparr>)"
    by (simp add: choose_settings_def build_resolver_def resolver_new_def from_config_def normalized_def
        sample_config_def default_dns_config_def with_overrides_def sample_update_def no_overrides_def)
  then show ?thesis
    using sample_load
    by (simp add: service_new_def sample_listen Let_def sample_start_def sample_disk0_def)
qed

lemma sample_reach: "service_reach sample_deps sample_tj sample_oj sample_start"
  by (rule service_reach.New [of sample_deps _ _ sample_config "''dir''" empty_disk _ sample_disk0])
    (simp add: sample_deps_def sample_new)

lemma sample_fields [simp]:
  "sv_base sample_start = sample_config" "sv_store sample_start = (''dir'', ''dns-settings.json'')"
  "sv_settings sample_start = with_overrides (from_config sample_config) sample_update"
  by (simp_all add: sample_start_def build_service_def)

text \<open>C21: in every state the service can reach (through requests, settings changes, list edits,
  probes, flushes and resets, failed or not) the resolver is the one the settings in force
  describe and the cache runs with their bounds and is on exactly when its size is not zero.\<close>

theorem service_consistent:
  assumes "service_reach D tj oj sv"
  shows "resolver_matches (sv_resolver sv) (sv_settings sv) \<and>
    min_ttl (sv_cache sv) = ef_min_ttl (sv_settings sv) \<and> max_ttl (sv_cache sv) = ef_max_ttl (sv_settings sv) \<and>
    (c_entries (sv_cache sv) = None \<longleftrightarrow> ef_cache_size (sv_settings sv) = 0)"
  using service_reach_inv [OF assms] by (simp add: service_inv_def service_ok_def)

theorem service_consistent_witness:
  "min_ttl (sv_cache sample_start) = 30 \<and> c_entries (sv_cache sample_start) \<noteq> None"
  using service_consistent [OF sample_reach]
  by (simp add: with_overrides_def from_config_def normalized_def sample_config_def default_dns_config_def
      sample_update_def no_overrides_def)

text \<open>a settings change is all or nothing. A refused one (inconsistent TTL bounds, an upstream that
  does not parse, a file that cannot be written) leaves the service as it was; an accepted one
  puts exactly the merged settings into force, and they are valid.\<close>

theorem settings_change_atomic:
  assumes "apply_settings L tj oj upd sv d = (res, sv', d')"
  shows "case res of
      Inl _ \<Rightarrow> sv' = sv
    | Inr _ \<Rightarrow> sv_settings sv' = with_overrides (sv_settings sv) upd \<and>
        (ef_min_ttl (sv_settings sv') = 0 \<or> ef_max_ttl (sv_settings sv') = 0
          \<or> ef_min_ttl (sv_settings sv') \<le> ef_max_ttl (sv_settings sv')) \<and>
        sv_rewrites sv' = sv_rewrites sv \<and> sv_base sv' = sv_base sv \<and> sv_listen sv' = sv_listen sv"
proof (cases res)
  case (Inl e)
  then show ?thesis using realize_cases(1) [OF assms [unfolded apply_settings_def]] by simp
next
  case (Inr u)
  then show ?thesis
    using realize_cases(2) [OF assms [unfolded apply_settings_def]] by (auto simp: validate_settings_iff)
qed

theorem settings_change_atomic_witness:
  "fst (snd (apply_settings list_lru (\<lambda>_. []) (\<lambda>_. None) (no_overrides\<lparr>ov_min_ttl := Some 60, ov_max_ttl := Some 30\<rparr>)
     sample_service empty_disk)) = sample_service"
proof -
  let ?u = "no_overrides\<lparr>ov_min_ttl := Some 60, ov_max_ttl := Some 30\<rparr>"
  have "validate_settings (with_overrides (sv_settings sample_service) ?u) = Inl (MinExceedsMax 60 30)"
    by code_simp
  then have "apply_settings list_lru (\<lambda>_. []) (\<lambda>_. None) ?u sample_service empty_disk
      = (Inl (ApInvalid (MinExceedsMax 60 30)), sample_service, empty_disk)"
    by (simp add: apply_settings_def realize_def)
  with settings_change_atomic [OF this] show ?thesis by simp
qed



text \<open>adding an upstream that does not answer its test query is undone: the settings are those from
  before the command.\<close>

theorem failed_add_undone:
  assumes "service_reach D tj oj sv"
    and "edit_upstreams D tj oj ask probe att cmd sv d = (Inl (DidNotAnswer what), sv', d')"
  shows "sv_settings sv' = sv_settings sv"
proof -
  have norm: "normalized (sv_settings sv) = sv_settings sv"
    using service_reach_inv [OF assms(1)] by (simp add: service_inv_def)
  let ?set = "\<lambda>l. apply_settings (dd_lru D) tj oj (no_overrides\<lparr>ov_upstreams := Some l\<rparr>)"
  consider "sv' = sv" | l sv1 d1 r2 where "?set l sv d = (Inr (), sv1, d1)"
    "?set (ef_upstreams (sv_settings sv)) (sv1\<lparr>sv_resolver := r2\<rparr>) d1 = (Inr (), sv', d')"
    using assms(2)
    by (auto simp: edit_upstreams_def Let_def split: sum.splits prod.splits option.splits if_splits)
  then show ?thesis
  proof cases
    case (2 l sv1 d1 r2)
    note s = this
    have 1: "sv_settings sv1 = with_overrides (sv_settings sv) (no_overrides\<lparr>ov_upstreams := Some l\<rparr>)"
    using realize_cases(2) [OF s(1) [unfolded apply_settings_def]] by auto
  have "sv_settings sv' = with_overrides (sv_settings sv1) (no_overrides\<lparr>ov_upstreams := Some (ef_upstreams (sv_settings sv))\<rparr>)"
    using realize_cases(2) [OF s(2) [unfolded apply_settings_def]] by auto
  also have "\<dots> = normalized (sv_settings sv)"
    unfolding 1 with_merged by (cases "sv_settings sv") (simp add: merged_with_def with_overrides_def no_overrides_def)
    finally show ?thesis using norm by simp
  qed simp
qed

theorem failed_add_undone_witness:
  "\<exists>sv' d'. edit_upstreams sample_deps sample_tj sample_oj (\<lambda>_. BootNothing) (\<lambda>_. None) (\<lambda>_. TimedOut)
      (AddUpstream ''q'' ''9.9.9.9'' ''udp'') sample_start sample_disk0 = (Inl (DidNotAnswer ''q (9.9.9.9:53)''), sv', d')
    \<and> sv_settings sv' = sv_settings sample_start"
proof -
  let ?e = "edit_upstreams sample_deps sample_tj sample_oj (\<lambda>_. BootNothing) (\<lambda>_. None) (\<lambda>_. TimedOut)
      (AddUpstream ''q'' ''9.9.9.9'' ''udp'') sample_start sample_disk0"
  have "fst ?e = Inl (DidNotAnswer ''q (9.9.9.9:53)'')" by code_simp
  then obtain sv' d' where "?e = (Inl (DidNotAnswer ''q (9.9.9.9:53)''), sv', d')" by (cases ?e) auto
  with failed_add_undone [OF sample_reach this] show ?thesis by blast
qed

end
