(* ===== verification/Dns_Server.thy ===== *)
theory Dns_Server
  imports Dns_Admin
begin

text \<open>
  \<open>dns/server.rs\<close>: the UDP and TCP listeners, from the bytes of a client to the bytes of the answer.
  The wire format is the \<open>hickory_proto\<close> crate's: decoder, encoder and \<open>Message::truncate\<close> are a
  record of functions. A socket is the bytes it delivers and the fate of its writes.
\<close>

section \<open>Datagrams\<close>

record 'n wire_ops =
  from_vec :: "bytes \<Rightarrow> 'n message option"
  to_vec :: "'n message \<Rightarrow> string + bytes"
  truncate_msg :: "'n message \<Rightarrow> 'n message"

definition CLASSIC_UDP_LIMIT :: u16 where
  "CLASSIC_UDP_LIMIT = 512"

definition udp_limit :: "'n message \<Rightarrow> nat" where
  "udp_limit request =
     unat (case edns request of None \<Rightarrow> CLASSIC_UDP_LIMIT | Some e \<Rightarrow> max (max_payload e) CLASSIC_UDP_LIMIT)"

definition ok_bytes :: "string + bytes \<Rightarrow> bytes option" where
  "ok_bytes r = (case r of Inl _ \<Rightarrow> None | Inr w \<Rightarrow> Some w)"

definition encode_udp :: "'n wire_ops \<Rightarrow> 'n message \<Rightarrow> 'n message \<Rightarrow> bytes option" where
  "encode_udp W resp request =
     (case to_vec W resp of
        Inl _ \<Rightarrow> None
      | Inr wire \<Rightarrow>
          if length wire \<le> udp_limit request then Some wire
          else let t = truncate_msg W resp
               in ok_bytes (to_vec W (t\<lparr>meta := (meta t)\<lparr>msg_id := msg_id (meta resp)\<rparr>\<rparr>)))"

text \<open>One datagram: at most 4096 bytes of it are received; what does not parse is dropped.\<close>

definition serve_datagram ::
  "('c, 'n) dns_deps \<Rightarrow> 'n wire_ops \<Rightarrow> 'n request_env \<Rightarrow> bytes \<Rightarrow> 'c dns_service \<Rightarrow> shared_state \<Rightarrow>
   bytes option \<times> 'c dns_service \<times> shared_state" where
  "serve_datagram D W V datagram sv st =
     (case from_vec W (take 4096 datagram) of
        None \<Rightarrow> (None, sv, st)
      | Some request \<Rightarrow>
          (case handle_from D V request False sv st of (resp, sv', st') \<Rightarrow>
             (encode_udp W resp request, sv', st')))"

section \<open>Connections\<close>

text \<open>The peer of a connection: what it sends, whether it then closes or goes silent, and for each
  response the error of writing it, if any. The wait for the next length is bounded, the wait for
  the body of a query is not.\<close>

record tcp_peer =
  sends :: bytes
  closes :: bool
  write_error :: "nat \<Rightarrow> string option"

datatype conn_end = ConnDone | ConnFailed string | ConnStalled

function serve_conn ::
  "('c, 'n) dns_deps \<Rightarrow> 'n wire_ops \<Rightarrow> (nat \<Rightarrow> 'n request_env) \<Rightarrow> tcp_peer \<Rightarrow> nat \<Rightarrow> bytes \<Rightarrow>
   'c dns_service \<Rightarrow> shared_state \<Rightarrow> bytes \<Rightarrow> conn_end \<times> bytes \<times> 'c dns_service \<times> shared_state" where
  "serve_conn D W V peer k (hi # lo # rest) sv st out =
     (let n = unat (be_bytes hi lo) in
      if length rest < n then
        (if closes peer then ConnFailed ''early eof'' else ConnStalled, out, sv, st)
      else case from_vec W (take n rest) of
        None \<Rightarrow> (ConnFailed ''unparseable query'', out, sv, st)
      | Some request \<Rightarrow>
          (case handle_from D (V k) request False sv st of (resp, sv', st') \<Rightarrow>
             (case to_vec W resp of
                Inl e \<Rightarrow> (ConnFailed e, out, sv', st')
              | Inr wire \<Rightarrow>
                  (case write_framed wire of
                     Inl _ \<Rightarrow> (ConnFailed ''response too large for tcp'', out, sv', st')
                   | Inr framed \<Rightarrow>
                       (case write_error peer k of
                          Some e \<Rightarrow> (ConnFailed e, out, sv', st')
                        | None \<Rightarrow> serve_conn D W V peer (Suc k) (drop n rest) sv' st' (out @ framed))))))"
| "serve_conn D W V peer k [] sv st out = (ConnDone, out, sv, st)"
| "serve_conn D W V peer k [b] sv st out = (ConnDone, out, sv, st)"
  by pat_completeness auto
termination
  by (relation "measure (\<lambda>(_, _, _, _, _, input, _). length input)") (auto simp: less_Suc_eq_le)

definition serve_tcp_conn ::
  "('c, 'n) dns_deps \<Rightarrow> 'n wire_ops \<Rightarrow> (nat \<Rightarrow> 'n request_env) \<Rightarrow> tcp_peer \<Rightarrow> 'c dns_service \<Rightarrow> shared_state \<Rightarrow>
   conn_end \<times> bytes \<times> 'c dns_service \<times> shared_state" where
  "serve_tcp_conn D W V peer sv st = serve_conn D W V peer 0 (sends peer) sv st []"

section \<open>Lemmas\<close>

lemma udp_limit_classic: "512 \<le> udp_limit request"
proof -
  have "(512 :: u16) \<le> max p 512" for p :: u16 by simp
  then have "unat (512 :: u16) \<le> unat (max (p :: u16) 512)" for p by (simp only: word_le_nat_alt)
  then show ?thesis by (simp add: udp_limit_def CLASSIC_UDP_LIMIT_def split: option.splits)
qed

text \<open>Answering a list of requests one after the other, the state handed on.\<close>

fun answer_all ::
  "('c, 'n) dns_deps \<Rightarrow> (nat \<Rightarrow> 'n request_env) \<Rightarrow> nat \<Rightarrow> 'n message list \<Rightarrow> 'c dns_service \<Rightarrow> shared_state \<Rightarrow>
   'n message list \<times> 'c dns_service \<times> shared_state" where
  "answer_all D V k [] sv st = ([], sv, st)"
| "answer_all D V k (q # qs) sv st =
     (case handle_from D (V k) q False sv st of (r, sv', st') \<Rightarrow>
        (case answer_all D V (Suc k) qs sv' st' of (rs, sv'', st'') \<Rightarrow> (r # rs, sv'', st'')))"

lemma length_answer_all: "length (fst (answer_all D V k qs sv st)) = length qs"
  by (induction qs arbitrary: k sv st) (auto split: prod.splits simp: split_def)

text \<open>The bytes of messages sent one after the other, each in a frame.\<close>

fun frames :: "'n wire_ops \<Rightarrow> 'n message list \<Rightarrow> bytes option" where
  "frames W [] = Some []"
| "frames W (m # ms) =
     (case to_vec W m of
        Inl _ \<Rightarrow> None
      | Inr w \<Rightarrow> (case write_framed w of
           Inl _ \<Rightarrow> None
         | Inr f \<Rightarrow> map_option (\<lambda>fs. f @ fs) (frames W ms)))"

lemma write_framed_shape:
  "write_framed w = Inr f \<Longrightarrow> \<exists>hi lo. f = hi # lo # w \<and> unat (be_bytes hi lo) = length w"
  using frame_round_trip [of w f "[]"]
  by (auto simp: write_framed_def Let_def split: if_splits dest: arg_cong [where f = length])

lemma serve_conn_frame:
  assumes "write_framed w = Inr f" "from_vec W w = Some q"
    and "handle_from D (V k) q False sv st = (r, sv', st')"
    and "to_vec W r = Inr wr" "write_framed wr = Inr fr" "write_error peer k = None"
  shows "serve_conn D W V peer k (f @ rest) sv st out = serve_conn D W V peer (Suc k) rest sv' st' (out @ fr)"
proof -
  obtain hi lo where "f = hi # lo # w" "unat (be_bytes hi lo) = length w"
    using write_framed_shape [OF assms(1)] by auto
  then show ?thesis using assms(2-6) by (simp add: Let_def)
qed

lemma serve_conn_frames:
  assumes "frames W qs = Some input" "\<And>q w. q \<in> set qs \<Longrightarrow> to_vec W q = Inr w \<Longrightarrow> from_vec W w = Some q"
    and "answer_all D V k qs sv st = (rs, sv', st')" "frames W rs = Some fs" "\<And>i. write_error peer i = None"
  shows "serve_conn D W V peer k input sv st out = (ConnDone, out @ fs, sv', st')"
  using assms(1-4)
proof (induction qs arbitrary: k input sv st rs fs out)
  case Nil
  then show ?case by simp
next
  case (Cons q qs)
  obtain w f more where q: "to_vec W q = Inr w" "write_framed w = Inr f" "frames W qs = Some more" "input = f @ more"
    using Cons.prems(1) by (auto split: sum.splits)
  obtain r sv1 st1 where h: "handle_from D (V k) q False sv st = (r, sv1, st1)"
    by (cases "handle_from D (V k) q False sv st")
  then obtain rs1 where a: "answer_all D V (Suc k) qs sv1 st1 = (rs1, sv', st')" "rs = r # rs1"
    using Cons.prems(3) by (auto split: prod.splits)
  obtain wr fr fs1 where r: "to_vec W r = Inr wr" "write_framed wr = Inr fr" "frames W rs1 = Some fs1" "fs = fr @ fs1"
    using Cons.prems(4) a(2) by (auto split: sum.splits)
  have "from_vec W w = Some q" using Cons.prems(2) q(1) by auto
  then have "serve_conn D W V peer k (f @ more) sv st out = serve_conn D W V peer (Suc k) more sv1 st1 (out @ fr)"
    by (rule serve_conn_frame [where V = V, OF q(2) _ h r(1,2) assms(5)])
  also have "\<dots> = (ConnDone, (out @ fr) @ fs1, sv', st')"
    using Cons.prems(2) by (intro Cons.IH [OF q(3) _ a(1) r(3)]) auto
  finally show ?case by (simp add: q(4) r(4))
qed

text \<open>A peer that announces a query and then goes silent keeps the connection for ever: only the
  wait for the length is bounded.\<close>

lemma conn_waits_for_body:
  "length rest < unat (be_bytes hi lo) \<Longrightarrow> \<not> closes peer \<Longrightarrow>
   serve_conn D W V peer k (hi # lo # rest) sv st out = (ConnStalled, out, sv, st)"
  by (simp add: Let_def)

section \<open>Properties\<close>

definition sample_wire :: "string wire_ops" where
  "sample_wire = \<lparr>from_vec = (\<lambda>_. Some (sample_query ''ads.test.'')), to_vec = (\<lambda>_. Inr [1, 2]), truncate_msg = id\<rparr>"

text \<open>C29: a TCP connection that carries any number of well-formed queries is served completely and in
  order: the bytes sent back are the frames of the answers the service gives to those queries one
  after the other, each seeing the state the previous one left, and the connection ends cleanly.\<close>

theorem tcp_answers_in_order:
  assumes "frames W qs = Some (sends peer)"
    and "\<And>q w. q \<in> set qs \<Longrightarrow> to_vec W q = Inr w \<Longrightarrow> from_vec W w = Some q"
    and "answer_all D V 0 qs sv st = (rs, sv', st')" "frames W rs = Some fs"
    and "\<And>i. write_error peer i = None"
  shows "serve_tcp_conn D W V peer sv st = (ConnDone, fs, sv', st')"
  using serve_conn_frames [OF assms, where out = "[]"] by (simp add: serve_tcp_conn_def)

theorem tcp_answers_in_order_witness:
  "\<exists>sv' st'. serve_tcp_conn sample_deps sample_wire (\<lambda>_. sample_env 5)
     \<lparr>sends = [0, 2, 1, 2, 0, 2, 1, 2], closes = True, write_error = (\<lambda>_. None)\<rparr> sample_service sample_state
     = (ConnDone, [0, 2, 1, 2, 0, 2, 1, 2], sv', st')"
proof -
  let ?qs = "[sample_query ''ads.test.'', sample_query ''ads.test.'']"
  obtain r1 r2 sv' st' where a: "answer_all sample_deps (\<lambda>_. sample_env 5) 0 ?qs sample_service sample_state
      = ([r1, r2], sv', st')"
    using length_answer_all [of sample_deps "\<lambda>_. sample_env 5" 0 ?qs sample_service sample_state]
    by (cases "answer_all sample_deps (\<lambda>_. sample_env 5) 0 ?qs sample_service sample_state")
      (auto simp: numeral_2_eq_2 length_Suc_conv simp del: answer_all.simps)
  have f: "frames sample_wire [a, b] = Some [0, 2, 1, 2, 0, 2, 1, 2]" for a b
    by (simp add: sample_wire_def write_framed_def)
  have "from_vec sample_wire w = Some q" if "q \<in> set ?qs" for q w
    using that by (auto simp: sample_wire_def)
  then show ?thesis
    using tcp_answers_in_order [of sample_wire ?qs "\<lparr>sends = [0, 2, 1, 2, 0, 2, 1, 2], closes = True,
      write_error = (\<lambda>_. None)\<rparr>", OF _ _ a f] f by auto
qed

text \<open>an answer sent over UDP fits the size the client announced, never less than the classic 512
  bytes, once a truncated answer does; and it is dropped only if it cannot be encoded.\<close>

theorem udp_answer_fits:
  assumes "\<And>i m w. to_vec W ((truncate_msg W m)\<lparr>meta := (meta (truncate_msg W m))\<lparr>msg_id := i\<rparr>\<rparr>) = Inr w
      \<Longrightarrow> length w \<le> 512"
  shows "(\<forall>w. encode_udp W resp request = Some w \<longrightarrow> length w \<le> udp_limit request) \<and> 512 \<le> udp_limit request \<and>
    (\<forall>w. to_vec W resp = Inr w \<longrightarrow> length w \<le> udp_limit request \<longrightarrow> encode_udp W resp request = Some w)"
proof (intro conjI allI impI)
  show "512 \<le> udp_limit request" by (rule udp_limit_classic)
  fix w
  assume "encode_udp W resp request = Some w"
  then consider "length w \<le> udp_limit request" | "length w \<le> 512"
    by (auto simp: encode_udp_def ok_bytes_def Let_def split: sum.splits if_splits dest: assms)
  then show "length w \<le> udp_limit request" using udp_limit_classic [of request] by cases auto
qed (simp add: encode_udp_def)

theorem udp_answer_fits_witness:
  "encode_udp sample_wire (sample_query ''a.'') (sample_query ''a.'') = Some [1, 2] \<and>
   length [1 :: u8, 2] \<le> udp_limit (sample_query ''a.'')"
proof -
  have "encode_udp sample_wire (sample_query ''a.'') (sample_query ''a.'') = Some [1, 2]" by code_simp
  then show ?thesis
    using udp_answer_fits [of sample_wire "sample_query ''a.''" "sample_query ''a.''"]
    by (auto simp: sample_wire_def)
qed

end
