(* ===== verification/Dns_Control.thy ===== *)
theory Dns_Control
  imports Dns_Server
begin

text \<open>
  \<open>dns/control.rs\<close>: the lifecycle of the DNS listener, and the status and probe operations of
  \<open>dns/mod.rs\<close> that the admin interface reads. The sockets the listener holds are part of the state;
  what the operating system answers to a bind is the parameter \<open>os\<close>.
\<close>

section \<open>Settings of the listener\<close>

record server_overrides =
  dso_enabled :: "bool option"
  dso_listen :: "string option"

definition no_server_overrides :: server_overrides where
  "no_server_overrides = \<lparr>dso_enabled = None, dso_listen = None\<rparr>"

datatype control_error =
    BadBody string
  | NotAnObject
  | BadDnsListen string
  | BindFailed string

definition parse_server_overrides :: "(bytes \<Rightarrow> string + json) \<Rightarrow> bytes \<Rightarrow> control_error + server_overrides" where
  "parse_server_overrides parse_json body =
     (case parse_json body of
        Inl e \<Rightarrow> Inl (BadBody e)
      | Inr v \<Rightarrow>
          if \<not> is_object v then Inl NotAnObject
          else Inr \<lparr>dso_enabled = get_bool ''dns_enabled'' v,
                    dso_listen = map_option trim (get_str ''dns_listen'' v)\<rparr>)"

section \<open>Runtime\<close>

text \<open>The handles of a running listener are the address it serves; \<open>rt_sockets\<close> are the sockets its
  tasks own.\<close>

datatype proto = UdpSocket | TcpListener

record 'c dns_runtime =
  rt_state :: shared_state
  rt_store :: path
  rt_service :: "'c dns_service"
  rt_enabled :: bool
  rt_listen :: socket_addr
  rt_handles :: "socket_addr option"
  rt_overrides :: server_overrides
  rt_sockets :: "(proto \<times> socket_addr) set"

record server_status =
  ss_enabled :: bool
  ss_listen :: string
  ss_running :: bool

definition status_of :: "'c dns_runtime \<Rightarrow> server_status" where
  "status_of rt = \<lparr>ss_enabled = rt_enabled rt, ss_listen = show_socket_addr (rt_listen rt),
     ss_running = (rt_handles rt \<noteq> None)\<rparr>"

definition runtime_new ::
  "(server_overrides \<Rightarrow> string) \<Rightarrow> (string \<Rightarrow> server_overrides option) \<Rightarrow> shared_state \<Rightarrow> path \<Rightarrow>
   'c dns_service \<Rightarrow> string \<Rightarrow> bool \<Rightarrow> disk \<Rightarrow> (control_error + 'c dns_runtime) \<times> disk" where
  "runtime_new tj oj st store sv cfg_listen cfg_enabled d0 =
     (let d = ensure_overrides tj store \<lparr>dso_enabled = Some cfg_enabled, dso_listen = Some cfg_listen\<rparr> d0;
          ov = load_overrides oj no_server_overrides store d;
          listen_s = unwrap_or (dso_listen ov) cfg_listen
      in case parse_socket_addr listen_s of
           None \<Rightarrow> (Inl (BadDnsListen listen_s), d)
         | Some listen \<Rightarrow>
             (Inr \<lparr>rt_state = st, rt_store = store, rt_service = sv,
                   rt_enabled = unwrap_or (dso_enabled ov) cfg_enabled, rt_listen = listen,
                   rt_handles = None, rt_overrides = ov, rt_sockets = {}\<rparr>, d))"

text \<open>The UDP socket is bound first; when the TCP listener then fails it is dropped again.\<close>

definition bind :: "(proto \<Rightarrow> socket_addr \<Rightarrow> string option) \<Rightarrow> socket_addr \<Rightarrow> string + (proto \<times> socket_addr) set" where
  "bind os addr =
     (case os UdpSocket addr of
        Some e \<Rightarrow> Inl (''binding udp '' @ show_socket_addr addr @ '': '' @ e)
      | None \<Rightarrow>
          (case os TcpListener addr of
             Some e \<Rightarrow> Inl (''binding tcp '' @ show_socket_addr addr @ '': '' @ e)
           | None \<Rightarrow> Inr {(UdpSocket, addr), (TcpListener, addr)}))"

definition show_dns_error :: "string \<Rightarrow> string" where
  "show_dns_error m = ''dns error: '' @ m"

text \<open>\<open>DnsService::start\<close>: the service notes the address, the tasks take the sockets.\<close>

definition start ::
  "(proto \<Rightarrow> socket_addr \<Rightarrow> string option) \<Rightarrow> socket_addr \<Rightarrow> 'c dns_runtime \<Rightarrow> (string + socket_addr) \<times> 'c dns_runtime" where
  "start os addr rt =
     (case bind os addr of
        Inl e \<Rightarrow> (Inl e, rt)
      | Inr socks \<Rightarrow>
          (Inr addr, rt\<lparr>rt_service := (rt_service rt)\<lparr>sv_listen := addr\<rparr>,
                        rt_sockets := rt_sockets rt \<union> socks\<rparr>))"

text \<open>\<open>DnsHandles::shutdown\<close>: both tasks are aborted and awaited, so their sockets are closed.\<close>

definition shutdown :: "socket_addr \<Rightarrow> 'c dns_runtime \<Rightarrow> 'c dns_runtime" where
  "shutdown h rt = rt\<lparr>rt_sockets := rt_sockets rt - {(UdpSocket, h), (TcpListener, h)}\<rparr>"

text \<open>How an event is logged: the encoders, whether the error file could be written, the clock and
  the captured backtrace.\<close>

record log_env =
  le_codecs :: codecs
  le_io_ok :: bool
  le_ms :: u64
  le_trace :: "string option"

definition note_event :: "log_env \<Rightarrow> event_kind \<Rightarrow> string \<Rightarrow> 'c dns_runtime \<Rightarrow> 'c dns_runtime" where
  "note_event L kind msg rt =
     rt\<lparr>rt_state := log_event (le_codecs L) (le_io_ok L) (le_ms L) (le_trace L) kind msg (rt_state rt)\<rparr>"

definition start_initial :: "(proto \<Rightarrow> socket_addr \<Rightarrow> string option) \<Rightarrow> log_env \<Rightarrow> 'c dns_runtime \<Rightarrow> 'c dns_runtime" where
  "start_initial os L rt =
     (if rt_enabled rt then
        (case start os (rt_listen rt) rt of
           (Inr h, rt1) \<Rightarrow> rt1\<lparr>rt_handles := Some h\<rparr>
         | (Inl e, rt1) \<Rightarrow> note_event L EvError (''dns server: '' @ show_dns_error e) rt1)
      else rt)"

definition transition_note ::
  "log_env \<Rightarrow> socket_addr option \<Rightarrow> socket_addr option \<Rightarrow> 'c dns_runtime \<Rightarrow> 'c dns_runtime" where
  "transition_note L was now rt =
     (case (was, now) of
        (None, Some a) \<Rightarrow> note_event L EvInfo (''dns enabled on '' @ show_socket_addr a) rt
      | (Some _, None) \<Rightarrow> note_event L EvInfo ''dns disabled'' rt
      | (Some p, Some n) \<Rightarrow>
          if p \<noteq> n then note_event L EvInfo (''dns re-bound to '' @ show_socket_addr n) rt else rt
      | (None, None) \<Rightarrow> rt)"

definition then_some :: "bool \<Rightarrow> 'a \<Rightarrow> 'a option" where
  "then_some b x = (if b then Some x else None)"

text \<open>\<open>apply\<close>: the old listener is stopped first, then the new one is started, then the settings are
  stored; a failed write is only logged.\<close>

definition stop_old :: "'c dns_runtime \<Rightarrow> 'c dns_runtime" where
  "stop_old rt = (case rt_handles rt of None \<Rightarrow> rt | Some h \<Rightarrow> shutdown h (rt\<lparr>rt_handles := None\<rparr>))"

definition install ::
  "(server_overrides \<Rightarrow> string) \<Rightarrow> log_env \<Rightarrow> socket_addr option \<Rightarrow> bool \<Rightarrow> socket_addr \<Rightarrow> socket_addr option \<Rightarrow>
   'c dns_runtime \<Rightarrow> disk \<Rightarrow> 'c dns_runtime \<times> disk" where
  "install tj L was enabled listen handles rt d =
     (let ov = (rt_overrides rt)\<lparr>dso_enabled := Some enabled, dso_listen := Some (show_socket_addr listen)\<rparr>;
          rt1 = rt\<lparr>rt_handles := handles, rt_enabled := enabled, rt_listen := listen, rt_overrides := ov\<rparr>
      in case save_overrides tj (rt_store rt1) ov d of
           (r, d') \<Rightarrow>
             (transition_note L was (then_some enabled listen)
                (case r of
                   Inl e \<Rightarrow> note_event L EvError (''saving dns server settings: '' @ show_io_error e) rt1
                 | Inr _ \<Rightarrow> rt1), d'))"

definition runtime_apply ::
  "(server_overrides \<Rightarrow> string) \<Rightarrow> (proto \<Rightarrow> socket_addr \<Rightarrow> string option) \<Rightarrow> log_env \<Rightarrow> bool \<Rightarrow> socket_addr \<Rightarrow>
   'c dns_runtime \<Rightarrow> disk \<Rightarrow> (control_error + unit) \<times> 'c dns_runtime \<times> disk" where
  "runtime_apply tj os L enabled listen rt d =
     (let was = then_some (rt_enabled rt) (rt_listen rt); rt1 = stop_old rt in
      if enabled then
        (case start os listen rt1 of
           (Inl e, rt2) \<Rightarrow>
             (Inl (BindFailed (show_dns_error e)),
              note_event L EvError (''dns bind '' @ show_socket_addr listen @ '': '' @ show_dns_error e)
                (rt2\<lparr>rt_enabled := False\<rparr>), d)
         | (Inr h, rt2) \<Rightarrow> (case install tj L was enabled listen (Some h) rt2 d of (rt3, d') \<Rightarrow> (Inr (), rt3, d')))
      else (case install tj L was enabled listen None rt1 d of (rt3, d') \<Rightarrow> (Inr (), rt3, d')))"

definition apply_raw ::
  "(server_overrides \<Rightarrow> string) \<Rightarrow> (bytes \<Rightarrow> string + json) \<Rightarrow> (proto \<Rightarrow> socket_addr \<Rightarrow> string option) \<Rightarrow> log_env \<Rightarrow>
   bytes \<Rightarrow> 'c dns_runtime \<Rightarrow> disk \<Rightarrow> (control_error + server_status) \<times> 'c dns_runtime \<times> disk" where
  "apply_raw tj parse_json os L body rt d =
     (case parse_server_overrides parse_json body of
        Inl e \<Rightarrow> (Inl e, rt, d)
      | Inr upd \<Rightarrow>
          (case (case dso_listen upd of
                   None \<Rightarrow> Inr None
                 | Some s \<Rightarrow> (case parse_socket_addr s of
                     None \<Rightarrow> Inl (BadDnsListen s) | Some a \<Rightarrow> Inr (Some a))) of
             Inl e \<Rightarrow> (Inl e, rt, d)
           | Inr new_listen \<Rightarrow>
               (let want_enabled = unwrap_or (dso_enabled upd) (rt_enabled rt);
                    want_listen = unwrap_or new_listen (rt_listen rt)
                in if want_enabled \<noteq> rt_enabled rt \<or> want_listen \<noteq> rt_listen rt then
                     (case runtime_apply tj os L want_enabled want_listen rt d of
                        (Inl e, rt', d') \<Rightarrow> (Inl e, rt', d')
                      | (Inr _, rt', d') \<Rightarrow> (Inr (status_of rt'), rt', d'))
                   else (Inr (status_of rt), rt, d))))"

section \<open>Status and probes of the service\<close>

fun blocking_mode_str :: "blocking_mode \<Rightarrow> string" where
  "blocking_mode_str NullIp = ''null-ip''"
| "blocking_mode_str Nxdomain = ''nxdomain''"
| "blocking_mode_str BmRefused = ''refused''"

record dns_status =
  ds_listen :: string
  ds_upstreams :: "string list"
  ds_upstream_mode :: string
  ds_upstream_stats :: "upstream_stat list"
  ds_bootstrap :: "string list"
  ds_blocking_mode :: string
  ds_strip_ech :: bool
  ds_probe_domain :: string
  ds_probe_mins :: u32
  ds_log_ipv6 :: bool
  ds_cache :: cache_status

definition service_status :: "('c, 'n) cache_lru \<Rightarrow> 'c dns_service \<Rightarrow> dns_status" where
  "service_status L sv =
     (let e = sv_settings sv in
      \<lparr>ds_listen = show_socket_addr (sv_listen sv), ds_upstreams = ef_upstreams e,
       ds_upstream_mode = mode_str (ef_upstream_mode e), ds_upstream_stats = upstream_stats (sv_resolver sv),
       ds_bootstrap = ef_bootstrap e, ds_blocking_mode = blocking_mode_str (cf_blocking_mode (sv_base sv)),
       ds_strip_ech = ef_strip_ech e, ds_probe_domain = ef_probe_domain e, ds_probe_mins = ef_probe_mins e,
       ds_log_ipv6 = ef_log_ipv6 e, ds_cache = cache_status L (sv_cache sv)\<rparr>)"

definition reset_upstream_stats :: "'c dns_service \<Rightarrow> 'c dns_service" where
  "reset_upstream_stats sv = sv\<lparr>sv_resolver := reset_stats (sv_resolver sv)\<rparr>"

definition probe_schedule :: "'c dns_service \<Rightarrow> string \<times> u32" where
  "probe_schedule sv = (ef_probe_domain (sv_settings sv), ef_probe_mins (sv_settings sv))"

text \<open>One turn of the probe loop: park until a settings change, or probe and sleep for the interval
  (in seconds), whichever wakes first.\<close>

datatype probe_wait = Parked | Sleeping nat

definition probe_turn ::
  "(string \<Rightarrow> u16 option) \<Rightarrow> (nat \<Rightarrow> 'n attempt) \<Rightarrow> 'c dns_service \<Rightarrow> probe_wait \<times> 'c dns_service" where
  "probe_turn probe att sv =
     (case probe_schedule sv of (pd, mins) \<Rightarrow>
        if pd = [] \<or> mins = 0 then (Parked, sv)
        else (case probe_ech (probe pd) att (sv_resolver sv) of (_, r) \<Rightarrow>
                (Sleeping (unat mins * 60), sv\<lparr>sv_resolver := r\<rparr>)))"

definition probe_ech_now ::
  "(string \<Rightarrow> u16 option) \<Rightarrow> (nat \<Rightarrow> 'n attempt) \<Rightarrow> 'c dns_service \<Rightarrow> (string + nat) \<times> 'c dns_service" where
  "probe_ech_now probe att sv =
     (if ef_probe_domain (sv_settings sv) = [] then (Inl ''set an ECH probe domain first'', sv)
      else case probe_ech (probe (ef_probe_domain (sv_settings sv))) att (sv_resolver sv) of
        (n, r) \<Rightarrow> (Inr n, sv\<lparr>sv_resolver := r\<rparr>))"

section \<open>Lemmas\<close>

lemma note_event_fields [simp]:
  "rt_store (note_event L k m rt) = rt_store rt" "rt_service (note_event L k m rt) = rt_service rt"
  "rt_enabled (note_event L k m rt) = rt_enabled rt" "rt_listen (note_event L k m rt) = rt_listen rt"
  "rt_handles (note_event L k m rt) = rt_handles rt" "rt_overrides (note_event L k m rt) = rt_overrides rt"
  "rt_sockets (note_event L k m rt) = rt_sockets rt"
  by (simp_all add: note_event_def)

lemma transition_note_fields [simp]:
  "rt_store (transition_note L a b rt) = rt_store rt" "rt_service (transition_note L a b rt) = rt_service rt"
  "rt_enabled (transition_note L a b rt) = rt_enabled rt" "rt_listen (transition_note L a b rt) = rt_listen rt"
  "rt_handles (transition_note L a b rt) = rt_handles rt" "rt_overrides (transition_note L a b rt) = rt_overrides rt"
  "rt_sockets (transition_note L a b rt) = rt_sockets rt"
  by (simp_all add: transition_note_def split: option.splits)

text \<open>Running means serving the configured address, with exactly its two sockets open.\<close>

definition runtime_inv :: "'c dns_runtime \<Rightarrow> bool" where
  "runtime_inv rt \<longleftrightarrow>
     (case rt_handles rt of
        None \<Rightarrow> rt_sockets rt = {}
      | Some h \<Rightarrow> h = rt_listen rt \<and> rt_enabled rt \<and> sv_listen (rt_service rt) = h \<and>
          rt_sockets rt = {(UdpSocket, h), (TcpListener, h)})"

lemma start_cases:
  "start os a rt = (r, rt') \<Longrightarrow>
   case r of
     Inl _ \<Rightarrow> rt' = rt
   | Inr h \<Rightarrow> h = a \<and> rt' = rt\<lparr>rt_service := (rt_service rt)\<lparr>sv_listen := a\<rparr>,
       rt_sockets := rt_sockets rt \<union> {(UdpSocket, a), (TcpListener, a)}\<rparr>"
  by (auto simp: start_def bind_def split: sum.splits option.splits)

lemma stop_old_fields:
  assumes "runtime_inv rt"
  shows "rt_sockets (stop_old rt) = {}" "rt_handles (stop_old rt) = None"
    "rt_listen (stop_old rt) = rt_listen rt" "rt_store (stop_old rt) = rt_store rt"
    "rt_overrides (stop_old rt) = rt_overrides rt"
  using assms by (auto simp: runtime_inv_def stop_old_def shutdown_def split: option.splits)

definition installed_overrides :: "bool \<Rightarrow> socket_addr \<Rightarrow> 'c dns_runtime \<Rightarrow> server_overrides" where
  "installed_overrides enabled listen rt =
     (rt_overrides rt)\<lparr>dso_enabled := Some enabled, dso_listen := Some (show_socket_addr listen)\<rparr>"

lemma install_fields:
  assumes "install tj L was enabled listen handles rt d = (rt', d')"
  shows "rt_sockets rt' = rt_sockets rt" "rt_handles rt' = handles" "rt_enabled rt' = enabled"
    "rt_listen rt' = listen" "rt_service rt' = rt_service rt" "rt_store rt' = rt_store rt"
    "d' = snd (save_overrides tj (rt_store rt) (installed_overrides enabled listen rt) d)"
  using assms by (auto simp: install_def Let_def installed_overrides_def split: prod.splits sum.splits)

text \<open>What applying a change can do: stop the listener, lose it, or start the new one.\<close>

lemma runtime_apply_outcome:
  assumes "runtime_apply tj os L enabled listen rt d = (r, rt', d')" "runtime_inv rt"
  obtains (off) "\<not> enabled" "r = Inr ()"
      "install tj L (then_some (rt_enabled rt) (rt_listen rt)) enabled listen None (stop_old rt) d = (rt', d')"
    | (fail) m where "enabled" "r = Inl (BindFailed m)" "d' = d" "rt_handles rt' = None" "rt_sockets rt' = {}"
        "\<not> rt_enabled rt'" "rt_listen rt' = rt_listen rt"
    | (on) rt2 where "enabled" "r = Inr ()" "start os listen (stop_old rt) = (Inr listen, rt2)"
        "install tj L (then_some (rt_enabled rt) (rt_listen rt)) enabled listen (Some listen) rt2 d = (rt', d')"
proof (cases enabled)
  case False
  with off assms(1) show ?thesis by (auto simp: runtime_apply_def Let_def split: prod.splits)
next
  case True
  obtain q rt2 where s: "start os listen (stop_old rt) = (q, rt2)" by fastforce
  show ?thesis
  proof (cases q)
    case (Inl e)
    with start_cases [OF s] have "rt2 = stop_old rt" by simp
    with fail [of "show_dns_error e"] s Inl True assms(1) stop_old_fields [OF assms(2)] show ?thesis
      by (auto simp: runtime_apply_def Let_def)
  next
    case (Inr h)
    with start_cases [OF s] have "h = listen" by simp
    with on [of rt2] s Inr True assms(1) show ?thesis
      by (auto simp: runtime_apply_def Let_def split: prod.splits)
  qed
qed

lemma runtime_apply_inv:
  assumes "runtime_apply tj os L enabled listen rt d = (r, rt', d')" "runtime_inv rt"
  shows "runtime_inv rt'"
  using assms
proof (cases rule: runtime_apply_outcome)
  case off
  with install_fields [OF off(3)] stop_old_fields [OF assms(2)] show ?thesis by (simp add: runtime_inv_def)
next
  case fail
  then show ?thesis by (simp add: runtime_inv_def)
next
  case on
  with install_fields [OF on(4)] start_cases [OF on(3)] stop_old_fields [OF assms(2)] show ?thesis
    by (simp add: runtime_inv_def)
qed

lemma runtime_apply_ok:
  assumes "runtime_apply tj os L enabled listen rt d = (Inr (), rt', d')" "runtime_inv rt"
  shows "rt_enabled rt' = enabled \<and> rt_listen rt' = listen \<and> (rt_handles rt' \<noteq> None) = enabled \<and>
      rt_store rt' = rt_store rt \<and> d' = snd (save_overrides tj (rt_store rt) (installed_overrides enabled listen rt) d)"
  using assms
proof (cases rule: runtime_apply_outcome)
  case off
  with install_fields [OF off(3)] stop_old_fields [OF assms(2)] show ?thesis
    by (simp add: installed_overrides_def)
next
  case on
  with install_fields [OF on(4)] start_cases [OF on(3)] stop_old_fields [OF assms(2)] show ?thesis
    by (simp add: installed_overrides_def)
qed auto

lemma runtime_apply_failed:
  assumes "runtime_apply tj os L enabled listen rt d = (Inl e, rt', d')" "runtime_inv rt"
  shows "(\<exists>m. e = BindFailed m) \<and> \<not> rt_enabled rt' \<and> rt_handles rt' = None \<and> rt_sockets rt' = {} \<and>
      rt_listen rt' = rt_listen rt \<and> d' = d"
  using assms by (cases rule: runtime_apply_outcome) auto

text \<open>The address an update asks for, if it is one.\<close>

definition wanted_listen :: "server_overrides \<Rightarrow> socket_addr \<Rightarrow> socket_addr option" where
  "wanted_listen upd cur = (case dso_listen upd of None \<Rightarrow> Some cur | Some s \<Rightarrow> parse_socket_addr s)"

lemma apply_raw_eq:
  "apply_raw tj pj os L body rt d =
     (case parse_server_overrides pj body of
        Inl e \<Rightarrow> (Inl e, rt, d)
      | Inr upd \<Rightarrow>
          (case wanted_listen upd (rt_listen rt) of
             None \<Rightarrow> (Inl (BadDnsListen (the (dso_listen upd))), rt, d)
           | Some a \<Rightarrow>
               (let en = unwrap_or (dso_enabled upd) (rt_enabled rt) in
                if en = rt_enabled rt \<and> a = rt_listen rt then (Inr (status_of rt), rt, d)
                else (case runtime_apply tj os L en a rt d of
                   (Inl e, rt', d') \<Rightarrow> (Inl e, rt', d')
                 | (Inr _, rt', d') \<Rightarrow> (Inr (status_of rt'), rt', d')))))"
  by (auto simp: apply_raw_def wanted_listen_def Let_def split: sum.splits option.splits)

lemma apply_raw_inv [inv_pres]:
  "apply_raw tj pj os L body rt d = (r, rt', d') \<Longrightarrow> runtime_inv rt \<Longrightarrow> runtime_inv rt'"
  by (auto simp: apply_raw_eq Let_def dest: runtime_apply_inv split: sum.splits option.splits prod.splits if_splits)

lemma start_initial_inv [inv_pres]: "rt_handles rt = None \<Longrightarrow> rt_sockets rt = {} \<Longrightarrow> runtime_inv (start_initial os L rt)"
  by (auto simp: start_initial_def runtime_inv_def dest!: start_cases split: prod.splits sum.splits)

section \<open>Reachable states\<close>

text \<open>The runtime is created and started once; afterwards it is changed through \<open>apply_raw\<close>, while
  queries and the other operations change the service and the statistics but not the address.\<close>

inductive runtime_reach ::
  "(server_overrides \<Rightarrow> string) \<Rightarrow> (string \<Rightarrow> server_overrides option) \<Rightarrow> (bytes \<Rightarrow> string + json) \<Rightarrow>
   'c dns_runtime \<Rightarrow> disk \<Rightarrow> bool"
  for tj oj pj where
  created: "runtime_new tj oj st store sv cfg_listen cfg_enabled d = (Inr rt, d') \<Longrightarrow>
    runtime_reach tj oj pj (start_initial os L rt) d'"
| changed: "runtime_reach tj oj pj rt d \<Longrightarrow> apply_raw tj pj os L body rt d = (r, rt', d') \<Longrightarrow>
    runtime_reach tj oj pj rt' d'"
| served: "runtime_reach tj oj pj rt d \<Longrightarrow> sv_listen sv' = sv_listen (rt_service rt) \<Longrightarrow>
    runtime_reach tj oj pj (rt\<lparr>rt_service := sv', rt_state := st'\<rparr>) d"

lemma runtime_reach_inv: "runtime_reach tj oj pj rt d \<Longrightarrow> runtime_inv rt"
proof (induction rule: runtime_reach.induct)
  case created
  then show ?case
    by (intro start_initial_inv) (auto simp: runtime_new_def Let_def split: option.splits)
next
  case changed
  then show ?case by (blast intro: apply_raw_inv)
next
  case served
  then show ?case by (simp add: runtime_inv_def split: option.splits)
qed

text \<open>An update that asks for what is already configured does nothing, even when the listener is
  down because its first start failed: the same request cannot be used to try again.\<close>

lemma no_retry_after_failed_start:
  assumes "parse_server_overrides pj body = Inr upd" "dso_enabled upd = Some True"
    and "wanted_listen upd (rt_listen rt) = Some (rt_listen rt)" "rt_enabled rt" "rt_handles rt = None"
  shows "apply_raw tj pj os L body rt d = (Inr (status_of rt), rt, d) \<and> \<not> ss_running (status_of rt)"
  using assms by (simp add: apply_raw_eq status_of_def)

section \<open>Properties\<close>

text \<open>in every state the listener can reach, whatever binds and writes failed on the way, the sockets
  open are exactly the UDP and the TCP socket of the configured address when it is running and none
  when it is not; it runs only while enabled, and the address the service reports is the one served.\<close>

theorem listener_consistent:
  assumes "runtime_reach tj oj pj rt d"
  shows "rt_sockets rt = (if ss_running (status_of rt) then {(UdpSocket, rt_listen rt), (TcpListener, rt_listen rt)} else {}) \<and>
    (ss_running (status_of rt) \<longrightarrow> rt_enabled rt \<and> sv_listen (rt_service rt) = rt_listen rt)"
  using runtime_reach_inv [OF assms] by (auto simp: runtime_inv_def status_of_def split: option.splits)

text \<open>what an update of the listener does. A body or an address that does not parse changes nothing.
  A failed bind leaves the listener off, the old one gone, the settings file and the configured
  address untouched. A success has the requested settings in force, and if they differ from the old
  ones the listener runs exactly when it is enabled.\<close>

theorem listener_update:
  assumes "runtime_reach tj oj pj rt d" "apply_raw tj pj os L body rt d = (res, rt', d')"
    and "parse_server_overrides pj body = Inr upd"
  shows "case res of
      Inr s \<Rightarrow> s = status_of rt' \<and> ss_enabled s = unwrap_or (dso_enabled upd) (rt_enabled rt) \<and>
        wanted_listen upd (rt_listen rt) = Some (rt_listen rt') \<and>
        (rt_enabled rt' \<noteq> rt_enabled rt \<or> rt_listen rt' \<noteq> rt_listen rt \<longrightarrow> ss_running s = ss_enabled s)
    | Inl (BindFailed _) \<Rightarrow> \<not> rt_enabled rt' \<and> rt_sockets rt' = {} \<and> rt_listen rt' = rt_listen rt \<and> d' = d
    | Inl _ \<Rightarrow> rt' = rt \<and> d' = d"
proof -
  note inv = runtime_reach_inv [OF assms(1)]
  show ?thesis
  proof (cases "wanted_listen upd (rt_listen rt)")
    case None
    with assms(2,3) show ?thesis by (auto simp: apply_raw_eq)
  next
    case (Some a)
    let ?en = "unwrap_or (dso_enabled upd) (rt_enabled rt)"
    show ?thesis
    proof (cases "?en = rt_enabled rt \<and> a = rt_listen rt")
      case True
      with Some assms(2,3) show ?thesis by (auto simp: apply_raw_eq Let_def status_of_def)
    next
      case False
      obtain r rt1 d1 where ap: "runtime_apply tj os L ?en a rt d = (r, rt1, d1)" by (metis prod_cases3)
      show ?thesis
      proof (cases r)
        case (Inl e)
        with runtime_apply_failed [OF ap [unfolded Inl] inv] ap Some False assms(2,3) show ?thesis
          by (auto simp: apply_raw_eq Let_def)
      next
        case (Inr u)
        with runtime_apply_ok [of tj os L ?en a rt d rt1 d1] ap inv Some False assms(2,3) show ?thesis
          by (auto simp: apply_raw_eq Let_def status_of_def)
      qed
    qed
  qed
qed

text \<open>a change of the listener settings survives a restart: the runtime created from the file it
  wrote has the same address and is enabled exactly when the changed one was.\<close>

theorem listener_survives_restart:
  assumes "runtime_reach tj oj pj rt d" "apply_raw tj pj os L body rt d = (Inr s, rt', d')"
    and "rt_enabled rt' \<noteq> rt_enabled rt \<or> rt_listen rt' \<noteq> rt_listen rt"
    and "healthy d (rt_store rt)" "rt_listen rt' = SockV4 a p"
    and "m = installed_overrides (rt_enabled rt') (rt_listen rt') rt" "oj (tj m) = Some m"
  shows "\<exists>rt2. runtime_new tj oj st (rt_store rt) sv cfg_listen cfg_enabled d' = (Inr rt2, d') \<and>
    rt_enabled rt2 = rt_enabled rt' \<and> rt_listen rt2 = rt_listen rt'"
proof -
  obtain en b where ap: "runtime_apply tj os L en b rt d = (Inr (), rt', d')"
    using assms(2,3) by (auto simp: apply_raw_eq Let_def split: sum.splits option.splits prod.splits if_splits)
  note ok = runtime_apply_ok [OF ap runtime_reach_inv [OF assms(1)]]
  then have d': "d' = d\<lparr>files := (files d)(rt_store rt := Some (Text (tj m)))\<rparr>"
    using assms(4,6) by (simp add: save_overrides_def)
  have "load_overrides oj no_server_overrides (rt_store rt) d' = m"
    by (simp add: d' load_overrides_def read_to_string_def assms(7))
  then show ?thesis
    using parse_show_socket_v4 [of a p]
    by (simp add: runtime_new_def Let_def ensure_overrides_def path_exists_def d' assms(5,6) installed_overrides_def)
qed

definition sample_on :: server_overrides where
  "sample_on = \<lparr>dso_enabled = Some True, dso_listen = Some ''1.2.3.4:53''\<rparr>"

definition sample_srv_tj :: "server_overrides \<Rightarrow> string" where
  "sample_srv_tj x = (if dso_enabled x = Some True then ''on'' else ''off'')"

definition sample_srv_oj :: "string \<Rightarrow> server_overrides option" where
  "sample_srv_oj s = Some (if s = ''on'' then sample_on else sample_on\<lparr>dso_enabled := Some False\<rparr>)"

definition sample_body :: "bytes \<Rightarrow> string + json" where
  "sample_body _ = Inr (JObject [(''dns_enabled'', JBool True)])"

definition sample_log_env :: log_env where
  "sample_log_env = \<lparr>le_codecs = sample_codecs, le_io_ok = True, le_ms = 0, le_trace = None\<rparr>"

definition sample_rt :: "(nat \<times> (cache_key \<times> string cache_entry) list) dns_runtime" where
  "sample_rt = \<lparr>rt_state = sample_state, rt_store = ([], ''dns-server.json''), rt_service = sample_service,
     rt_enabled = False, rt_listen = SockV4 (Ipv4 1 2 3 4) 53, rt_handles = None,
     rt_overrides = sample_on\<lparr>dso_enabled := Some False\<rparr>, rt_sockets = {}\<rparr>"

abbreviation "sample_rt_disk \<equiv> empty_disk\<lparr>files := (files empty_disk)(([], ''dns-server.json'') := Some (Text ''off''))\<rparr>"

lemma sample_rt_listen: "parse_socket_addr ''1.2.3.4:53'' = Some (SockV4 (Ipv4 1 2 3 4) 53)"
  by code_simp

lemma sample_rt_reach: "runtime_reach sample_srv_tj sample_srv_oj sample_body sample_rt sample_rt_disk"
proof -
  have "runtime_new sample_srv_tj sample_srv_oj sample_state ([], ''dns-server.json'') sample_service ''1.2.3.4:53'' False
      empty_disk = (Inr sample_rt, sample_rt_disk)"
    by (simp add: runtime_new_def Let_def ensure_overrides_def path_exists_def save_overrides_def create_parent_def
        write_file_def empty_disk_def load_overrides_def read_to_string_def sample_srv_tj_def sample_srv_oj_def
        sample_on_def sample_rt_listen sample_rt_def)
  from runtime_reach.created [OF this] show ?thesis by (simp add: start_initial_def sample_rt_def)
qed

abbreviation "sample_rt_update \<equiv> apply_raw sample_srv_tj sample_body (\<lambda>_ _. None) sample_log_env [] sample_rt sample_rt_disk"

lemma sample_rt_updated:
  "\<exists>rt' d'. sample_rt_update = (Inr (status_of rt'), rt', d') \<and> rt_enabled rt' \<and> rt_listen rt' = SockV4 (Ipv4 1 2 3 4) 53"
  by (simp add: apply_raw_eq parse_server_overrides_def sample_body_def get_bool_def get_str_def wanted_listen_def
      sample_rt_def runtime_apply_def Let_def stop_old_def start_def bind_def install_def split: prod.splits sum.splits)

theorem listener_consistent_witness: "rt_sockets sample_rt = {}"
  using listener_consistent [OF sample_rt_reach] by (simp add: sample_rt_def status_of_def)

theorem listener_update_witness: "\<exists>s rt' d'. sample_rt_update = (Inr s, rt', d') \<and> ss_running s"
proof -
  obtain rt' d' where u: "sample_rt_update = (Inr (status_of rt'), rt', d')" "rt_enabled rt'"
    using sample_rt_updated by blast
  moreover have "parse_server_overrides sample_body [] = Inr \<lparr>dso_enabled = Some True, dso_listen = None\<rparr>" by code_simp
  ultimately show ?thesis
    using listener_update [OF sample_rt_reach u(1)] by (fastforce simp: sample_rt_def status_of_def)
qed

theorem listener_survives_restart_witness:
  "\<exists>rt2 d'. runtime_new sample_srv_tj sample_srv_oj sample_state ([], ''dns-server.json'') sample_service ''0.0.0.0:53'' False d'
     = (Inr rt2, d') \<and> rt_enabled rt2 \<and> rt_listen rt2 = SockV4 (Ipv4 1 2 3 4) 53"
proof -
  obtain rt' d' where u: "sample_rt_update = (Inr (status_of rt'), rt', d')" "rt_enabled rt'"
    "rt_listen rt' = SockV4 (Ipv4 1 2 3 4) 53"
    using sample_rt_updated by blast
  have "show_socket_addr (SockV4 (Ipv4 1 2 3 4) 53) = ''1.2.3.4:53''" by code_simp
  then have "sample_srv_oj (sample_srv_tj (installed_overrides (rt_enabled rt') (rt_listen rt') sample_rt))
      = Some (installed_overrides (rt_enabled rt') (rt_listen rt') sample_rt)"
    by (simp add: u sample_srv_oj_def sample_srv_tj_def installed_overrides_def sample_on_def sample_rt_def)
  from listener_survives_restart [OF sample_rt_reach u(1) _ _ u(3) refl this]
  show ?thesis using u by (fastforce simp: sample_rt_def healthy_def empty_disk_def)
qed

end
