(* ===== verification/Proxy_Store.thy ===== *)
theory Proxy_Store
  imports Json "HOL-Library.AList"
begin

text \<open>
  The JSON settings file of \<open>proxy/persist.rs\<close>, which several groups of settings share: a group writes
  its own keys into the object the file holds. (The set file of the same module is the one of
  \<open>Persist\<close>.) The text format is a parameter, \<open>json_text\<close>.

  The interface is the locale \<open>settings_group\<close>: what a group's own conversion to and from JSON promises,
  so that groups in one file do not disturb each other. Every group of the proxy interprets it.
\<close>

record json_text =
  jt_parse :: "string \<Rightarrow> json option"
  jt_print :: "json \<Rightarrow> string + string"

datatype store_error = StoreIo io_error | StoreJson string

fun show_store_error :: "store_error \<Rightarrow> string" where
  "show_store_error (StoreIo e) = show_io_error e"
| "show_store_error (StoreJson e) = e"

definition extend_map :: "(string \<times> json) list \<Rightarrow> (string \<times> json) list \<Rightarrow> (string \<times> json) list" where
  "extend_map base nxt = fold (\<lambda>(k, v). AList.update k v) nxt base"

fun json_merge :: "json \<Rightarrow> json \<Rightarrow> json" where
  "json_merge (JObject base) (JObject nxt) = JObject (extend_map base nxt)"
| "json_merge base JNull = base"
| "json_merge base nxt = nxt"

definition store_read :: "path \<Rightarrow> disk \<Rightarrow> string option" where
  "store_read p d = (if p = no_path then None else read_to_string d p)"

definition store_raw :: "json_text \<Rightarrow> path \<Rightarrow> disk \<Rightarrow> json" where
  "store_raw T p d = unwrap_or (Option.bind (store_read p d) (jt_parse T)) JNull"

definition store_write :: "json_text \<Rightarrow> path \<Rightarrow> json \<Rightarrow> disk \<Rightarrow> (store_error + unit) \<times> disk" where
  "store_write T p v d =
     (if p = no_path then (Inr (), d)
      else case create_parent d p of
        Inl e \<Rightarrow> (Inl (StoreIo e), d)
      | Inr _ \<Rightarrow>
          (case jt_print T v of
             Inl e \<Rightarrow> (Inl (StoreJson e), d)
           | Inr body \<Rightarrow> (case write_file p body d of (r, d') \<Rightarrow> (map_err StoreIo r, d'))))"

text \<open>Reading a value of a group from the text goes through its JSON.\<close>

definition store_load :: "json_text \<Rightarrow> (json \<Rightarrow> 'a option) \<Rightarrow> 'a \<Rightarrow> path \<Rightarrow> disk \<Rightarrow> 'a" where
  "store_load T of_value dflt p d =
     unwrap_or (Option.bind (Option.bind (store_read p d) (jt_parse T)) of_value) dflt"

definition store_save :: "json_text \<Rightarrow> ('a \<Rightarrow> json) \<Rightarrow> path \<Rightarrow> 'a \<Rightarrow> disk \<Rightarrow> (store_error + unit) \<times> disk" where
  "store_save T to_value p x d = store_write T p (json_merge (store_raw T p d) (to_value x)) d"

definition store_ensure :: "json_text \<Rightarrow> ('a \<Rightarrow> json) \<Rightarrow> path \<Rightarrow> 'a \<Rightarrow> disk \<Rightarrow> disk" where
  "store_ensure T to_value p dflt d = snd (store_write T p (json_merge (to_value dflt) (store_raw T p d)) d)"

section \<open>Fields\<close>

text \<open>How the derived conversions read a field that is an option: absent and \<open>null\<close> are both
  \<open>None\<close>, a value of another type is an error.\<close>

definition opt_field :: "(json \<Rightarrow> 'a option) \<Rightarrow> json option \<Rightarrow> 'a option option" where
  "opt_field read v =
     (case v of None \<Rightarrow> Some None | Some JNull \<Rightarrow> Some None | Some j \<Rightarrow> map_option Some (read j))"

fun opt_json :: "('a \<Rightarrow> json) \<Rightarrow> 'a option \<Rightarrow> json" where
  "opt_json w None = JNull"
| "opt_json w (Some x) = w x"

lemma opt_field_None [simp]: "opt_field read None = Some None"
  by (simp add: opt_field_def)

lemma opt_field_bool [simp]: "opt_field as_bool (Some (opt_json JBool b)) = Some b"
  by (cases b) (simp_all add: opt_field_def)

lemma opt_field_str [simp]: "opt_field as_str (Some (opt_json JString s)) = Some s"
  by (cases s) (simp_all add: opt_field_def)

section \<open>The contract of a group\<close>

locale settings_group =
  fixes to_value :: "'a \<Rightarrow> json" and of_value :: "json \<Rightarrow> 'a option" and dflt :: 'a and keys :: "string set"
  assumes value_object: "\<exists>m. to_value x = JObject m \<and> distinct (map fst m) \<and> fst ` set m = keys"
    and own_keys: "(\<And>k. k \<in> keys \<Longrightarrow> map_of m k = map_of m' k) \<Longrightarrow> of_value (JObject m) = of_value (JObject m')"
    and value_back: "of_value (to_value x) = Some x"
    and no_keys: "of_value (JObject []) = Some dflt"
    and no_value: "of_value JNull = None"

lemma map_of_extend:
  "distinct (map fst nxt) \<Longrightarrow>
   map_of (extend_map base nxt) k = (case map_of nxt k of Some v \<Rightarrow> Some v | None \<Rightarrow> map_of base k)"
proof (induction nxt arbitrary: base)
  case (Cons kv nxt)
  obtain k' v where kv: "kv = (k', v)" by (cases kv)
  have "map_of nxt k' = None" using Cons.prems kv by (force simp: map_of_eq_None_iff)
  with Cons kv show ?case
    by (auto simp: extend_map_def update_conv' split: option.splits)
qed (simp add: extend_map_def)

lemma distinct_extend: "distinct (map fst base) \<Longrightarrow> distinct (map fst (extend_map base nxt))"
  by (induction nxt arbitrary: base) (auto simp: extend_map_def distinct_update)

lemma store_write_reads:
  assumes "store_write T p v d = (Inr (), d')" "p \<noteq> no_path" "\<And>v t. jt_print T v = Inr t \<Longrightarrow> jt_parse T t = Some v"
  shows "Option.bind (store_read p d') (jt_parse T) = Some v"
proof -
  obtain body where b: "jt_print T v = Inr body" "write_file p body d = (Inr (), d')"
    using assms(1,2) by (auto simp: store_write_def map_err_def split: sum.splits prod.splits)
  have "read_to_string d' p = Some body"
    using b(2) by (auto simp: write_file_def read_to_string_def split: option.splits)
  then show ?thesis using assms(2) assms(3) [OF b(1)] by (simp add: store_read_def)
qed

text \<open>What is relied on of the text format: what is printed is parsed, and the keys of an object are
  distinct.\<close>

definition json_text_ok :: "json_text \<Rightarrow> bool" where
  "json_text_ok T \<longleftrightarrow>
     (\<forall>v t. jt_print T v = Inr t \<longrightarrow> jt_parse T t = Some v) \<and>
     (\<forall>t m. jt_parse T t = Some (JObject m) \<longrightarrow> distinct (map fst m))"

context settings_group
begin

lemma of_merge_own: "of_value (json_merge base (to_value x)) = Some x"
proof -
  obtain m where m: "to_value x = JObject m" "distinct (map fst m)" "fst ` set m = keys" using value_object by blast
  show ?thesis
  proof (cases base)
    case (JObject b)
    have "of_value (JObject (extend_map b m)) = of_value (JObject m)"
    proof (rule own_keys)
      fix k assume "k \<in> keys"
      then have "map_of m k \<noteq> None" using m(3) by (simp add: map_of_eq_None_iff)
      then show "map_of (extend_map b m) k = map_of m k" by (auto simp: map_of_extend [OF m(2)])
    qed
    then show ?thesis using JObject m(1) value_back [of x] by simp
  qed (use m(1) value_back [of x] in simp_all)
qed

lemma of_merge_other:
  assumes "v = JObject m" "distinct (map fst m)" "fst ` set m \<inter> keys = {}" "is_object base \<or> base = JNull"
  shows "unwrap_or (of_value (json_merge base v)) dflt = unwrap_or (of_value base) dflt"
proof -
  have none: "map_of m k = None" if "k \<in> keys" for k using assms(3) that by (auto simp: map_of_eq_None_iff)
  show ?thesis
  proof (cases base)
    case (JObject b)
    have "of_value (JObject (extend_map b m)) = of_value (JObject b)"
      by (rule own_keys) (simp add: map_of_extend [OF assms(2)] none)
    then show ?thesis by (simp add: JObject assms(1))
  next
    case JNull
    have "of_value (JObject m) = of_value (JObject [])" by (rule own_keys) (simp add: none)
    then show ?thesis by (simp add: JNull assms(1) no_keys no_value)
  qed (use assms(4) in simp_all)
qed

text \<open>Defaults fill in what the file lacks, and what it has wins.\<close>

lemma ensured:
  assumes "store_ensure T to_value p x d = d'" "p \<noteq> no_path" "healthy d p"
    and "\<And>v. \<exists>t. jt_print T v = Inr t \<and> jt_parse T t = Some v"
  shows "store_load T of_value dflt p d' = unwrap_or (of_value (json_merge (to_value x) (store_raw T p d))) dflt"
proof -
  let ?v = "json_merge (to_value x) (store_raw T p d)"
  obtain t where "jt_print T ?v = Inr t" "jt_parse T t = Some ?v" using assms(4) by blast
  then show ?thesis
    using assms(1-3)
    by (auto simp: store_ensure_def store_write_def map_err_def store_load_def store_read_def read_to_string_def)
qed

text \<open>What was saved is what the next start finds, also after the defaults were filled in.\<close>

lemma restart_value:
  assumes "json_text_ok T" "p \<noteq> no_path" "store_save T to_value p x d = (Inr (), d')" "healthy d' p"
  shows "store_load T of_value dflt p (store_ensure T to_value p y d') = x"
proof -
  have pp: "jt_parse T t = Some v" if "jt_print T v = Inr t" for v t using assms(1) that by (simp add: json_text_ok_def)
  obtain n where n: "to_value x = JObject n" "distinct (map fst n)" "fst ` set n = keys" using value_object by blast
  obtain k where k: "to_value y = JObject k" "distinct (map fst k)" "fst ` set k = keys" using value_object by blast
  let ?M = "json_merge (store_raw T p d) (to_value x)"
  have read: "Option.bind (store_read p d') (jt_parse T) = Some ?M"
    using store_write_reads [OF assms(3) [unfolded store_save_def] assms(2) pp] .
  obtain m where m: "?M = JObject m" "distinct (map fst m)"
  proof (cases "store_raw T p d")
    case (JObject b)
    then have "distinct (map fst b)" using assms(1)
      by (auto simp: json_text_ok_def store_raw_def bind_eq_Some_conv split: option.splits elim!: unwrap_or.elims)
    then show thesis using that JObject n(1) distinct_extend by simp
  qed (use that n in simp_all)
  have own: "of_value (JObject m) = Some x" using of_merge_own [of "store_raw T p d" x] m(1) by simp
  have has: "map_of m j \<noteq> None" if "j \<in> keys" for j
  proof (cases "store_raw T p d")
    case (JObject b)
    then have "m = extend_map b n" using m(1) n(1) by simp
    then show ?thesis using n(3) that by (auto simp: map_of_extend [OF n(2)] map_of_eq_None_iff split: option.splits)
  qed (use m(1) n that in \<open>auto simp: map_of_eq_None_iff\<close>)
  have "of_value (JObject (extend_map k m)) = of_value (JObject m)"
    by (rule own_keys) (use has in \<open>fastforce simp: map_of_extend [OF m(2)] split: option.splits\<close>)
  then have both: "of_value (JObject (extend_map k m)) = Some x" using own by simp
  have raw: "store_raw T p d' = JObject m" using read m(1) by (simp add: store_raw_def)
  show ?thesis
  proof (cases "jt_print T (JObject (extend_map k m))")
    case (Inl e)
    then have "store_ensure T to_value p y d' = d'"
      using assms(2,4) by (simp add: store_ensure_def store_write_def raw k(1))
    then show ?thesis using read m(1) own by (simp add: store_load_def)
  next
    case (Inr t)
    then have "store_write T p (json_merge (to_value y) (store_raw T p d')) d' = (Inr (), store_ensure T to_value p y d')"
      using assms(2,4) by (simp add: store_ensure_def store_write_def raw k(1) map_err_def)
    from store_write_reads [OF this assms(2) pp] show ?thesis
      using both by (simp add: store_load_def raw k(1))
  qed
qed

end

end
