(* ===== verification/Proxy_Egress.thy ===== *)
theory Proxy_Egress
  imports Proxy_Store Dns_Service
begin

text \<open>
  \<open>proxy/egress.rs\<close> and \<open>proxy/blackhole.rs\<close>: how the proxy resolves the hosts it dials, and the check
  for hosts that resolve to nowhere. The DNS service is used through the record \<open>dns_ops\<close> and the
  contract \<open>dns_source\<close>, which the model of the service interprets.
\<close>

section \<open>The DNS service as a provider\<close>

record ('d, 'f) dns_ops =
  dn_resolve :: "string \<Rightarrow> bool \<Rightarrow> 'd \<Rightarrow> ('f + ip_addr list) \<times> 'd"
  dn_ech :: "string \<Rightarrow> 'd \<Rightarrow> bytes option \<times> 'd"

locale dns_source =
  fixes N :: "('d, 'f) dns_ops"
  assumes resolved: "fst (dn_resolve N host v6 s) = Inr ips \<Longrightarrow> ips \<noteq> [] \<and> (\<forall>ip \<in> set ips. \<not> is_unspecified ip)"

definition service_dns ::
  "('c, 'n) dns_deps \<Rightarrow> 'n request_env \<Rightarrow> 'n request_env \<Rightarrow> u16 \<Rightarrow> u16 \<Rightarrow>
   ('c dns_service \<times> shared_state, lookup_failure) dns_ops" where
  "service_dns D V W i j =
     \<lparr>dn_resolve = (\<lambda>host v6 (sv, st). case resolve_name D V W i j host v6 sv st of (r, sv', st') \<Rightarrow> (r, (sv', st'))),
      dn_ech = (\<lambda>host (sv, st). case ech_config_list D V i host sv st of (r, sv', st') \<Rightarrow> (r, (sv', st')))\<rparr>"

interpretation service_lookup: dns_source "service_dns D V W i j" for D V W i j
proof
  fix host v6 s ips
  assume "fst (dn_resolve (service_dns D V W i j) host v6 s) = Inr ips"
  then have "fst (resolve_name D V W i j host v6 (fst s) (snd s)) = Inr ips"
    by (auto simp: service_dns_def split: prod.splits)
  from resolve_name_addresses [OF this] show "ips \<noteq> [] \<and> (\<forall>ip \<in> set ips. \<not> is_unspecified ip)" by simp
qed

section \<open>Caches with a fixed lifetime\<close>

definition RESOLVE_CACHE_TTL :: duration where "RESOLVE_CACHE_TTL = from_secs 10"
definition RESOLVE_CACHE_CAP :: nat where "RESOLVE_CACHE_CAP = 1024"

type_synonym ('c, 'v) ttl_lru = "('c, string, 'v \<times> instant) lru_ops"

definition ttl_get :: "('c, 'v) ttl_lru \<Rightarrow> instant \<Rightarrow> string \<Rightarrow> 'c \<Rightarrow> 'v option \<times> 'c" where
  "ttl_get L now host c =
     (case lru_get L host c of
        (Some (v, until), c') \<Rightarrow> if now < until then (Some v, c') else (None, lru_pop L host c')
      | (None, c') \<Rightarrow> (None, c'))"

definition ttl_put :: "('c, 'v) ttl_lru \<Rightarrow> instant \<Rightarrow> string \<Rightarrow> 'v \<Rightarrow> 'c \<Rightarrow> 'c" where
  "ttl_put L now host v c = lru_put L host (v, now + RESOLVE_CACHE_TTL) c"

section \<open>Policy\<close>

record egress_overrides =
  eo_resolver_only :: "bool option"
  eo_disable_ipv6 :: "bool option"

definition no_egress_overrides :: egress_overrides where
  "no_egress_overrides = \<lparr>eo_resolver_only = None, eo_disable_ipv6 = None\<rparr>"

datatype egress_error = EgressBadJson string | EgressNotObject

definition parse_egress :: "(bytes \<Rightarrow> string + json) \<Rightarrow> bytes \<Rightarrow> egress_error + egress_overrides" where
  "parse_egress parse_json body =
     (case parse_json body of
        Inl e \<Rightarrow> Inl (EgressBadJson e)
      | Inr v \<Rightarrow>
          if \<not> is_object v then Inl EgressNotObject
          else Inr \<lparr>eo_resolver_only = get_bool ''resolver_only'' v, eo_disable_ipv6 = get_bool ''disable_ipv6'' v\<rparr>)"

text \<open>The derived conversions. An array is read by position, as for every derived struct.\<close>

definition egress_to_value :: "egress_overrides \<Rightarrow> json" where
  "egress_to_value o' =
     JObject [(''resolver_only'', opt_json JBool (eo_resolver_only o')), (''disable_ipv6'', opt_json JBool (eo_disable_ipv6 o'))]"

definition egress_of_fields :: "json option \<Rightarrow> json option \<Rightarrow> egress_overrides option" where
  "egress_of_fields a b =
     Option.bind (opt_field as_bool a) (\<lambda>r.
       map_option (\<lambda>i. \<lparr>eo_resolver_only = r, eo_disable_ipv6 = i\<rparr>) (opt_field as_bool b))"

fun egress_of_value :: "json \<Rightarrow> egress_overrides option" where
  "egress_of_value (JObject m) = egress_of_fields (map_of m ''resolver_only'') (map_of m ''disable_ipv6'')"
| "egress_of_value (JArray []) = egress_of_fields None None"
| "egress_of_value (JArray [a]) = egress_of_fields (Some a) None"
| "egress_of_value (JArray [a, b]) = egress_of_fields (Some a) (Some b)"
| "egress_of_value _ = None"

interpretation egress_group: settings_group egress_to_value egress_of_value no_egress_overrides
  "{''resolver_only'', ''disable_ipv6''}"
  by unfold_locales (auto simp: egress_to_value_def egress_of_fields_def no_egress_overrides_def)

record egress_settings =
  es_resolver_only :: bool
  es_disable_ipv6 :: bool

record ('a, 'b) egress =
  eg_settings :: egress_settings
  eg_path :: path
  eg_addrs :: 'a
  eg_echs :: 'b

type_synonym 'a addr_lru = "('a, ip_addr list) ttl_lru"
type_synonym 'b ech_lru = "('b, bytes option) ttl_lru"

definition egress_load :: "json_text \<Rightarrow> 'a addr_lru \<Rightarrow> 'b ech_lru \<Rightarrow> path \<Rightarrow> disk \<Rightarrow> ('a, 'b) egress \<times> disk" where
  "egress_load T L K p d =
     (let d1 = store_ensure T egress_to_value p \<lparr>eo_resolver_only = Some True, eo_disable_ipv6 = Some True\<rparr> d;
          o' = store_load T egress_of_value no_egress_overrides p d1
      in (\<lparr>eg_settings = \<lparr>es_resolver_only = unwrap_or (eo_resolver_only o') True,
                         es_disable_ipv6 = unwrap_or (eo_disable_ipv6 o') True\<rparr>,
           eg_path = p, eg_addrs = lru_new L RESOLVE_CACHE_CAP, eg_echs = lru_new K RESOLVE_CACHE_CAP\<rparr>, d1))"

definition egress_apply ::
  "json_text \<Rightarrow> 'a addr_lru \<Rightarrow> 'b ech_lru \<Rightarrow> egress_overrides \<Rightarrow> ('a, 'b) egress \<Rightarrow> disk \<Rightarrow>
   egress_settings \<times> ('a, 'b) egress \<times> disk" where
  "egress_apply T L K upd eg d =
     (let snap = \<lparr>es_resolver_only = unwrap_or (eo_resolver_only upd) (es_resolver_only (eg_settings eg)),
                  es_disable_ipv6 = unwrap_or (eo_disable_ipv6 upd) (es_disable_ipv6 (eg_settings eg))\<rparr>;
          saved = store_save T egress_to_value (eg_path eg)
                    \<lparr>eo_resolver_only = Some (es_resolver_only snap), eo_disable_ipv6 = Some (es_disable_ipv6 snap)\<rparr> d
      in (snap, eg\<lparr>eg_settings := snap, eg_addrs := lru_clear L (eg_addrs eg), eg_echs := lru_clear K (eg_echs eg)\<rparr>,
          snd saved))"

text \<open>\<open>now\<close> and \<open>later\<close> are the clock readings of the look-up and of the insertion.\<close>

definition egress_resolve ::
  "('d, 'f) dns_ops \<Rightarrow> 'a addr_lru \<Rightarrow> instant \<Rightarrow> instant \<Rightarrow> string \<Rightarrow> ('a, 'b) egress \<Rightarrow> 'd \<Rightarrow>
   ('f + ip_addr list) \<times> ('a, 'b) egress \<times> 'd" where
  "egress_resolve N L now later host eg dns =
     (case ttl_get L now host (eg_addrs eg) of
        (Some addrs, c) \<Rightarrow> (Inr addrs, eg\<lparr>eg_addrs := c\<rparr>, dns)
      | (None, c) \<Rightarrow>
          (case dn_resolve N host (\<not> es_disable_ipv6 (eg_settings eg)) dns of
             (Inl e, dns') \<Rightarrow> (Inl e, eg\<lparr>eg_addrs := c\<rparr>, dns')
           | (Inr addrs, dns') \<Rightarrow> (Inr addrs, eg\<lparr>eg_addrs := ttl_put L later host addrs c\<rparr>, dns')))"

definition egress_ech ::
  "('d, 'f) dns_ops \<Rightarrow> 'b ech_lru \<Rightarrow> instant \<Rightarrow> instant \<Rightarrow> string \<Rightarrow> ('a, 'b) egress \<Rightarrow> 'd \<Rightarrow>
   bytes option \<times> ('a, 'b) egress \<times> 'd" where
  "egress_ech N K now later host eg dns =
     (case ttl_get K now host (eg_echs eg) of
        (Some l, c) \<Rightarrow> (l, eg\<lparr>eg_echs := c\<rparr>, dns)
      | (None, c) \<Rightarrow>
          (case dn_ech N host dns of (l, dns') \<Rightarrow> (l, eg\<lparr>eg_echs := ttl_put K later host l c\<rparr>, dns')))"

section \<open>The blackhole probe\<close>

definition BLACKHOLE_TTL :: duration where "BLACKHOLE_TTL = from_secs 300"

fun sock_ip :: "socket_addr \<Rightarrow> ip_addr" where
  "sock_ip (SockV4 a _) = V4 a"
| "sock_ip (SockV6 a _ _) = V6 a"

definition is_dns_blackholed :: "socket_addr list \<Rightarrow> bool" where
  "is_dns_blackholed addrs \<longleftrightarrow> addrs \<noteq> [] \<and> list_all (is_unspecified \<circ> sock_ip) addrs"

text \<open>\<open>os\<close> is the resolver of the operating system.\<close>

definition probe_resolve ::
  "('d, 'f) dns_ops \<Rightarrow> 'a addr_lru \<Rightarrow> (string \<Rightarrow> u16 \<Rightarrow> 'f + socket_addr list) \<Rightarrow> instant \<Rightarrow> instant \<Rightarrow> string \<Rightarrow> u16 \<Rightarrow>
   ('a, 'b) egress \<Rightarrow> 'd \<Rightarrow> ('f + socket_addr list) \<times> ('a, 'b) egress \<times> 'd" where
  "probe_resolve N L os now later host port eg dns =
     (if es_resolver_only (eg_settings eg) then
        (case egress_resolve N L now later host eg dns of
           (Inl e, eg', dns') \<Rightarrow> (Inl e, eg', dns')
         | (Inr ips, eg', dns') \<Rightarrow> (Inr (map (\<lambda>ip. sock_of ip port) ips), eg', dns'))
      else (os host port, eg, dns))"

type_synonym blackhole_cache = "string \<Rightarrow> (bool \<times> instant) option"

definition is_blackholed ::
  "('d, 'f) dns_ops \<Rightarrow> 'a addr_lru \<Rightarrow> (string \<Rightarrow> u16 \<Rightarrow> 'f + socket_addr list) \<Rightarrow> instant \<Rightarrow> instant \<Rightarrow> string \<Rightarrow> u16 \<Rightarrow>
   blackhole_cache \<Rightarrow> ('a, 'b) egress \<Rightarrow> 'd \<Rightarrow> bool \<times> blackhole_cache \<times> ('a, 'b) egress \<times> 'd" where
  "is_blackholed N L os now later host port bc eg dns =
     (let key = host @ '':'' @ show_nat (unat port);
          cached = Option.bind (bc key) (\<lambda>(v, at). if elapsed now at < BLACKHOLE_TTL then Some v else None)
      in case cached of
           Some v \<Rightarrow> (v, bc, eg, dns)
         | None \<Rightarrow>
             (case probe_resolve N L os now later host port eg dns of (r, eg', dns') \<Rightarrow>
                let b = (case r of Inr addrs \<Rightarrow> is_dns_blackholed addrs | Inl _ \<Rightarrow> False)
                in (b, bc(key \<mapsto> (b, later)), eg', dns')))"

section \<open>Resolved addresses\<close>

text \<open>What the address cache may hold: the answers of the provider.\<close>

definition addrs_ok :: "'a addr_lru \<Rightarrow> ('a \<Rightarrow> (string \<times> ip_addr list \<times> instant) list) \<Rightarrow> ('a, 'b) egress \<Rightarrow> bool" where
  "addrs_ok L content eg \<longleftrightarrow>
     lru_inv L content (eg_addrs eg) \<and>
     (\<forall>e \<in> set (content (eg_addrs eg)). fst (snd e) \<noteq> [] \<and> (\<forall>ip \<in> set (fst (snd e)). \<not> is_unspecified ip))"

locale egress_client = lru_cache L content + dns_source N
  for L :: "'a addr_lru" and content :: "'a \<Rightarrow> (string \<times> ip_addr list \<times> instant) list" and N :: "('d, 'f) dns_ops"
begin

lemma ttl_get_ok:
  assumes "ttl_get L now host (eg_addrs eg) = (r, c)" "addrs_ok L content eg"
  shows "addrs_ok L content (eg\<lparr>eg_addrs := c\<rparr>)"
    and "r = Some ips \<Longrightarrow> ips \<noteq> [] \<and> (\<forall>ip \<in> set ips. \<not> is_unspecified ip)"
proof -
  obtain v c' where g: "lru_get L host (eg_addrs eg) = (v, c')" by (cases "lru_get L host (eg_addrs eg)")
  have inv: "lru_inv L content c'" using inv_get [of "eg_addrs eg" host] assms(2) g by (simp add: addrs_ok_def)
  have sub: "set (content c') = set (content (eg_addrs eg))"
    using get_content [of host "eg_addrs eg"] assms(2) g by (simp add: addrs_ok_def lru_inv_def set_promote)
  have "addrs_ok L content (eg\<lparr>eg_addrs := c'\<rparr>)" using inv sub assms(2) by (simp add: addrs_ok_def)
  moreover have "addrs_ok L content (eg\<lparr>eg_addrs := lru_pop L host c'\<rparr>)"
    using inv_pop [OF inv, of host] sub assms(2) set_without_subset [of host "content c'"]
    by (auto simp: addrs_ok_def pop_content)
  ultimately show "addrs_ok L content (eg\<lparr>eg_addrs := c\<rparr>)"
    using assms(1) g by (auto simp: ttl_get_def split: option.splits if_splits)
  show "ips \<noteq> [] \<and> (\<forall>ip \<in> set ips. \<not> is_unspecified ip)" if r: "r = Some ips"
  proof -
    obtain until where "v = Some (ips, until)" using assms(1) g r by (auto simp: ttl_get_def split: option.splits if_splits)
    then have "(host, ips, until) \<in> set (content (eg_addrs eg))"
      using get_value [of host "eg_addrs eg"] g by (metis fst_conv map_of_SomeD)
    then show ?thesis using assms(2) by (fastforce simp: addrs_ok_def)
  qed
qed

lemma ttl_put_ok:
  assumes "addrs_ok L content (eg\<lparr>eg_addrs := c\<rparr>)" "ips \<noteq> [] \<and> (\<forall>ip \<in> set ips. \<not> is_unspecified ip)"
  shows "addrs_ok L content (eg\<lparr>eg_addrs := ttl_put L later host ips c\<rparr>)"
proof -
  let ?e = "(host, ips, later + RESOLVE_CACHE_TTL)"
  have "set (content (lru_put L host (snd ?e) c)) \<subseteq> insert ?e (set (content c))"
    unfolding put_content using set_take_subset set_without_subset [of host "content c"] by fastforce
  then show ?thesis
    using assms inv_put [of c host "snd ?e"] by (auto simp: addrs_ok_def ttl_put_def)
qed

lemma egress_resolve_ok:
  assumes "egress_resolve N L now later host eg dns = (r, eg', dns')" "addrs_ok L content eg"
  shows "addrs_ok L content eg'" "eg_settings eg' = eg_settings eg" "eg_path eg' = eg_path eg"
    and "r = Inr ips \<Longrightarrow> ips \<noteq> [] \<and> (\<forall>ip \<in> set ips. \<not> is_unspecified ip)"
proof -
  obtain o' c where g: "ttl_get L now host (eg_addrs eg) = (o', c)" by (cases "ttl_get L now host (eg_addrs eg)")
  note ok = ttl_get_ok [OF g assms(2)]
  obtain a dns1 where dn: "dn_resolve N host (\<not> es_disable_ipv6 (eg_settings eg)) dns = (a, dns1)"
    by (cases "dn_resolve N host (\<not> es_disable_ipv6 (eg_settings eg)) dns")
  have a: "ips \<noteq> [] \<and> (\<forall>ip \<in> set ips. \<not> is_unspecified ip)" if "a = Inr ips" for ips
    using resolved [of host "\<not> es_disable_ipv6 (eg_settings eg)" dns ips] dn that by simp
  show "addrs_ok L content eg'" "eg_settings eg' = eg_settings eg" "eg_path eg' = eg_path eg"
    using assms(1) g dn ok(1) ttl_put_ok [OF ok(1) a]
    by (auto simp: egress_resolve_def split: option.splits sum.splits)
  show "ips \<noteq> [] \<and> (\<forall>ip \<in> set ips. \<not> is_unspecified ip)" if "r = Inr ips"
    using assms(1) g dn a ok(2) that by (auto simp: egress_resolve_def split: option.splits sum.splits)
qed

end

interpretation egress_service: egress_client list_lru snd "service_dns D V W i j" for D V W i j
  by (intro egress_client.intro recency.lru_cache_axioms service_lookup.dns_source_axioms)

lemma sock_ip_of [simp]: "sock_ip (sock_of ip p) = ip"
  by (cases ip) (simp_all add: sock_of_def)

definition all_clear :: "blackhole_cache \<Rightarrow> bool" where
  "all_clear bc \<longleftrightarrow> (\<forall>key. case bc key of Some (v, _) \<Rightarrow> \<not> v | None \<Rightarrow> True)"

lemma all_clear_upd: "all_clear bc \<Longrightarrow> all_clear (bc(k \<mapsto> (False, t)))"
  by (simp add: all_clear_def)

lemma all_clear_get: "all_clear bc \<Longrightarrow> bc key = Some (v, t) \<Longrightarrow> \<not> v"
  by (auto simp: all_clear_def dest!: spec [of _ key])



definition sample_egress :: "(nat \<times> (string \<times> ip_addr list \<times> instant) list, nat) egress" where
  "sample_egress = \<lparr>eg_settings = \<lparr>es_resolver_only = True, es_disable_ipv6 = True\<rparr>, eg_path = no_path,
     eg_addrs = (4, []), eg_echs = 0\<rparr>"


section \<open>Settings\<close>

lemma egress_load_settings:
  assumes "store_load T egress_of_value no_egress_overrides p
      (store_ensure T egress_to_value p \<lparr>eo_resolver_only = Some True, eo_disable_ipv6 = Some True\<rparr> d) =
      \<lparr>eo_resolver_only = Some a, eo_disable_ipv6 = Some b\<rparr>"
  shows "eg_settings (fst (egress_load T L K p d)) = \<lparr>es_resolver_only = a, es_disable_ipv6 = b\<rparr>"
  using assms by (simp add: egress_load_def Let_def)

text \<open>a change of the egress settings empties both caches at once, keeps what was not given, and is
  what the next start reads, whatever else the shared file holds.\<close>

theorem egress_survives_restart:
  assumes "json_text_ok T" "eg_path eg \<noteq> no_path" "healthy d (eg_path eg)"
    and "egress_apply T L K upd eg d = (snap, eg', d')"
    and "jt_print T (json_merge (store_raw T (eg_path eg) d) (egress_to_value
           \<lparr>eo_resolver_only = Some (es_resolver_only snap), eo_disable_ipv6 = Some (es_disable_ipv6 snap)\<rparr>)) = Inr body"
  shows "eg_settings (fst (egress_load T L K (eg_path eg) d')) = snap \<and> eg_settings eg' = snap \<and>
    eg_addrs eg' = lru_clear L (eg_addrs eg) \<and> eg_echs eg' = lru_clear K (eg_echs eg)"
proof -
  let ?x = "\<lparr>eo_resolver_only = Some (es_resolver_only snap), eo_disable_ipv6 = Some (es_disable_ipv6 snap)\<rparr>"
  have d': "d' = snd (store_save T egress_to_value (eg_path eg) ?x d)"
    and eg': "eg' = eg\<lparr>eg_settings := snap, eg_addrs := lru_clear L (eg_addrs eg), eg_echs := lru_clear K (eg_echs eg)\<rparr>"
    using assms(4) by (auto simp: egress_apply_def Let_def)
  have save: "store_save T egress_to_value (eg_path eg) ?x d = (Inr (), d')"
    using d' assms(2,3,5) by (auto simp: store_save_def store_write_def map_err_def)
  have "healthy d' (eg_path eg)"
    using assms(2,3,5) save by (auto simp: store_save_def store_write_def map_err_def)
  then have "store_load T egress_of_value no_egress_overrides (eg_path eg)
      (store_ensure T egress_to_value (eg_path eg) \<lparr>eo_resolver_only = Some True, eo_disable_ipv6 = Some True\<rparr> d') = ?x"
    by (rule egress_group.restart_value [OF assms(1,2) save])
  from egress_load_settings [OF this, of L K] show ?thesis using eg' by simp
qed

definition sample_value :: json where
  "sample_value = egress_to_value \<lparr>eo_resolver_only = Some False, eo_disable_ipv6 = Some True\<rparr>"

definition sample_text :: json_text where
  "sample_text = \<lparr>jt_parse = (\<lambda>t. if t = ''v'' then Some sample_value else None),
     jt_print = (\<lambda>v. if v = sample_value then Inr ''v'' else Inl ''unprintable'')\<rparr>"

lemma sample_text_ok: "json_text_ok sample_text"
  by (auto simp: json_text_ok_def sample_text_def sample_value_def egress_to_value_def split: if_splits)

theorem egress_survives_restart_witness:
  "let r = egress_apply sample_text list_lru list_lru \<lparr>eo_resolver_only = Some False, eo_disable_ipv6 = None\<rparr>
       (\<lparr>eg_settings = \<lparr>es_resolver_only = True, es_disable_ipv6 = True\<rparr>, eg_path = (''d'', ''f''), eg_addrs = (4, []), eg_echs = (4, [])\<rparr>)
       empty_disk
   in eg_settings (fst (egress_load sample_text list_lru list_lru (''d'', ''f'') (snd (snd r)))) = fst r \<and>
      fst r = \<lparr>es_resolver_only = False, es_disable_ipv6 = True\<rparr>"
proof -
  let ?eg = "\<lparr>eg_settings = \<lparr>es_resolver_only = True, es_disable_ipv6 = True\<rparr>, eg_path = (''d'', ''f''), eg_addrs = (4, []), eg_echs = (4, [])\<rparr>"
  let ?r = "egress_apply sample_text list_lru list_lru \<lparr>eo_resolver_only = Some False, eo_disable_ipv6 = None\<rparr> ?eg empty_disk"
  have f: "fst ?r = \<lparr>es_resolver_only = False, es_disable_ipv6 = True\<rparr>" by (simp add: egress_apply_def Let_def)
  then have r: "?r = (\<lparr>es_resolver_only = False, es_disable_ipv6 = True\<rparr>, fst (snd ?r), snd (snd ?r))" by (metis prod.collapse)
  have raw: "store_raw sample_text (''d'', ''f'') empty_disk = JNull"
    by (simp add: store_raw_def store_read_def read_to_string_def empty_disk_def)
  have v: "json_merge JNull sample_value = sample_value" by (simp add: sample_value_def egress_to_value_def)
  have p: "jt_print sample_text sample_value = Inr ''v''" by (simp add: sample_text_def)
  show ?thesis
    using egress_survives_restart [OF sample_text_ok _ _ r, of "''v''"] raw v p f
    by (simp add: healthy_def empty_disk_def Let_def flip: sample_value_def)
qed

end
