(* ===== verification/Http.thy ===== *)
theory Http
  imports Json
begin

text \<open>
  What the proxy and the ad blocker use of the \<open>hyper\<close> crate. A header map is an abstract type \<open>'h\<close>
  with the operations of the record below; the locale \<open>header_map\<close> states their documented
  behaviour, and the association list interprets it. Header names are lower case.
\<close>

record 'h header_ops =
  get_all :: "string \<Rightarrow> 'h \<Rightarrow> string list"
  insert_header :: "string \<Rightarrow> string \<Rightarrow> 'h \<Rightarrow> 'h"
  append_header :: "string \<Rightarrow> string \<Rightarrow> 'h \<Rightarrow> 'h"
  remove_header :: "string \<Rightarrow> 'h \<Rightarrow> 'h"
  header_pairs :: "'h \<Rightarrow> (string \<times> string) list"

text \<open>\<open>HeaderValue::to_str\<close> succeeds on visible ASCII (and tabs).\<close>

definition visible_ascii :: "char \<Rightarrow> bool" where
  "visible_ascii c \<longleftrightarrow> 32 \<le> code c \<and> code c < 127 \<or> code c = 9"

definition to_str :: "string \<Rightarrow> string option" where
  "to_str v = (if list_all visible_ascii v then Some v else None)"

definition header_get :: "'h header_ops \<Rightarrow> string \<Rightarrow> 'h \<Rightarrow> string option" where
  "header_get H n h = (case get_all H n h of [] \<Rightarrow> None | v # _ \<Rightarrow> Some v)"

definition header_str :: "'h header_ops \<Rightarrow> string \<Rightarrow> 'h \<Rightarrow> string option" where
  "header_str H n h = Option.bind (header_get H n h) to_str"

definition contains_key :: "'h header_ops \<Rightarrow> string \<Rightarrow> 'h \<Rightarrow> bool" where
  "contains_key H n h \<longleftrightarrow> get_all H n h \<noteq> []"

text \<open>The operations on URIs that the program calls.\<close>

record 'u uri_ops =
  parse_uri :: "string \<Rightarrow> 'u option"
  has_authority :: "'u \<Rightarrow> bool"
  path_and_query :: "'u \<Rightarrow> string option"
  uri_authority :: "'u \<Rightarrow> string option"
  uri_scheme :: "'u \<Rightarrow> string option"
  uri_host :: "'u \<Rightarrow> string option"
  uri_port :: "'u \<Rightarrow> u16 option"
  origin_form :: "string \<Rightarrow> 'u option"

record ('h, 'u) http_request =
  hr_method :: string
  hr_uri :: 'u
  hr_headers :: 'h

locale header_map =
  fixes H :: "'h header_ops"
  assumes get_insert: "get_all H m (insert_header H n v h) = (if m = n then [v] else get_all H m h)"
    and get_append: "get_all H m (append_header H n v h) = (if m = n then get_all H m h @ [v] else get_all H m h)"
    and get_remove: "get_all H m (remove_header H n h) = (if m = n then [] else get_all H m h)"
begin

lemmas header_laws = get_insert get_append get_remove

lemma header_get_insert: "header_get H n (insert_header H n v h) = Some v"
  by (simp add: header_get_def header_laws)

lemma contains_remove: "contains_key H m (remove_header H n h) \<longleftrightarrow> m \<noteq> n \<and> contains_key H m h"
  by (auto simp: contains_key_def header_laws)

lemma get_fold_remove: "get_all H m (fold (remove_header H) ns h) = (if m \<in> set ns then [] else get_all H m h)"
  by (induction ns arbitrary: h) (auto simp: header_laws)

end

definition list_headers :: "(string \<times> string) list header_ops" where
  "list_headers =
     \<lparr>get_all = (\<lambda>n h. map snd (filter (\<lambda>(m, _). m = n) h)),
      insert_header = (\<lambda>n v h. filter (\<lambda>(m, _). m \<noteq> n) h @ [(n, v)]),
      append_header = (\<lambda>n v h. h @ [(n, v)]),
      remove_header = (\<lambda>n h. filter (\<lambda>(m, _). m \<noteq> n) h),
      header_pairs = (\<lambda>h. h)\<rparr>"

interpretation alist_headers: header_map list_headers
proof
  fix m n v :: string and h :: "(string \<times> string) list"
  have *: "filter (\<lambda>(k, _). k = m) (filter (\<lambda>(k, _). k \<noteq> n) h) = (if m = n then [] else filter (\<lambda>(k, _). k = m) h)"
    by (induction h) auto
  show "get_all list_headers m (insert_header list_headers n v h) = (if m = n then [v] else get_all list_headers m h)"
    using * by (simp add: list_headers_def)
  show "get_all list_headers m (remove_header list_headers n h) = (if m = n then [] else get_all list_headers m h)"
    using * by (simp add: list_headers_def)
  show "get_all list_headers m (append_header list_headers n v h)
      = (if m = n then get_all list_headers m h @ [v] else get_all list_headers m h)"
    by (simp add: list_headers_def)
qed

end
