(* ===== verification/Proxy_Route.thy ===== *)
theory Proxy_Route
  imports Http
begin

text \<open>
  Where a request goes: \<open>proxy/target.rs\<close> and \<open>proxy/pipeline.rs\<close>.
\<close>

section \<open>Targets\<close>

definition target_default_port :: "string \<Rightarrow> u16" where
  "target_default_port scheme = (if scheme = ''https'' then 443 else 80)"

definition target_host_port :: "string \<Rightarrow> u16 \<Rightarrow> string \<times> u16" where
  "target_host_port hostport dflt =
     (case Option.bind (strip_prefix ''['' hostport) (split_once CHR '']'') of
        Some (host, after) \<Rightarrow>
          (''['' @ host @ '']'', unwrap_or (Option.bind (strip_prefix '':'' after) parse_u16) dflt)
      | None \<Rightarrow>
          (case rsplit_once CHR '':'' hostport of
             Some (h, p) \<Rightarrow> if contains_char CHR '':'' h then (hostport, dflt) else (h, unwrap_or (parse_u16 p) dflt)
           | None \<Rightarrow> (hostport, dflt)))"

record http_target =
  tg_scheme :: string
  tg_host :: string
  tg_port :: u16
  tg_path :: string

datatype target_error = BadUrl | UnsupportedScheme string | NoUrlHost

definition parse_target :: "'u uri_ops \<Rightarrow> string \<Rightarrow> target_error + http_target" where
  "parse_target U url =
     (case parse_uri U url of
        None \<Rightarrow> Inl BadUrl
      | Some uri \<Rightarrow>
          (let scheme = unwrap_or (uri_scheme U uri) [] in
           if scheme \<noteq> ''http'' \<and> scheme \<noteq> ''https'' then Inl (UnsupportedScheme scheme)
           else case uri_host U uri of
             None \<Rightarrow> Inl NoUrlHost
           | Some host \<Rightarrow>
               Inr \<lparr>tg_scheme = scheme, tg_host = host, tg_port = unwrap_or (uri_port U uri) (target_default_port scheme),
                    tg_path = unwrap_or (path_and_query U uri) ''/''\<rparr>))"

definition target_url :: "http_target \<Rightarrow> string" where
  "target_url t =
     (if tg_port t = target_default_port (tg_scheme t) then tg_scheme t @ ''://'' @ tg_host t @ tg_path t
      else tg_scheme t @ ''://'' @ tg_host t @ '':'' @ show_nat (unat (tg_port t)) @ tg_path t)"

section \<open>Plans\<close>

record request_plan =
  pl_scheme :: string
  pl_host :: string
  pl_port :: u16
  pl_url :: string
  pl_method :: string

definition target_of :: "'h header_ops \<Rightarrow> 'u uri_ops \<Rightarrow> ('h, 'u) http_request \<Rightarrow> bool \<Rightarrow> http_target option" where
  "target_of H U req secure =
     (let uri = hr_uri req;
          path = unwrap_or (path_and_query U uri) ''/''
      in case (if has_authority U uri then uri_host U uri else None) of
           Some host \<Rightarrow>
             (let scheme = unwrap_or (uri_scheme U uri) ''http'' in
              Some \<lparr>tg_scheme = scheme, tg_host = host, tg_port = unwrap_or (uri_port U uri) (target_default_port scheme),
                    tg_path = path\<rparr>)
         | None \<Rightarrow>
             map_option (\<lambda>host_header.
               let scheme = (if secure then ''https'' else ''http'');
                   (host, port) = target_host_port host_header (target_default_port scheme)
               in \<lparr>tg_scheme = scheme, tg_host = host, tg_port = port, tg_path = path\<rparr>)
               (header_str H ''host'' (hr_headers req)))"

text \<open>\<open>None\<close> is the error of a request without a host.\<close>

definition plan_request :: "'h header_ops \<Rightarrow> 'u uri_ops \<Rightarrow> ('h, 'u) http_request \<Rightarrow> bool \<Rightarrow> request_plan option" where
  "plan_request H U req secure =
     map_option (\<lambda>t. \<lparr>pl_scheme = tg_scheme t, pl_host = tg_host t, pl_port = tg_port t, pl_url = target_url t,
                      pl_method = hr_method req\<rparr>)
       (target_of H U req secure)"

datatype connect_verdict = Deny string | BlindTunnel string | Mitm

record connect_plan =
  cp_host :: string
  cp_url :: string
  cp_verdict :: connect_verdict

definition record_label :: "connect_plan \<Rightarrow> string" where
  "record_label p = (case cp_verdict p of BlindTunnel _ \<Rightarrow> ''tunnel-blind'' | _ \<Rightarrow> ''tunnel-mitm'')"

definition record_tag :: "connect_plan \<Rightarrow> string" where
  "record_tag p = (case cp_verdict p of BlindTunnel excluded_by \<Rightarrow> ''excluded: '' @ excluded_by | _ \<Rightarrow> [])"

definition plan_connect ::
  "string \<Rightarrow> (string \<Rightarrow> string option) \<Rightarrow> (string \<Rightarrow> string option) \<Rightarrow> connect_plan" where
  "plan_connect authority check_host exclusion =
     (let host = hd (split CHR '':'' authority);
          url = ''https://'' @ host @ ''/'';
          verdict = (case check_host host of
                       Some blocked_by \<Rightarrow> Deny blocked_by
                     | None \<Rightarrow> (case exclusion host of Some by \<Rightarrow> BlindTunnel by | None \<Rightarrow> Mitm))
      in \<lparr>cp_host = host, cp_url = url, cp_verdict = verdict\<rparr>)"

section \<open>Lemmas\<close>

lemma colon_not_digit: "CHR '':'' \<notin> set (show_nat n)"
proof -
  have "list_all (is_digit 10) (show_nat n)" by (simp add: digits_show_radix)
  then show ?thesis by (auto simp: list_all_iff)
qed

lemma host_port_name:
  "CHR '':'' \<notin> set h \<Longrightarrow> hd (h @ ''x'') \<noteq> CHR ''['' \<Longrightarrow> target_host_port (h @ '':'' @ show_nat (unat p)) d = (h, p)"
proof -
  assume h: "CHR '':'' \<notin> set h" "hd (h @ ''x'') \<noteq> CHR ''[''"
  have "strip_prefix ''['' (h @ '':'' @ show_nat (unat p)) = None"
    using h(2) by (cases h) simp_all
  moreover have "rsplit_once CHR '':'' (h @ '':'' @ show_nat (unat p)) = Some (h, show_nat (unat p))"
    using colon_not_digit by simp
  ultimately show ?thesis
    using h(1) by (simp add: target_host_port_def contains_char_def parse_u16_show)
qed

lemma host_port_literal:
  "CHR '']'' \<notin> set a \<Longrightarrow>
   target_host_port (''['' @ a @ '']:'' @ show_nat (unat p)) d = (''['' @ a @ '']'', p)"
  by (simp add: target_host_port_def parse_u16_show)

text \<open>a host and a port printed next to each other are read back, for a name and for a bracketed
  IPv6 literal alike.\<close>

theorem host_port_read_back:
  assumes "CHR '':'' \<notin> set h \<and> hd (h @ ''x'') \<noteq> CHR ''['' \<or> (\<exists>a. h = ''['' @ a @ '']'' \<and> CHR '']'' \<notin> set a)"
  shows "target_host_port (h @ '':'' @ show_nat (unat p)) d = (h, p)"
  using assms host_port_name [of h] host_port_literal by auto

theorem host_port_read_back_witness:
  "target_host_port (''[::1]'' @ '':'' @ show_nat (unat (8443 :: u16))) 443 = (''[::1]'', 8443)"
  by (rule host_port_read_back, rule disjI2, rule exI [of _ "''::1''"]) simp

text \<open>for a CONNECT to an IPv6 literal the host that is checked against the rules and the list of
  bypassed domains is not the host that is dialled: it is cut at the first colon of the address.\<close>

theorem connect_literal_cut:
  fixes p :: u16
  assumes "CHR '':'' \<in> set a" "CHR '']'' \<notin> set a"
  shows "fst (target_host_port (''['' @ a @ '']:'' @ show_nat (unat p)) 443) = ''['' @ a @ '']'' \<and>
    cp_host (plan_connect (''['' @ a @ '']:'' @ show_nat (unat p)) chk excl) = ''['' @ takeWhile (\<lambda>c. c \<noteq> CHR '':'') a \<and>
    cp_host (plan_connect (''['' @ a @ '']:'' @ show_nat (unat p)) chk excl) \<noteq> ''['' @ a @ '']''"
proof -
  obtain u v where a: "a = u @ CHR '':'' # v" "CHR '':'' \<notin> set u" using assms(1) by (metis split_list_first)
  have "takeWhile (\<lambda>c. c \<noteq> CHR '':'') a = u" using a by (auto simp: takeWhile_tail)
  moreover have "cp_host (plan_connect (''['' @ a @ '']:'' @ show_nat (unat p)) chk excl)
      = takeWhile (\<lambda>c. c \<noteq> CHR '':'') (''['' @ a @ '']:'' @ show_nat (unat p))"
    unfolding plan_connect_def Let_def by (simp only: connect_plan.select_convs hd_split)
  moreover have "takeWhile (\<lambda>c. c \<noteq> CHR '':'') (''['' @ a @ '']:'' @ show_nat (unat p)) = ''['' @ u"
    using a(2) by (auto simp: a(1) takeWhile_tail)
  ultimately show ?thesis using host_port_literal [OF assms(2)] a by simp
qed

theorem connect_literal_cut_witness:
  "cp_host (plan_connect (''['' @ ''2001:db8::1'' @ '']:'' @ show_nat (unat (443 :: u16))) (\<lambda>_. None) (\<lambda>_. None)) = ''[2001''"
  using connect_literal_cut [of "''2001:db8::1''" 443 "\<lambda>_. None" "\<lambda>_. None"] by simp

end
