(* ===== verification/Proxy_Client.thy ===== *)
theory Proxy_Client
  imports Proxy_Egress Proxy_Route
begin

text \<open>
  The upstream client of the proxy, \<open>proxy/http_client.rs\<close>: the pool of idle connections, dialling and
  sending. Sockets, TLS and the HTTP exchange are the record \<open>net_ops\<close>; \<open>live\<close> says what the n-th reading
  of a connection's state gives. The client state carries, besides the pool, what was dialled and what
  was transmitted.
\<close>

section \<open>The pool\<close>

type_synonym pool_key = "string \<times> u16 \<times> bool"

record 'c pooled =
  pd_conn :: 'c
  pd_ech :: bool

type_synonym 'c pool = "pool_key \<Rightarrow> 'c pooled list option"

definition MAX_IDLE_PER_HOST :: nat where "MAX_IDLE_PER_HOST = 8"

definition usable :: "(nat \<Rightarrow> 'c \<Rightarrow> bool) \<Rightarrow> nat \<Rightarrow> bool \<Rightarrow> 'c pooled \<Rightarrow> bool" where
  "usable live n require_ech p \<longleftrightarrow> live n (pd_conn p) \<and> (\<not> require_ech \<or> pd_ech p)"

lemma length_remove_rposition:
  assumes "rposition P v \<noteq> None"
  shows "length (remove_at (the (rposition P v)) v) < length v"
proof -
  obtain i where "rposition P v = Some i" using assms by blast
  then show ?thesis using rposition_Some [of P v i] by (cases v) (simp_all add: remove_at_def)
qed

text \<open>The result is the connection, if any, what is left, and the number of readings so far.\<close>

function take_live :: "(nat \<Rightarrow> 'c \<Rightarrow> bool) \<Rightarrow> nat \<Rightarrow> bool \<Rightarrow> 'c pooled list \<Rightarrow> 'c pooled option \<times> 'c pooled list \<times> nat" where
  "take_live live n require_ech v =
     (if rposition (usable live n require_ech) v = None then (None, v, Suc n)
      else let i = the (rposition (usable live n require_ech) v); p = v ! i; v' = remove_at i v in
        if live (Suc n) (pd_conn p) then (Some p, v', Suc (Suc n)) else take_live live (Suc (Suc n)) require_ech v')"
  by pat_completeness auto

termination
  by (relation "measure (\<lambda>(live, n, r, v). length v)") (auto simp del: rposition_None intro: length_remove_rposition)

declare take_live.simps [simp del]

definition checkout :: "(nat \<Rightarrow> 'c \<Rightarrow> bool) \<Rightarrow> pool_key \<Rightarrow> bool \<Rightarrow> 'c pool \<Rightarrow> 'c pooled option \<times> 'c pool" where
  "checkout live key want_ech pool =
     (case pool key of
        None \<Rightarrow> (None, pool)
      | Some v \<Rightarrow>
          (case (if want_ech then take_live live 0 True v else (None, v, 0)) of
             (Some p, v', _) \<Rightarrow> (Some p, pool(key \<mapsto> v'))
           | (None, v', n) \<Rightarrow> (case take_live live n False v' of (r, v'', _) \<Rightarrow> (r, pool(key \<mapsto> v'')))))"

definition park :: "pool_key \<Rightarrow> 'c pooled \<Rightarrow> 'c pool \<Rightarrow> 'c pool" where
  "park key e pool =
     (let v = unwrap_or (pool key) [] in pool(key \<mapsto> (if length v < MAX_IDLE_PER_HOST then v @ [e] else v)))"

section \<open>Dialling\<close>

datatype dial_to = ToAddr socket_addr | ToName string u16

text \<open>The number of a connection attempt is an argument, since attempts may differ.\<close>

record ('t, 'c) net_ops =
  nt_connect :: "nat \<Rightarrow> dial_to \<Rightarrow> string + 't"
  nt_nodelay :: "'t \<Rightarrow> string + unit"
  nt_ech :: "bytes \<Rightarrow> string \<Rightarrow> 't \<Rightarrow> string + ('t \<times> bool)"
  nt_tls :: "string \<Rightarrow> 't \<Rightarrow> string + 't"
  nt_handshake :: "'t \<Rightarrow> string + 'c"

record ('c, 'a, 'b, 'd, 'q) client =
  cl_pool :: "'c pool"
  cl_egress :: "('a, 'b) egress option"
  cl_dns :: 'd
  cl_dialled :: "dial_to list"
  cl_sent :: "('c \<times> 'q) list"
  cl_pending :: "(pool_key \<times> 'c pooled) list"

record ('t, 'c, 'a, 'b, 'd, 'f) client_env =
  ce_net :: "('t, 'c) net_ops"
  ce_dns :: "('d, 'f) dns_ops"
  ce_show :: "'f \<Rightarrow> string"
  ce_addrs :: "'a addr_lru"
  ce_echs :: "'b ech_lru"
  ce_now :: instant
  ce_later :: instant

definition egress_addrs ::
  "('t, 'c, 'a, 'b, 'd, 'f) client_env \<Rightarrow> string \<Rightarrow> u16 \<Rightarrow> ('c, 'a, 'b, 'd, 'q) client \<Rightarrow>
   (string + socket_addr list option) \<times> ('c, 'a, 'b, 'd, 'q) client" where
  "egress_addrs N host port cl =
     (case cl_egress cl of
        None \<Rightarrow> (Inr None, cl)
      | Some eg \<Rightarrow>
          if \<not> es_resolver_only (eg_settings eg) \<or> parse_ip host \<noteq> None then (Inr None, cl)
          else (case egress_resolve (ce_dns N) (ce_addrs N) (ce_now N) (ce_later N) host eg (cl_dns cl) of
                  (r, eg', dns') \<Rightarrow>
                    (case r of Inl e \<Rightarrow> Inl (ce_show N e) | Inr ips \<Rightarrow> Inr (Some (map (\<lambda>ip. sock_of ip port) ips)),
                     cl\<lparr>cl_egress := Some eg', cl_dns := dns'\<rparr>)))"

text \<open>The addresses are tried in order; the last error is reported.\<close>

fun connect_first :: "('t, 'c) net_ops \<Rightarrow> nat \<Rightarrow> string \<Rightarrow> socket_addr list \<Rightarrow> (string + 't) \<times> dial_to list" where
  "connect_first net n err [] = (Inl err, [])"
| "connect_first net n err (a # as) =
     (case nt_connect net n (ToAddr a) of
        Inr t \<Rightarrow> (Inr t, [ToAddr a])
      | Inl e \<Rightarrow> (case connect_first net n e as of (r, tried) \<Rightarrow> (r, ToAddr a # tried)))"

definition no_addresses :: "string \<Rightarrow> u16 \<Rightarrow> string" where
  "no_addresses host port = ''no addresses resolved for '' @ host @ '':'' @ show_nat (unat port)"

definition connect_tcp ::
  "('t, 'c, 'a, 'b, 'd, 'f) client_env \<Rightarrow> nat \<Rightarrow> string \<Rightarrow> u16 \<Rightarrow> ('c, 'a, 'b, 'd, 'q) client \<Rightarrow>
   (string + 't) \<times> ('c, 'a, 'b, 'd, 'q) client" where
  "connect_tcp N n host port cl =
     (case egress_addrs N host port cl of
        (Inl e, cl1) \<Rightarrow> (Inl e, cl1)
      | (Inr addrs, cl1) \<Rightarrow>
          (case (case addrs of
                   Some as \<Rightarrow> connect_first (ce_net N) n (no_addresses host port) as
                 | None \<Rightarrow> (nt_connect (ce_net N) n (ToName host port), [ToName host port])) of
             (r, tried) \<Rightarrow>
               (and_then r (\<lambda>t. and_then (nt_nodelay (ce_net N) t) (\<lambda>_. Inr t)), cl1\<lparr>cl_dialled := cl_dialled cl1 @ tried\<rparr>)))"

definition client_ech ::
  "('t, 'c, 'a, 'b, 'd, 'f) client_env \<Rightarrow> string \<Rightarrow> ('c, 'a, 'b, 'd, 'q) client \<Rightarrow> bytes option \<times> ('c, 'a, 'b, 'd, 'q) client" where
  "client_ech N host cl =
     (case cl_egress cl of
        None \<Rightarrow> (None, cl)
      | Some eg \<Rightarrow>
          (case egress_ech (ce_dns N) (ce_echs N) (ce_now N) (ce_later N) host eg (cl_dns cl) of
             (l, eg', dns') \<Rightarrow> (l, cl\<lparr>cl_egress := Some eg', cl_dns := dns'\<rparr>)))"

definition plain_tls ::
  "('t, 'c, 'a, 'b, 'd, 'f) client_env \<Rightarrow> string \<Rightarrow> 't \<Rightarrow> string + ('c \<times> bool)" where
  "plain_tls N host t =
     and_then (nt_tls (ce_net N) host t) (\<lambda>s. and_then (nt_handshake (ce_net N) s) (\<lambda>c. Inr (c, False)))"

definition dial ::
  "('t, 'c, 'a, 'b, 'd, 'f) client_env \<Rightarrow> string \<Rightarrow> u16 \<Rightarrow> bool \<Rightarrow> ('c, 'a, 'b, 'd, 'q) client \<Rightarrow>
   (string + ('c \<times> bool)) \<times> ('c, 'a, 'b, 'd, 'q) client" where
  "dial N host port tls cl =
     (case connect_tcp N 0 host port cl of
        (Inl e, cl1) \<Rightarrow> (Inl e, cl1)
      | (Inr t, cl1) \<Rightarrow>
          if \<not> tls then (and_then (nt_handshake (ce_net N) t) (\<lambda>c. Inr (c, False)), cl1)
          else (case client_ech N host cl1 of
             (None, cl2) \<Rightarrow> (plain_tls N host t, cl2)
           | (Some l, cl2) \<Rightarrow>
               (case nt_ech (ce_net N) l host t of
                  Inr (s, used) \<Rightarrow> (and_then (nt_handshake (ce_net N) s) (\<lambda>c. Inr (c, used)), cl2)
                | Inl _ \<Rightarrow>
                    (case connect_tcp N 1 host port cl2 of
                       (Inl e, cl3) \<Rightarrow> (Inl e, cl3)
                     | (Inr t', cl3) \<Rightarrow> (plain_tls N host t', cl3)))))"

section \<open>Sending\<close>

text \<open>What trying to send on an idle connection gives: a response, the request handed back unsent, a
  connection that closed before the response, or another error.\<close>

datatype 'r try_send = TrySent 'r | TryReturned | TryIncomplete string | TryFailed string

record ('c, 'q, 'r) wire_send =
  ws_try :: "'c \<Rightarrow> 'q \<Rightarrow> 'r try_send"
  ws_send :: "'c \<Rightarrow> 'q \<Rightarrow> string + 'r"

fun replay_or_surface :: "'r try_send \<Rightarrow> string + unit" where
  "replay_or_surface (TryFailed e) = Inl e"
| "replay_or_surface _ = Inr ()"

definition to_origin_form :: "'u uri_ops \<Rightarrow> ('h, 'u) http_request \<Rightarrow> ('h, 'u) http_request" where
  "to_origin_form U req =
     (case Option.bind (path_and_query U (hr_uri req)) (origin_form U) of
        Some uri \<Rightarrow> req\<lparr>hr_uri := uri\<rparr>
      | None \<Rightarrow> req)"

definition send_fresh ::
  "('t, 'c, 'a, 'b, 'd, 'f) client_env \<Rightarrow> ('c, 'q, 'r) wire_send \<Rightarrow> 'q \<Rightarrow> string \<Rightarrow> u16 \<Rightarrow> bool \<Rightarrow> ('c, 'a, 'b, 'd, 'q) client \<Rightarrow>
   (string + ('r \<times> bool)) \<times> ('c, 'a, 'b, 'd, 'q) client" where
  "send_fresh N W req host port tls cl =
     (case dial N host port tls cl of
        (Inl e, cl1) \<Rightarrow> (Inl e, cl1)
      | (Inr (c, ech), cl1) \<Rightarrow>
          (let cl2 = cl1\<lparr>cl_sent := cl_sent cl1 @ [(c, req)]\<rparr> in
           case ws_send W c req of
             Inl e \<Rightarrow> (Inl e, cl2)
           | Inr r \<Rightarrow> (Inr (r, ech), cl2\<lparr>cl_pending := cl_pending cl2 @ [((host, port, tls), \<lparr>pd_conn = c, pd_ech = ech\<rparr>)]\<rparr>)))"

text \<open>\<open>req\<close> is the request in origin form.\<close>

definition client_send ::
  "('t, 'c, 'a, 'b, 'd, 'f) client_env \<Rightarrow> ('c, 'q, 'r) wire_send \<Rightarrow> (nat \<Rightarrow> 'c \<Rightarrow> bool) \<Rightarrow> 'q \<Rightarrow> string \<Rightarrow> u16 \<Rightarrow> bool \<Rightarrow>
   ('c, 'a, 'b, 'd, 'q) client \<Rightarrow> (string + ('r \<times> bool)) \<times> ('c, 'a, 'b, 'd, 'q) client" where
  "client_send N W live req host port tls cl =
     (let key = (host, port, tls);
          (want_ech, cl1) = (if tls then (case client_ech N host cl of (l, cl1) \<Rightarrow> (l \<noteq> None, cl1)) else (False, cl))
      in case checkout live key want_ech (cl_pool cl1) of
           (None, pool) \<Rightarrow> send_fresh N W req host port tls (cl1\<lparr>cl_pool := pool\<rparr>)
         | (Some p, pool) \<Rightarrow>
             (let cl2 = cl1\<lparr>cl_pool := pool, cl_sent := cl_sent cl1 @ [(pd_conn p, req)]\<rparr> in
              case ws_try W (pd_conn p) req of
                TrySent r \<Rightarrow> (Inr (r, pd_ech p), cl2\<lparr>cl_pending := cl_pending cl2 @ [(key, p)]\<rparr>)
              | t \<Rightarrow>
                  (case replay_or_surface t of
                     Inl e \<Rightarrow> (Inl e, cl2)
                   | Inr _ \<Rightarrow> send_fresh N W req host port tls cl2)))"

text \<open>A connection waiting for its response to end is parked once it is ready and still open.\<close>

definition park_when_ready :: "nat \<Rightarrow> bool \<Rightarrow> ('c, 'a, 'b, 'd, 'q) client \<Rightarrow> ('c, 'a, 'b, 'd, 'q) client" where
  "park_when_ready i ready cl =
     (if i < length (cl_pending cl) then
        (case cl_pending cl ! i of (key, p) \<Rightarrow>
           cl\<lparr>cl_pending := remove_at i (cl_pending cl), cl_pool := (if ready then park key p (cl_pool cl) else cl_pool cl)\<rparr>)
      else cl)"

section \<open>What the steps leave alone\<close>

text \<open>Two client states that differ only in what resolving and dialling change; the egress settings are
  not among it.\<close>

definition settings_of :: "('c, 'a, 'b, 'd, 'q) client \<Rightarrow> egress_settings option" where
  "settings_of cl = map_option eg_settings (cl_egress cl)"

definition same_conns :: "('c, 'a, 'b, 'd, 'q) client \<Rightarrow> ('c, 'a, 'b, 'd, 'q) client \<Rightarrow> bool" where
  "same_conns cl cl' \<longleftrightarrow>
     cl_pool cl' = cl_pool cl \<and> cl_sent cl' = cl_sent cl \<and> cl_pending cl' = cl_pending cl \<and> settings_of cl' = settings_of cl"

lemma same_conns_refl [simp]: "same_conns cl cl"
  by (simp add: same_conns_def)

lemma same_conns_trans [trans]: "same_conns a b \<Longrightarrow> same_conns b c \<Longrightarrow> same_conns a c"
  by (simp add: same_conns_def)

lemma egress_resolve_settings:
  "egress_resolve N L now later host eg dns = (r, eg', dns') \<Longrightarrow> eg_settings eg' = eg_settings eg"
  by (auto simp: egress_resolve_def split: prod.splits option.splits sum.splits)

lemma egress_ech_settings: "egress_ech N K now later host eg dns = (r, eg', dns') \<Longrightarrow> eg_settings eg' = eg_settings eg"
  by (auto simp: egress_ech_def split: prod.splits option.splits)

lemma egress_addrs_frame:
  assumes "egress_addrs N host port cl = (r, cl')"
  shows "same_conns cl cl'" "cl_dialled cl' = cl_dialled cl"
  using assms egress_resolve_settings
  by (auto simp: egress_addrs_def same_conns_def settings_of_def split: option.splits if_splits prod.splits)

lemma client_ech_frame:
  assumes "client_ech N host cl = (r, cl')"
  shows "same_conns cl cl'" "cl_dialled cl' = cl_dialled cl"
  using assms egress_ech_settings
  by (auto simp: client_ech_def same_conns_def settings_of_def split: option.splits prod.splits)

lemma connect_first_addrs: "x \<in> set (snd (connect_first net n err as)) \<Longrightarrow> \<exists>a \<in> set as. x = ToAddr a"
  by (induction net n err as rule: connect_first.induct) (auto split: sum.splits prod.splits)

text \<open>The targets of a dial: with the resolver of the proxy in force and a host that is not an address,
  only addresses that it resolved.\<close>

definition own_resolver :: "string \<Rightarrow> ('c, 'a, 'b, 'd, 'q) client \<Rightarrow> bool" where
  "own_resolver host cl \<longleftrightarrow> (\<exists>s. settings_of cl = Some s \<and> es_resolver_only s) \<and> parse_ip host = None"

lemma connect_tcp_frame:
  assumes "connect_tcp N n host port cl = (r, cl')"
  shows "same_conns cl cl'"
    and "\<exists>ts. cl_dialled cl' = cl_dialled cl @ ts \<and> (own_resolver host cl \<longrightarrow> (\<forall>x \<in> set ts. \<exists>a. x = ToAddr a))"
proof -
  obtain q cl1 where e: "egress_addrs N host port cl = (q, cl1)" by (cases "egress_addrs N host port cl")
  note frame = egress_addrs_frame [OF e]
  show "same_conns cl cl'"
    using assms e frame by (auto simp: connect_tcp_def same_conns_def settings_of_def split: sum.splits prod.splits option.splits)
  show "\<exists>ts. cl_dialled cl' = cl_dialled cl @ ts \<and> (own_resolver host cl \<longrightarrow> (\<forall>x \<in> set ts. \<exists>a. x = ToAddr a))"
  proof (cases q)
    case (Inl err)
    then show ?thesis using assms e frame by (auto simp: connect_tcp_def)
  next
    case (Inr addrs)
    show ?thesis
    proof (cases addrs)
      case None
      then have "\<not> own_resolver host cl"
        using e Inr by (auto simp: egress_addrs_def own_resolver_def settings_of_def split: option.splits if_splits prod.splits sum.splits)
      then show ?thesis using assms e Inr None frame by (auto simp: connect_tcp_def)
    next
      case (Some as)
      let ?cf = "connect_first (ce_net N) n (no_addresses host port) as"
      have "cl_dialled cl' = cl_dialled cl @ snd ?cf"
        using assms e Inr Some frame by (auto simp: connect_tcp_def split: prod.splits)
      then show ?thesis using connect_first_addrs [of _ "ce_net N" n "no_addresses host port" as] by blast
    qed
  qed
qed

lemma same_conns_own: "same_conns cl cl' \<Longrightarrow> own_resolver host cl' \<longleftrightarrow> own_resolver host cl"
  by (simp add: same_conns_def own_resolver_def)

lemma dial_frame:
  assumes "dial N host port tls cl = (r, cl')"
  shows "same_conns cl cl'"
    and "\<exists>ts. cl_dialled cl' = cl_dialled cl @ ts \<and> (own_resolver host cl \<longrightarrow> (\<forall>x \<in> set ts. \<exists>a. x = ToAddr a))"
proof -
  obtain q cl1 where c1: "connect_tcp N 0 host port cl = (q, cl1)" by (cases "connect_tcp N 0 host port cl")
  obtain l cl2 where c2: "client_ech N host cl1 = (l, cl2)" by (cases "client_ech N host cl1")
  obtain q' cl3 where c3: "connect_tcp N 1 host port cl2 = (q', cl3)" by (cases "connect_tcp N 1 host port cl2")
  have cases: "cl' = cl1 \<or> cl' = cl2 \<or> cl' = cl3"
    using assms c1 c2 c3 by (auto simp: dial_def split: sum.splits if_splits option.splits prod.splits)
  note f1 = connect_tcp_frame [OF c1] and f2 = client_ech_frame [OF c2] and f3 = connect_tcp_frame [OF c3]
  have s2: "same_conns cl cl2" and s3: "same_conns cl cl3"
    using f1(1) f2(1) f3(1) same_conns_trans by blast+
  then show "same_conns cl cl'" using cases f1(1) by blast
  obtain t1 where t1: "cl_dialled cl1 = cl_dialled cl @ t1" "own_resolver host cl \<longrightarrow> (\<forall>x \<in> set t1. \<exists>a. x = ToAddr a)"
    using f1(2) by blast
  obtain t3 where t3: "cl_dialled cl3 = cl_dialled cl2 @ t3" "own_resolver host cl \<longrightarrow> (\<forall>x \<in> set t3. \<exists>a. x = ToAddr a)"
    using f3(2) same_conns_own [OF s2] by blast
  show "\<exists>ts. cl_dialled cl' = cl_dialled cl @ ts \<and> (own_resolver host cl \<longrightarrow> (\<forall>x \<in> set ts. \<exists>a. x = ToAddr a))"
    using cases t1 t3 f2(2) by (elim disjE) (force intro: exI [of _ t1] exI [of _ "t1 @ t3"])+
qed

section \<open>The pool's invariant\<close>

lemma set_remove_at: "set (remove_at i v) \<subseteq> set v"
  by (auto simp: remove_at_def dest: in_set_takeD in_set_dropD)

lemma take_live_sub:
  "take_live live n r v = (res, v', m) \<Longrightarrow> length v' \<le> length v \<and> set v' \<subseteq> set v"
proof (induction live n r v rule: take_live.induct)
  case (1 live n r v)
  let ?P = "usable live n r"
  show ?case
  proof (cases "rposition ?P v = None")
    case True
    then show ?thesis using 1(2) by (subst (asm) take_live.simps) (simp del: rposition_None)
  next
    case False
    let ?i = "the (rposition ?P v)"
    note less = length_remove_rposition [OF False] and sub = set_remove_at [of ?i v]
    show ?thesis
    proof (cases "live (Suc n) (pd_conn (v ! ?i))")
      case True
      then show ?thesis using 1(2) False less sub
        by (subst (asm) take_live.simps) (simp add: Let_def del: rposition_None)
    next
      case dead: False
      then have "take_live live (Suc (Suc n)) r (remove_at ?i v) = (res, v', m)"
        using 1(2) False by (subst (asm) take_live.simps) (simp add: Let_def del: rposition_None)
      then show ?thesis using 1(1) [OF False refl refl refl dead] less sub by fastforce
    qed
  qed
qed

text \<open>Closed connections are walked past but never removed.\<close>

lemma take_live_dead: "\<forall>p \<in> set v. \<not> live n (pd_conn p) \<Longrightarrow> take_live live n r v = (None, v, Suc n)"
  by (subst take_live.simps) (simp add: usable_def)

lemma checkout_cases:
  assumes "checkout live key want pool = (res, pool')"
  shows "pool' = pool \<or> (\<exists>v v'. pool key = Some v \<and> pool' = pool(key \<mapsto> v') \<and> length v' \<le> length v)"
proof (cases "pool key")
  case None
  then show ?thesis using assms by (simp add: checkout_def)
next
  case (Some v)
  obtain r1 v1 n1 where t1: "(if want then take_live live 0 True v else (None, v, 0)) = (r1, v1, n1)"
    by (cases "if want then take_live live 0 True v else (None, v, 0)") auto
  obtain r2 v2 n2 where t2: "take_live live n1 False v1 = (r2, v2, n2)" by (cases "take_live live n1 False v1") auto
  have "length v1 \<le> length v" using t1 take_live_sub [of live 0 True v] by (auto split: if_splits)
  moreover have "length v2 \<le> length v1" using take_live_sub [OF t2] by simp
  moreover have "pool' = pool(key \<mapsto> v1) \<or> pool' = pool(key \<mapsto> v2)"
    using assms Some t1 t2 by (auto simp: checkout_def split: option.splits)
  ultimately show ?thesis using Some by fastforce
qed

definition pool_ok :: "'c pool \<Rightarrow> bool" where
  "pool_ok pool \<longleftrightarrow> (\<forall>key v. pool key = Some v \<longrightarrow> length v \<le> MAX_IDLE_PER_HOST)"

lemma pool_ok_checkout: "checkout live key want pool = (res, pool') \<Longrightarrow> pool_ok pool \<Longrightarrow> pool_ok pool'"
  by (drule checkout_cases) (fastforce simp: pool_ok_def split: if_splits)

lemma pool_okD: "pool_ok pool \<Longrightarrow> pool key = Some v \<Longrightarrow> length v \<le> MAX_IDLE_PER_HOST"
  unfolding pool_ok_def by blast

lemma pool_ok_park: "pool_ok pool \<Longrightarrow> pool_ok (park key e pool)"
proof -
  assume ok: "pool_ok pool"
  then have "length (unwrap_or (pool key) []) \<le> MAX_IDLE_PER_HOST" by (cases "pool key") (simp_all add: pool_okD)
  then show ?thesis using ok unfolding pool_ok_def park_def Let_def by simp
qed

section \<open>Sending\<close>

lemma send_fresh_frame:
  assumes "send_fresh N W req host port tls cl = (r, cl')"
  shows "cl_pool cl' = cl_pool cl" "settings_of cl' = settings_of cl"
    and "\<exists>ts. cl_dialled cl' = cl_dialled cl @ ts \<and> (own_resolver host cl \<longrightarrow> (\<forall>x \<in> set ts. \<exists>a. x = ToAddr a))"
    and "cl_sent cl' = cl_sent cl \<or> (\<exists>c. cl_sent cl' = cl_sent cl @ [(c, req)])"
proof -
  obtain q cl1 where d: "dial N host port tls cl = (q, cl1)" by (cases "dial N host port tls cl")
  note f = dial_frame [OF d]
  show "cl_pool cl' = cl_pool cl" "settings_of cl' = settings_of cl"
    "cl_sent cl' = cl_sent cl \<or> (\<exists>c. cl_sent cl' = cl_sent cl @ [(c, req)])"
    using assms d f(1)
    by (auto simp: send_fresh_def same_conns_def settings_of_def Let_def split: sum.splits prod.splits)
  have "cl_dialled cl' = cl_dialled cl1"
    using assms d by (auto simp: send_fresh_def Let_def split: sum.splits prod.splits)
  then show "\<exists>ts. cl_dialled cl' = cl_dialled cl @ ts \<and> (own_resolver host cl \<longrightarrow> (\<forall>x \<in> set ts. \<exists>a. x = ToAddr a))"
    using f(2) by simp
qed

text \<open>A send either goes out on a fresh connection alone, or first on an idle one.\<close>

lemma client_send_cases:
  assumes "client_send N W live req host port tls cl = (res, cl')"
  obtains cl1 want pool p where
    "same_conns cl cl1" "cl_dialled cl1 = cl_dialled cl"
    "checkout live (host, port, tls) want (cl_pool cl1) = (p, pool)"
    "case p of
       None \<Rightarrow> send_fresh N W req host port tls (cl1\<lparr>cl_pool := pool\<rparr>) = (res, cl')
     | Some x \<Rightarrow>
         (\<exists>r. ws_try W (pd_conn x) req = TrySent r \<and> cl_sent cl' = cl_sent cl @ [(pd_conn x, req)] \<and> cl_pool cl' = pool \<and>
            cl_dialled cl' = cl_dialled cl) \<or>
         (\<exists>e. ws_try W (pd_conn x) req = TryFailed e \<and> res = Inl e \<and> cl_sent cl' = cl_sent cl @ [(pd_conn x, req)] \<and>
            cl_pool cl' = pool \<and> cl_dialled cl' = cl_dialled cl) \<or>
         ((ws_try W (pd_conn x) req = TryReturned \<or> (\<exists>e. ws_try W (pd_conn x) req = TryIncomplete e)) \<and>
            send_fresh N W req host port tls (cl1\<lparr>cl_pool := pool, cl_sent := cl_sent cl @ [(pd_conn x, req)]\<rparr>) = (res, cl'))"
proof -
  obtain want cl1 where w: "(if tls then (case client_ech N host cl of (l, cl1) \<Rightarrow> (l \<noteq> None, cl1)) else (False, cl)) = (want, cl1)"
    by (cases "if tls then (case client_ech N host cl of (l, cl1) \<Rightarrow> (l \<noteq> None, cl1)) else (False, cl)")
  have f: "same_conns cl cl1" "cl_dialled cl1 = cl_dialled cl"
    using w client_ech_frame by (auto split: if_splits prod.splits)
  then have sent: "cl_sent cl1 = cl_sent cl" by (simp add: same_conns_def)
  obtain p pool where c: "checkout live (host, port, tls) want (cl_pool cl1) = (p, pool)"
    by (cases "checkout live (host, port, tls) want (cl_pool cl1)")
  show thesis
    using that [OF f c] assms unfolding client_send_def Let_def w
    by (cases p) (auto simp: c sent f(2) split: try_send.splits)
qed

section \<open>Properties\<close>

text \<open>A network where every connection succeeds; the number of a connection is the one dialled, a
  response names the connection. Connections with an odd number close under the request.\<close>

definition sample_client_net :: "(nat, nat) net_ops" where
  "sample_client_net = \<lparr>nt_connect = (\<lambda>n to. Inr (case to of ToAddr a \<Rightarrow> 20 + n | ToName h p \<Rightarrow> 40 + n)), nt_nodelay = (\<lambda>_. Inr ()),
     nt_ech = (\<lambda>_ _ _. Inl ''no''), nt_tls = (\<lambda>_ t. Inr t), nt_handshake = Inr\<rparr>"

type_synonym 'v ttl_entries = "nat \<times> (string \<times> 'v \<times> instant) list"

definition sample_client_env ::
  "(nat, nat, ip_addr list ttl_entries, bytes option ttl_entries, unit, string) client_env" where
  "sample_client_env = \<lparr>ce_net = sample_client_net,
     ce_dns = \<lparr>dn_resolve = (\<lambda>_ _ s. (Inr [V4 (Ipv4 5 6 7 8)], s)), dn_ech = (\<lambda>_ s. (None, s))\<rparr>,
     ce_show = (\<lambda>e. e), ce_addrs = list_lru, ce_echs = list_lru, ce_now = 0, ce_later = 0\<rparr>"

definition sample_client_wire :: "(nat, string, nat) wire_send" where
  "sample_client_wire = \<lparr>ws_try = (\<lambda>c _. if odd c then TryIncomplete ''closed'' else TrySent c), ws_send = (\<lambda>c _. Inr c)\<rparr>"

definition sample_client ::
  "nat pooled list \<Rightarrow> (nat, ip_addr list ttl_entries, bytes option ttl_entries, unit, string) client" where
  "sample_client v = \<lparr>cl_pool = (if v = [] then Map.empty else [(''h.test'', 80, False) \<mapsto> v]),
     cl_egress = Some \<lparr>eg_settings = \<lparr>es_resolver_only = True, es_disable_ipv6 = True\<rparr>, eg_path = no_path,
       eg_addrs = (4, []), eg_echs = (4, [])\<rparr>, cl_dns = (), cl_dialled = [], cl_sent = [], cl_pending = []\<rparr>"

text \<open>Any number of requests sent and connections parked again; \<open>N\<close> and \<open>W\<close> give the surroundings at each
  moment, and the connections in \<open>dead\<close> are closed for good.\<close>

inductive client_steps ::
  "(nat \<Rightarrow> ('t, 'c, 'a, 'b, 'd, 'f) client_env) \<Rightarrow> (nat \<Rightarrow> ('c, 'q, 'r) wire_send) \<Rightarrow> 'c set \<Rightarrow>
   ('c, 'a, 'b, 'd, 'q) client \<Rightarrow> ('c, 'a, 'b, 'd, 'q) client \<Rightarrow> bool" for N W dead cl where
  start: "client_steps N W dead cl cl"
| sending: "client_steps N W dead cl cl1 \<Longrightarrow> \<forall>n. \<forall>c \<in> dead. \<not> live n c \<Longrightarrow>
    client_send (N k) (W k) live req host port tls cl1 = (res, cl2) \<Longrightarrow> client_steps N W dead cl cl2"
| parking: "client_steps N W dead cl cl1 \<Longrightarrow> client_steps N W dead cl (park_when_ready i ready cl1)"

lemma client_send_pool:
  assumes "client_send N W live req host port tls cl = (res, cl')"
  shows "\<exists>want p. checkout live (host, port, tls) want (cl_pool cl) = (p, cl_pool cl')"
  using assms
proof (rule client_send_cases)
  fix cl1 want pool p
  assume "same_conns cl cl1" and c: "checkout live (host, port, tls) want (cl_pool cl1) = (p, pool)"
    and r: "case p of
       None \<Rightarrow> send_fresh N W req host port tls (cl1\<lparr>cl_pool := pool\<rparr>) = (res, cl')
     | Some x \<Rightarrow>
         (\<exists>r. ws_try W (pd_conn x) req = TrySent r \<and> cl_sent cl' = cl_sent cl @ [(pd_conn x, req)] \<and> cl_pool cl' = pool \<and>
            cl_dialled cl' = cl_dialled cl) \<or>
         (\<exists>e. ws_try W (pd_conn x) req = TryFailed e \<and> res = Inl e \<and> cl_sent cl' = cl_sent cl @ [(pd_conn x, req)] \<and>
            cl_pool cl' = pool \<and> cl_dialled cl' = cl_dialled cl) \<or>
         ((ws_try W (pd_conn x) req = TryReturned \<or> (\<exists>e. ws_try W (pd_conn x) req = TryIncomplete e)) \<and>
            send_fresh N W req host port tls (cl1\<lparr>cl_pool := pool, cl_sent := cl_sent cl @ [(pd_conn x, req)]\<rparr>) = (res, cl'))"
  then have "cl_pool cl1 = cl_pool cl" by (simp add: same_conns_def)
  moreover have "cl_pool cl' = pool"
    using r by (auto split: option.splits dest: send_fresh_frame(1))
  ultimately show ?thesis using c by metis
qed

lemma pool_ok_steps: "client_steps N W dead cl cl' \<Longrightarrow> pool_ok (cl_pool cl) \<Longrightarrow> pool_ok (cl_pool cl')"
proof (induction rule: client_steps.induct)
  case (sending cl1 live k req host port tls res cl2)
  then show ?case using client_send_pool [OF sending.hyps(3)] pool_ok_checkout by blast
next
  case (parking cl1 i ready)
  then show ?case by (auto simp: park_when_ready_def pool_ok_park split: prod.split)
qed simp

text \<open>the pool never keeps more than eight idle connections to a host, whatever is sent.\<close>

theorem pool_bounded:
  assumes "client_steps N W dead cl cl'" "cl_pool cl = Map.empty" "cl_pool cl' key = Some v"
  shows "length v \<le> 8"
  using pool_okD [OF pool_ok_steps [OF assms(1)] assms(3)] assms(2) by (simp add: pool_ok_def MAX_IDLE_PER_HOST_def)

lemma checkout_dead:
  assumes "pool key = Some v" "\<forall>n. \<forall>p \<in> set v. \<not> live n (pd_conn p)"
  shows "checkout live key want pool = (None, pool)"
proof -
  have d: "take_live live n r v = (None, v, Suc n)" for n r using assms(2) by (intro take_live_dead) blast
  show ?thesis using assms(1) by (cases want) (simp_all add: checkout_def d fun_upd_idem)
qed

lemma checkout_other: "checkout live key' want pool = (res, pool') \<Longrightarrow> key \<noteq> key' \<Longrightarrow> pool' key = pool key"
  by (drule checkout_cases) auto

theorem pool_bounded_witness:
  "length (the (cl_pool (park_when_ready 0 True
     (snd (client_send sample_client_env sample_client_wire (\<lambda>_ _. True) ''q'' ''h.test'' 80 False (sample_client [])))) (''h.test'', 80, False))) \<le> 8"
proof -
  let ?s = "client_send sample_client_env sample_client_wire (\<lambda>_ _. True) ''q'' ''h.test'' 80 False (sample_client [])"
  let ?cl = "park_when_ready 0 True (snd ?s)"
  have "client_steps (\<lambda>_. sample_client_env) (\<lambda>_. sample_client_wire) {} (sample_client []) (snd ?s)"
    by (rule client_steps.sending [OF client_steps.start _ prod.collapse [symmetric]]) auto
  then have "client_steps (\<lambda>_. sample_client_env) (\<lambda>_. sample_client_wire) {} (sample_client []) ?cl"
    by (rule client_steps.parking)
  moreover have "cl_pool (sample_client []) = Map.empty" by (simp add: sample_client_def)
  moreover have "cl_pool ?cl (''h.test'', 80, False) = Some (the (cl_pool ?cl (''h.test'', 80, False)))" by code_simp
  ultimately show ?thesis by (rule pool_bounded)
qed

text \<open>C36: once eight closed connections to a host have gathered in the pool they stay there for ever: they
  are never handed out and never dropped, and leave no room, so that no connection to that host is
  ever reused again.\<close>

theorem dead_pool_stuck:
  assumes "client_steps N W (pd_conn ` set v) cl cl'" "cl_pool cl key = Some v" "length v = MAX_IDLE_PER_HOST"
  shows "cl_pool cl' key = Some v \<and> (\<forall>live want. (\<forall>n. \<forall>p \<in> set v. \<not> live n (pd_conn p)) \<longrightarrow>
    fst (checkout live key want (cl_pool cl')) = None)"
proof -
  have "cl_pool cl' key = Some v"
    using assms
  proof (induction rule: client_steps.induct)
    case (sending cl1 live k req host port tls res cl2)
    obtain want p where c: "checkout live (host, port, tls) want (cl_pool cl1) = (p, cl_pool cl2)"
      using client_send_pool [OF sending.hyps(3)] by blast
    show ?case
    proof (cases "key = (host, port, tls)")
      case True
      then have "checkout live key want (cl_pool cl1) = (None, cl_pool cl1)"
        using sending by (intro checkout_dead) auto
      then show ?thesis using c True sending by simp
    next
      case False
      then show ?thesis using checkout_other [OF c] sending by simp
    qed
  next
    case (parking cl1 i ready)
    then show ?case by (auto simp: park_when_ready_def park_def Let_def split: prod.split)
  qed
  then show ?thesis using checkout_dead by (metis fst_conv)
qed

theorem dead_pool_stuck_witness:
  "cl_pool (park_when_ready 0 True (snd (client_send sample_client_env sample_client_wire (\<lambda>_ _. False) ''q'' ''h.test'' 80 False
     (sample_client (replicate 8 \<lparr>pd_conn = 1, pd_ech = False\<rparr>))))) (''h.test'', 80, False) =
   Some (replicate 8 \<lparr>pd_conn = 1, pd_ech = False\<rparr>)"
proof -
  let ?v = "replicate 8 \<lparr>pd_conn = 1, pd_ech = False\<rparr> :: nat pooled list"
  let ?s = "client_send sample_client_env sample_client_wire (\<lambda>_ _. False) ''q'' ''h.test'' 80 False (sample_client ?v)"
  have "client_steps (\<lambda>_. sample_client_env) (\<lambda>_. sample_client_wire) (pd_conn ` set ?v) (sample_client ?v) (snd ?s)"
    by (rule client_steps.sending [OF client_steps.start _ prod.collapse [symmetric]]) auto
  then have "client_steps (\<lambda>_. sample_client_env) (\<lambda>_. sample_client_wire) (pd_conn ` set ?v) (sample_client ?v) (park_when_ready 0 True (snd ?s))"
    by (rule client_steps.parking)
  moreover have "cl_pool (sample_client ?v) (''h.test'', 80, False) = Some ?v" by (simp add: sample_client_def)
  moreover have "length ?v = MAX_IDLE_PER_HOST" by (simp add: MAX_IDLE_PER_HOST_def)
  ultimately show ?thesis using dead_pool_stuck by blast
qed



text \<open>C34: while the proxy resolves only through its own DNS service, nothing it sends is ever dialled by
  name, so the resolver of the operating system is never asked; only a host that is an address
  already is handed to it.\<close>

theorem no_system_lookup:
  assumes "client_send N W live req host port tls cl = (res, cl')"
    and "cl_egress cl = Some eg" "es_resolver_only (eg_settings eg)" "parse_ip host = None"
  shows "\<exists>ts. cl_dialled cl' = cl_dialled cl @ ts \<and> (\<forall>x \<in> set ts. \<exists>a. x = ToAddr a)"
  using assms(1)
proof (rule client_send_cases)
  fix cl1 want pool p
  assume s: "same_conns cl cl1" "cl_dialled cl1 = cl_dialled cl"
    and r: "case p of
       None \<Rightarrow> send_fresh N W req host port tls (cl1\<lparr>cl_pool := pool\<rparr>) = (res, cl')
     | Some x \<Rightarrow>
         (\<exists>r. ws_try W (pd_conn x) req = TrySent r \<and> cl_sent cl' = cl_sent cl @ [(pd_conn x, req)] \<and> cl_pool cl' = pool \<and>
            cl_dialled cl' = cl_dialled cl) \<or>
         (\<exists>e. ws_try W (pd_conn x) req = TryFailed e \<and> res = Inl e \<and> cl_sent cl' = cl_sent cl @ [(pd_conn x, req)] \<and>
            cl_pool cl' = pool \<and> cl_dialled cl' = cl_dialled cl) \<or>
         ((ws_try W (pd_conn x) req = TryReturned \<or> (\<exists>e. ws_try W (pd_conn x) req = TryIncomplete e)) \<and>
            send_fresh N W req host port tls (cl1\<lparr>cl_pool := pool, cl_sent := cl_sent cl @ [(pd_conn x, req)]\<rparr>) = (res, cl'))"
  have own: "own_resolver host (cl1\<lparr>cl_pool := pool\<rparr>)" "own_resolver host (cl1\<lparr>cl_pool := pool, cl_sent := y\<rparr>)" for y
    using s(1) assms(2-4) by (auto simp: same_conns_def own_resolver_def settings_of_def)
  show ?thesis
  proof (cases p)
    case None
    then show ?thesis using r send_fresh_frame(3) [of N W req host port tls "cl1\<lparr>cl_pool := pool\<rparr>" res cl'] own(1) s(2) by auto
  next
    case (Some x)
    then show ?thesis
      using r send_fresh_frame(3) [of N W req host port tls
          "cl1\<lparr>cl_pool := pool, cl_sent := cl_sent cl @ [(pd_conn x, req)]\<rparr>" res cl'] own(2) s(2) by auto
  qed
qed

theorem no_system_lookup_witness:
  "\<exists>ts. cl_dialled (snd (client_send sample_client_env sample_client_wire (\<lambda>_ _. True) ''q'' ''h.test'' 80 False (sample_client []))) =
     cl_dialled (sample_client []) @ ts \<and> (\<forall>x \<in> set ts. \<exists>a. x = ToAddr a)"
proof -
  let ?s = "client_send sample_client_env sample_client_wire (\<lambda>_ _. True) ''q'' ''h.test'' 80 False (sample_client [])"
  have "?s = (fst ?s, snd ?s)" by simp
  moreover have "cl_egress (sample_client []) = Some (the (cl_egress (sample_client [])))" by (simp add: sample_client_def)
  moreover have "es_resolver_only (eg_settings (the (cl_egress (sample_client []))))" by (simp add: sample_client_def)
  moreover have "parse_ip ''h.test'' = None" by code_simp
  ultimately show ?thesis by (rule no_system_lookup)
qed

end
