(* ===== verification/Proxy_Control.thy ===== *)
theory Proxy_Control
  imports Proxy_Egress Dns_Control
begin

text \<open>
  \<open>proxy/control.rs\<close> and the defaults of \<open>proxy/config.rs\<close>: the settings of the proxy listener and its
  life cycle. \<open>os\<close> says whether binding an address fails.
\<close>

section \<open>Configuration\<close>

record server_config =
  sg_enabled :: bool
  sg_listen :: string
  sg_admin_listen :: string
  sg_data_dir :: string

datatype proxy_error = ConfigError string | TlsError string | OtherError string

fun show_proxy_error :: "proxy_error \<Rightarrow> string" where
  "show_proxy_error (ConfigError m) = ''configuration error: '' @ m"
| "show_proxy_error (TlsError m) = ''tls / certificate error: '' @ m"
| "show_proxy_error (OtherError m) = m"

definition validate_server :: "server_config \<Rightarrow> proxy_error + unit" where
  "validate_server cfg =
     (case parse_socket_addr (sg_listen cfg) of
        None \<Rightarrow> Inl (ConfigError (''invalid listen '' @ [CHR 0x27] @ sg_listen cfg @ [CHR 0x27] @ '': invalid socket address syntax''))
      | Some _ \<Rightarrow> Inr ())"

definition default_server :: server_config where
  "default_server = \<lparr>sg_enabled = True, sg_listen = ''127.0.0.1:8080'', sg_admin_listen = ''127.0.0.1:8081'',
     sg_data_dir = ''data''\<rparr>"

definition load_base_config :: "string \<Rightarrow> proxy_error + server_config" where
  "load_base_config data_dir =
     (let cfg = default_server\<lparr>sg_data_dir := data_dir\<rparr> in and_then (validate_server cfg) (\<lambda>_. Inr cfg))"

section \<open>Overrides\<close>

record proxy_overrides =
  po_enabled :: "bool option"
  po_listen :: "string option"

definition no_proxy_overrides :: proxy_overrides where
  "no_proxy_overrides = \<lparr>po_enabled = None, po_listen = None\<rparr>"

definition proxy_to_value :: "proxy_overrides \<Rightarrow> json" where
  "proxy_to_value o' =
     JObject [(''enabled'', opt_json JBool (po_enabled o')), (''listen'', opt_json JString (po_listen o'))]"

definition proxy_of_fields :: "json option \<Rightarrow> json option \<Rightarrow> proxy_overrides option" where
  "proxy_of_fields a b =
     Option.bind (opt_field as_bool a) (\<lambda>e. map_option (\<lambda>l. \<lparr>po_enabled = e, po_listen = l\<rparr>) (opt_field as_str b))"

fun proxy_of_value :: "json \<Rightarrow> proxy_overrides option" where
  "proxy_of_value (JObject m) = proxy_of_fields (map_of m ''enabled'') (map_of m ''listen'')"
| "proxy_of_value (JArray []) = proxy_of_fields None None"
| "proxy_of_value (JArray [a]) = proxy_of_fields (Some a) None"
| "proxy_of_value (JArray [a, b]) = proxy_of_fields (Some a) (Some b)"
| "proxy_of_value _ = None"

interpretation proxy_group: settings_group proxy_to_value proxy_of_value no_proxy_overrides "{''enabled'', ''listen''}"
  by unfold_locales (auto simp: proxy_to_value_def proxy_of_fields_def no_proxy_overrides_def)

datatype proxy_update_error =
    ProxyBadBody string
  | ProxyNotAnObject
  | BadProxyListen string
  | ProxyNoControl
  | ProxyBindFailed string

definition parse_proxy_overrides :: "(bytes \<Rightarrow> string + json) \<Rightarrow> bytes \<Rightarrow> proxy_update_error + proxy_overrides" where
  "parse_proxy_overrides parse_json body =
     (case parse_json body of
        Inl e \<Rightarrow> Inl (ProxyBadBody e)
      | Inr v \<Rightarrow>
          if \<not> is_object v then Inl ProxyNotAnObject
          else Inr \<lparr>po_enabled = get_bool ''proxy_enabled'' v, po_listen = map_option trim (get_str ''proxy_listen'' v)\<rparr>)"

section \<open>Runtime\<close>

record proxy_runtime =
  pr_state :: shared_state
  pr_store :: path
  pr_control :: bool
  pr_enabled :: bool
  pr_listen :: socket_addr
  pr_task :: "socket_addr option"
  pr_overrides :: proxy_overrides
  pr_sockets :: "socket_addr set"

record proxy_status =
  ps_enabled :: bool
  ps_listen :: string
  ps_running :: bool
  ps_controllable :: bool

definition proxy_status_of :: "proxy_runtime \<Rightarrow> proxy_status" where
  "proxy_status_of rt = \<lparr>ps_enabled = pr_enabled rt, ps_listen = show_socket_addr (pr_listen rt),
     ps_running = (pr_task rt \<noteq> None), ps_controllable = pr_control rt\<rparr>"

definition proxy_runtime_new ::
  "json_text \<Rightarrow> shared_state \<Rightarrow> path \<Rightarrow> bool \<Rightarrow> string \<Rightarrow> bool \<Rightarrow> disk \<Rightarrow> (proxy_update_error + proxy_runtime) \<times> disk" where
  "proxy_runtime_new T st store control cfg_listen cfg_enabled d0 =
     (let d = store_ensure T proxy_to_value store \<lparr>po_enabled = Some cfg_enabled, po_listen = Some cfg_listen\<rparr> d0;
          ov = store_load T proxy_of_value no_proxy_overrides store d;
          listen_s = unwrap_or (po_listen ov) cfg_listen
      in case parse_socket_addr listen_s of
           None \<Rightarrow> (Inl (BadProxyListen listen_s), d)
         | Some listen \<Rightarrow>
             (Inr \<lparr>pr_state = st, pr_store = store, pr_control = control,
                   pr_enabled = unwrap_or (po_enabled ov) cfg_enabled, pr_listen = listen, pr_task = None,
                   pr_overrides = ov, pr_sockets = {}\<rparr>, d))"

definition bind_and_serve ::
  "(socket_addr \<Rightarrow> string option) \<Rightarrow> socket_addr \<Rightarrow> proxy_runtime \<Rightarrow> (proxy_error + socket_addr) \<times> proxy_runtime" where
  "bind_and_serve os addr rt =
     (case os addr of
        Some e \<Rightarrow> (Inl (ConfigError (''binding proxy '' @ show_socket_addr addr @ '': '' @ e)), rt)
      | None \<Rightarrow> (Inr addr, rt\<lparr>pr_sockets := insert addr (pr_sockets rt)\<rparr>))"

definition proxy_start_initial ::
  "(socket_addr \<Rightarrow> string option) \<Rightarrow> proxy_runtime \<Rightarrow> (proxy_error + unit) \<times> proxy_runtime" where
  "proxy_start_initial os rt =
     (if pr_enabled rt \<and> pr_control rt then
        (case bind_and_serve os (pr_listen rt) rt of
           (Inl e, rt1) \<Rightarrow> (Inl e, rt1)
         | (Inr t, rt1) \<Rightarrow> (Inr (), rt1\<lparr>pr_task := Some t\<rparr>))
      else (Inr (), rt))"

definition proxy_note :: "log_env \<Rightarrow> event_kind \<Rightarrow> string \<Rightarrow> proxy_runtime \<Rightarrow> proxy_runtime" where
  "proxy_note L kind msg rt =
     rt\<lparr>pr_state := log_event (le_codecs L) (le_io_ok L) (le_ms L) (le_trace L) kind msg (pr_state rt)\<rparr>"

definition proxy_transition_note ::
  "log_env \<Rightarrow> socket_addr option \<Rightarrow> socket_addr option \<Rightarrow> proxy_runtime \<Rightarrow> proxy_runtime" where
  "proxy_transition_note L was now rt =
     (case (was, now) of
        (None, Some a) \<Rightarrow> proxy_note L EvInfo (''proxy enabled on '' @ show_socket_addr a) rt
      | (Some _, None) \<Rightarrow> proxy_note L EvInfo ''proxy disabled'' rt
      | (Some p, Some n) \<Rightarrow>
          if p \<noteq> n then proxy_note L EvInfo (''proxy re-bound to '' @ show_socket_addr n) rt else rt
      | (None, None) \<Rightarrow> rt)"

text \<open>The accept task is aborted and awaited, so its socket is closed.\<close>

definition proxy_stop :: "proxy_runtime \<Rightarrow> proxy_runtime" where
  "proxy_stop rt =
     (case pr_task rt of None \<Rightarrow> rt | Some a \<Rightarrow> rt\<lparr>pr_task := None, pr_sockets := pr_sockets rt - {a}\<rparr>)"

definition proxy_install ::
  "json_text \<Rightarrow> log_env \<Rightarrow> socket_addr option \<Rightarrow> bool \<Rightarrow> socket_addr \<Rightarrow> socket_addr option \<Rightarrow> proxy_runtime \<Rightarrow> disk \<Rightarrow>
   proxy_runtime \<times> disk" where
  "proxy_install T L was enabled listen task rt d =
     (let ov = (pr_overrides rt)\<lparr>po_enabled := Some enabled, po_listen := Some (show_socket_addr listen)\<rparr>;
          rt1 = rt\<lparr>pr_task := task, pr_enabled := enabled, pr_listen := listen, pr_overrides := ov\<rparr>
      in case store_save T proxy_to_value (pr_store rt1) ov d of
           (r, d') \<Rightarrow>
             (proxy_transition_note L was (then_some enabled listen)
                (case r of
                   Inl e \<Rightarrow> proxy_note L EvError (''saving proxy server settings: '' @ show_store_error e) rt1
                 | Inr _ \<Rightarrow> rt1), d'))"

definition proxy_apply ::
  "json_text \<Rightarrow> (socket_addr \<Rightarrow> string option) \<Rightarrow> log_env \<Rightarrow> bool \<Rightarrow> socket_addr \<Rightarrow> proxy_runtime \<Rightarrow> disk \<Rightarrow>
   (proxy_update_error + unit) \<times> proxy_runtime \<times> disk" where
  "proxy_apply T os L enabled listen rt d =
     (if \<not> pr_control rt then (Inl ProxyNoControl, rt, d)
      else let was = then_some (pr_enabled rt) (pr_listen rt); rt1 = proxy_stop rt in
        if enabled then
          (case bind_and_serve os listen rt1 of
             (Inl e, rt2) \<Rightarrow>
               (Inl (ProxyBindFailed (show_proxy_error e)),
                proxy_note L EvError (''proxy bind '' @ show_socket_addr listen @ '': '' @ show_proxy_error e)
                  (rt2\<lparr>pr_enabled := False\<rparr>), d)
           | (Inr t, rt2) \<Rightarrow> (case proxy_install T L was enabled listen (Some t) rt2 d of (rt3, d') \<Rightarrow> (Inr (), rt3, d')))
        else (case proxy_install T L was enabled listen None rt1 d of (rt3, d') \<Rightarrow> (Inr (), rt3, d')))"

definition wanted_proxy :: "proxy_overrides \<Rightarrow> socket_addr \<Rightarrow> socket_addr option" where
  "wanted_proxy upd old = (case po_listen upd of None \<Rightarrow> Some old | Some s \<Rightarrow> parse_socket_addr s)"

definition proxy_apply_raw ::
  "json_text \<Rightarrow> (bytes \<Rightarrow> string + json) \<Rightarrow> (socket_addr \<Rightarrow> string option) \<Rightarrow> log_env \<Rightarrow> bytes \<Rightarrow> proxy_runtime \<Rightarrow> disk \<Rightarrow>
   (proxy_update_error + proxy_status) \<times> proxy_runtime \<times> disk" where
  "proxy_apply_raw T parse_json os L body rt d =
     (case parse_proxy_overrides parse_json body of
        Inl e \<Rightarrow> (Inl e, rt, d)
      | Inr upd \<Rightarrow>
          (case wanted_proxy upd (pr_listen rt) of
             None \<Rightarrow> (Inl (BadProxyListen (the (po_listen upd))), rt, d)
           | Some want_listen \<Rightarrow>
               (let want_enabled = unwrap_or (po_enabled upd) (pr_enabled rt) in
                if want_enabled \<noteq> pr_enabled rt \<or> want_listen \<noteq> pr_listen rt then
                  (case proxy_apply T os L want_enabled want_listen rt d of
                     (Inl e, rt', d') \<Rightarrow> (Inl e, rt', d')
                   | (Inr _, rt', d') \<Rightarrow> (Inr (proxy_status_of rt'), rt', d'))
                else (Inr (proxy_status_of rt), rt, d))))"

section \<open>Properties\<close>

text \<open>A running task owns exactly the socket of the configured address; without one no socket is open.\<close>

definition proxy_inv :: "proxy_runtime \<Rightarrow> bool" where
  "proxy_inv rt \<longleftrightarrow>
     (case pr_task rt of None \<Rightarrow> pr_sockets rt = {} | Some a \<Rightarrow> a = pr_listen rt \<and> pr_sockets rt = {a} \<and> pr_enabled rt)"

lemma proxy_note_simps [simp]:
  "pr_task (proxy_note L k m rt) = pr_task rt" "pr_sockets (proxy_note L k m rt) = pr_sockets rt"
  "pr_listen (proxy_note L k m rt) = pr_listen rt" "pr_enabled (proxy_note L k m rt) = pr_enabled rt"
  "pr_control (proxy_note L k m rt) = pr_control rt" "pr_store (proxy_note L k m rt) = pr_store rt"
  by (simp_all add: proxy_note_def)

lemma proxy_transition_simps [simp]:
  "pr_task (proxy_transition_note L w n rt) = pr_task rt" "pr_sockets (proxy_transition_note L w n rt) = pr_sockets rt"
  "pr_listen (proxy_transition_note L w n rt) = pr_listen rt" "pr_enabled (proxy_transition_note L w n rt) = pr_enabled rt"
  "pr_control (proxy_transition_note L w n rt) = pr_control rt" "pr_store (proxy_transition_note L w n rt) = pr_store rt"
  by (simp_all add: proxy_transition_note_def split: option.split)

lemma proxy_install_simps:
  assumes "proxy_install T L was en a t rt d = (rt', d')"
  shows "pr_task rt' = t \<and> pr_enabled rt' = en \<and> pr_listen rt' = a \<and> pr_sockets rt' = pr_sockets rt \<and>
    pr_control rt' = pr_control rt \<and> pr_store rt' = pr_store rt"
  using assms by (auto simp: proxy_install_def Let_def split: prod.splits sum.splits)

lemma proxy_stop_clean: "proxy_inv rt \<Longrightarrow> pr_sockets (proxy_stop rt) = {} \<and> pr_task (proxy_stop rt) = None"
  by (auto simp: proxy_inv_def proxy_stop_def split: option.splits)

lemma proxy_apply_inv:
  assumes "proxy_apply T os L en a rt d = (r, rt', d')" "proxy_inv rt"
  shows "proxy_inv rt'"
    and "r = Inr u \<Longrightarrow> pr_enabled rt' = en \<and> pr_listen rt' = a \<and> (pr_task rt' \<noteq> None \<longleftrightarrow> en)"
    and "r = Inl (ProxyBindFailed m) \<Longrightarrow> \<not> pr_enabled rt' \<and> pr_sockets rt' = {} \<and> pr_listen rt' = pr_listen rt \<and> d' = d"
    and "r = Inl e \<Longrightarrow> (\<forall>m. e \<noteq> ProxyBindFailed m) \<Longrightarrow> rt' = rt \<and> d' = d"
proof -
  have stop: "pr_sockets (proxy_stop rt) = {}" "pr_task (proxy_stop rt) = None" "pr_listen (proxy_stop rt) = pr_listen rt"
    using proxy_stop_clean [OF assms(2)] by (auto simp: proxy_stop_def split: option.splits)
  show "proxy_inv rt'"
    using assms stop
    by (auto simp: proxy_apply_def bind_and_serve_def proxy_inv_def Let_def dest!: proxy_install_simps
        split: if_splits option.splits prod.splits sum.splits)
  show "r = Inr u \<Longrightarrow> pr_enabled rt' = en \<and> pr_listen rt' = a \<and> (pr_task rt' \<noteq> None \<longleftrightarrow> en)"
    using assms stop
    by (auto simp: proxy_apply_def bind_and_serve_def Let_def dest!: proxy_install_simps
        split: if_splits option.splits prod.splits sum.splits)
  show "r = Inl (ProxyBindFailed m) \<Longrightarrow> \<not> pr_enabled rt' \<and> pr_sockets rt' = {} \<and> pr_listen rt' = pr_listen rt \<and> d' = d"
    using assms stop
    by (auto simp: proxy_apply_def bind_and_serve_def Let_def split: if_splits option.splits prod.splits sum.splits)
  show "r = Inl e \<Longrightarrow> (\<forall>m. e \<noteq> ProxyBindFailed m) \<Longrightarrow> rt' = rt \<and> d' = d"
    using assms stop
    by (auto simp: proxy_apply_def bind_and_serve_def Let_def split: if_splits option.splits prod.splits sum.splits)
qed

text \<open>Every state the listener can be in: created, started, then changed any number of times.\<close>

inductive proxy_reach :: "json_text \<Rightarrow> (bytes \<Rightarrow> string + json) \<Rightarrow> proxy_runtime \<Rightarrow> disk \<Rightarrow> bool" for T pj where
  created: "proxy_runtime_new T st store control cfg_listen cfg_enabled d = (Inr rt, d') \<Longrightarrow>
    proxy_start_initial os rt = (Inr (), rt') \<Longrightarrow> proxy_reach T pj rt' d'"
| changed: "proxy_reach T pj rt d \<Longrightarrow> proxy_apply_raw T pj os L body rt d = (r, rt', d') \<Longrightarrow> proxy_reach T pj rt' d'"
| logged: "proxy_reach T pj rt d \<Longrightarrow> proxy_reach T pj (rt\<lparr>pr_state := st'\<rparr>) d"

lemma proxy_reach_inv: "proxy_reach T pj rt d \<Longrightarrow> proxy_inv rt"
proof (induction rule: proxy_reach.induct)
  case created
  then show ?case
    by (auto simp: proxy_runtime_new_def proxy_start_initial_def bind_and_serve_def proxy_inv_def Let_def
        split: option.splits if_splits prod.splits sum.splits)
next
  case (changed rt d os L body r rt' d')
  show ?case
  proof (cases "rt' = rt")
    case False
    then obtain en a x where "proxy_apply T os L en a rt d = (x, rt', d')"
      using changed(2) by (auto simp: proxy_apply_raw_def Let_def split: sum.splits option.splits prod.splits if_splits)
    then show ?thesis using proxy_apply_inv(1) changed.IH by blast
  qed (simp add: changed.IH)
qed (auto simp: proxy_inv_def split: option.splits)

text \<open>what an update of the proxy listener does, in every state it can be in. Something that does not
  parse, or a proxy that cannot be controlled, changes nothing; a failed bind leaves the listener off
  with no socket open and the stored settings untouched, and sending the same update again tries the
  bind again; a success has the requested settings in force, with exactly the socket they ask for.\<close>

theorem proxy_listener_update:
  assumes "proxy_reach T pj rt d" "proxy_apply_raw T pj os L body rt d = (res, rt', d')"
    and "parse_proxy_overrides pj body = Inr upd"
  shows "case res of
      Inr s \<Rightarrow> s = proxy_status_of rt' \<and> ps_enabled s = unwrap_or (po_enabled upd) (pr_enabled rt) \<and>
        wanted_proxy upd (pr_listen rt) = Some (pr_listen rt') \<and>
        pr_sockets rt' = (if ps_running s then {pr_listen rt'} else {}) \<and> (ps_running s \<longrightarrow> ps_enabled s)
    | Inl (ProxyBindFailed _) \<Rightarrow> \<not> pr_enabled rt' \<and> pr_sockets rt' = {} \<and> pr_listen rt' = pr_listen rt \<and> d' = d \<and>
        (po_enabled upd = Some True \<longrightarrow> (\<forall>os'. proxy_apply_raw T pj os' L body rt' d' =
           (case proxy_apply T os' L True (the (wanted_proxy upd (pr_listen rt'))) rt' d' of
              (Inl e, x) \<Rightarrow> (Inl e, x) | (Inr _, rt2, d2) \<Rightarrow> (Inr (proxy_status_of rt2), rt2, d2))))
    | Inl _ \<Rightarrow> rt' = rt \<and> d' = d"
proof -
  note inv = proxy_reach_inv [OF assms(1)]
  show ?thesis
  proof (cases "wanted_proxy upd (pr_listen rt)")
    case None
    with assms(2,3) show ?thesis by (auto simp: proxy_apply_raw_def)
  next
    case (Some a)
    let ?en = "unwrap_or (po_enabled upd) (pr_enabled rt)"
    show ?thesis
    proof (cases "?en \<noteq> pr_enabled rt \<or> a \<noteq> pr_listen rt")
      case False
      then have "res = Inr (proxy_status_of rt) \<and> rt' = rt" using assms(2,3) Some by (auto simp: proxy_apply_raw_def)
      then show ?thesis using False inv Some
        by (auto simp: proxy_status_of_def proxy_inv_def split: option.splits)
    next
      case True
      obtain r rt1 d1 where ap: "proxy_apply T os L ?en a rt d = (r, rt1, d1)" by (cases "proxy_apply T os L ?en a rt d") auto
      then have raw: "(res, rt', d') = (case r of Inl e \<Rightarrow> (Inl e, rt1, d1) | Inr _ \<Rightarrow> (Inr (proxy_status_of rt1), rt1, d1))"
        using assms(2,3) Some True by (auto simp: proxy_apply_raw_def Let_def split: sum.splits)
      note facts = proxy_apply_inv [OF ap inv]
      show ?thesis
      proof (cases r)
        case (Inr u)
        then show ?thesis using raw facts(1) facts(2) [of u] Some
          by (auto simp: proxy_status_of_def proxy_inv_def split: option.splits)
      next
        case (Inl e)
        show ?thesis
        proof (cases e)
          case (ProxyBindFailed m)
          then have off: "\<not> pr_enabled rt'" "pr_sockets rt' = {}" "pr_listen rt' = pr_listen rt" "d' = d" "res = Inl (ProxyBindFailed m)"
            using raw facts(3) [of m] Inl by simp_all
          have "proxy_apply_raw T pj os' L body rt' d' =
              (case proxy_apply T os' L True a rt' d' of
                 (Inl e, x) \<Rightarrow> (Inl e, x) | (Inr _, rt2, d2) \<Rightarrow> (Inr (proxy_status_of rt2), rt2, d2))"
            if "po_enabled upd = Some True" for os'
            using that assms(3) Some off by (auto simp: proxy_apply_raw_def Let_def split: prod.splits sum.splits)
          then show ?thesis using off Some by simp
        qed (use raw facts(4) [of e] Inl in simp_all)
      qed
    qed
  qed
qed

text \<open>two groups of settings share one file without disturbing each other: saving one of them is read
  back, and what the other one reads is what it read before.\<close>

theorem groups_share_file:
  assumes "settings_group to_a of_a dflt_a keys_a" "settings_group to_b of_b dflt_b keys_b" "keys_a \<inter> keys_b = {}"
    and "json_text_ok T" "p \<noteq> no_path" "is_object (store_raw T p d) \<or> store_raw T p d = JNull"
    and "store_save T to_a p x d = (Inr (), d')"
  shows "store_load T of_a dflt_a p d' = x \<and> store_load T of_b dflt_b p d' = store_load T of_b dflt_b p d"
proof -
  have pp: "jt_parse T t = Some v" if "jt_print T v = Inr t" for v t using assms(4) that by (simp add: json_text_ok_def)
  obtain m where m: "to_a x = JObject m" "distinct (map fst m)" "fst ` set m = keys_a"
    using settings_group.value_object [OF assms(1)] by blast
  have read: "Option.bind (store_read p d') (jt_parse T) = Some (json_merge (store_raw T p d) (to_a x))"
    using store_write_reads [OF assms(7) [unfolded store_save_def] assms(5) pp] .
  have raw: "unwrap_or (of_b (store_raw T p d)) dflt_b = store_load T of_b dflt_b p d"
    using settings_group.no_value [OF assms(2)]
    by (cases "Option.bind (store_read p d) (jt_parse T)") (simp_all add: store_raw_def store_load_def)
  have "fst ` set m \<inter> keys_b = {}" using m(3) assms(3) by simp
  from settings_group.of_merge_other [OF assms(2) m(1,2) this assms(6)]
  show ?thesis
    using read raw settings_group.of_merge_own [OF assms(1), of "store_raw T p d" x] by (simp add: store_load_def)
qed

theorem groups_share_file_witness:
  "let d' = snd (store_save sample_text egress_to_value (''d'', ''f'') \<lparr>eo_resolver_only = Some False, eo_disable_ipv6 = Some True\<rparr> empty_disk)
   in store_load sample_text egress_of_value no_egress_overrides (''d'', ''f'') d' =
        \<lparr>eo_resolver_only = Some False, eo_disable_ipv6 = Some True\<rparr> \<and>
      store_load sample_text proxy_of_value no_proxy_overrides (''d'', ''f'') d' =
        store_load sample_text proxy_of_value no_proxy_overrides (''d'', ''f'') empty_disk"
proof -
  let ?x = "\<lparr>eo_resolver_only = Some False, eo_disable_ipv6 = Some True\<rparr>"
  let ?s = "store_save sample_text egress_to_value (''d'', ''f'') ?x empty_disk"
  have raw: "store_raw sample_text (''d'', ''f'') empty_disk = JNull"
    by (simp add: store_raw_def store_read_def read_to_string_def empty_disk_def)
  have "json_merge JNull (egress_to_value ?x) = sample_value" by (simp add: sample_value_def egress_to_value_def)
  moreover have "jt_print sample_text sample_value = Inr ''v''" by (simp add: sample_text_def)
  moreover have "healthy empty_disk (''d'', ''f'')" by (simp add: healthy_def empty_disk_def)
  ultimately have "fst ?s = Inr ()" by (simp add: store_save_def store_write_def raw map_err_def)
  then have s: "?s = (Inr (), snd ?s)" by (metis prod.collapse)
  show ?thesis
    using groups_share_file [OF egress_group.settings_group_axioms proxy_group.settings_group_axioms _ sample_text_ok _ _ s]
    by (simp add: raw)
qed

definition sample_proxy_rt :: proxy_runtime where
  "sample_proxy_rt = \<lparr>pr_state = sample_state, pr_store = no_path, pr_control = True, pr_enabled = True,
     pr_listen = SockV4 (Ipv4 127 0 0 1) 8080, pr_task = Some (SockV4 (Ipv4 127 0 0 1) 8080),
     pr_overrides = no_proxy_overrides, pr_sockets = {SockV4 (Ipv4 127 0 0 1) 8080}\<rparr>"

lemma sample_proxy_reach: "proxy_reach sample_text pj sample_proxy_rt empty_disk"
proof (rule proxy_reach.created)
  have l: "parse_socket_addr ''127.0.0.1:8080'' = Some (SockV4 (Ipv4 127 0 0 1) 8080)" by code_simp
  show "proxy_runtime_new sample_text sample_state no_path True ''127.0.0.1:8080'' True empty_disk =
      (Inr (sample_proxy_rt\<lparr>pr_task := None, pr_sockets := {}\<rparr>), empty_disk)"
    by (simp add: proxy_runtime_new_def store_ensure_def store_write_def store_load_def store_read_def l
        no_proxy_overrides_def sample_proxy_rt_def)
  show "proxy_start_initial (\<lambda>_. None) (sample_proxy_rt\<lparr>pr_task := None, pr_sockets := {}\<rparr>) = (Inr (), sample_proxy_rt)"
    by (simp add: proxy_start_initial_def bind_and_serve_def sample_proxy_rt_def)
qed

definition sample_proxy_body :: "bytes \<Rightarrow> string + json" where
  "sample_proxy_body = (\<lambda>_. Inr (JObject [(''proxy_enabled'', JBool True), (''proxy_listen'', JString ''127.0.0.1:9090'')]))"

theorem proxy_listener_update_witness:
  "let r = proxy_apply_raw sample_text sample_proxy_body (\<lambda>_. Some ''in use'')
       \<lparr>le_codecs = sample_codecs, le_io_ok = True, le_ms = 0, le_trace = None\<rparr> [] sample_proxy_rt empty_disk
   in pr_sockets (fst (snd r)) = {} \<and> pr_listen (fst (snd r)) = SockV4 (Ipv4 127 0 0 1) 8080"
proof -
  let ?L = "\<lparr>le_codecs = sample_codecs, le_io_ok = True, le_ms = 0, le_trace = None\<rparr>"
  let ?r = "proxy_apply_raw sample_text sample_proxy_body (\<lambda>_. Some ''in use'') ?L [] sample_proxy_rt empty_disk"
  have "\<exists>m. fst ?r = Inl (ProxyBindFailed m)"
  proof -
    have "parse_socket_addr (trim ''127.0.0.1:9090'') = Some (SockV4 (Ipv4 127 0 0 1) 9090)" by code_simp
    then show ?thesis
      by (simp add: proxy_apply_raw_def parse_proxy_overrides_def sample_proxy_body_def get_bool_def get_str_def
          wanted_proxy_def Let_def proxy_apply_def bind_and_serve_def sample_proxy_rt_def)
  qed
  then obtain m where r: "?r = (Inl (ProxyBindFailed m), fst (snd ?r), snd (snd ?r))" by (metis prod.collapse)
  have u: "parse_proxy_overrides sample_proxy_body [] = Inr \<lparr>po_enabled = Some True, po_listen = Some (trim ''127.0.0.1:9090'')\<rparr>"
    by (simp add: parse_proxy_overrides_def sample_proxy_body_def get_bool_def get_str_def)
  show ?thesis
    using proxy_listener_update [OF sample_proxy_reach r u] by (simp add: Let_def) (simp add: sample_proxy_rt_def)
qed

end
