(* ===== verification/Proxy_Exclusions.thy ===== *)
theory Proxy_Exclusions
  imports Json
begin

text \<open>
  \<open>proxy/exclusions.rs\<close>: the domains that bypass inspection. \<open>uni\<close> is the Unicode case mapping.
\<close>

record exclusion =
  ex_domain :: string
  ex_enabled :: bool

definition px_normalize :: "(string \<Rightarrow> string) \<Rightarrow> string \<Rightarrow> string" where
  "px_normalize uni domain =
     (let d = to_lowercase uni (trim domain);
          (wildcard, rest) = (case strip_prefix ''*.'' d of Some rest \<Rightarrow> (True, rest) | None \<Rightarrow> (False, d));
          core = trim (trim_matches CHR ''.'' rest)
      in if core = [] then [] else if wildcard then ''*.'' @ core else core)"

definition px_parse :: "(string \<Rightarrow> string) \<Rightarrow> string \<Rightarrow> exclusion option" where
  "px_parse uni line =
     (let (line, enabled) = (case strip_prefix ''!'' line of Some rest \<Rightarrow> (rest, False) | None \<Rightarrow> (line, True));
          d = px_normalize uni line
      in if d \<noteq> [] then Some \<lparr>ex_domain = d, ex_enabled = enabled\<rparr> else None)"

definition px_format :: "exclusion \<Rightarrow> string" where
  "px_format e = (if ex_enabled e then [] else ''!'') @ ex_domain e"

definition px_entry :: "(string \<Rightarrow> string) \<Rightarrow> exclusion entry" where
  "px_entry uni = \<lparr>entry_parse = px_parse uni, entry_format = px_format\<rparr>"

definition px_header_lines :: "string list" where
  "px_header_lines =
     [''# Domains that bypass MITM inspection (blind tunnel). Managed by the'',
      ''# admin UI; one host per line. A bare domain (example.com) matches the'',
      ''# domain and every subdomain; a leading *. (*.example.com) matches only'',
      ''# subdomains, not the domain itself. A leading ! parks the entry: kept'',
      ''# and listed, but inspected like any other host.'']"

type_synonym exclusion_store = "exclusion persisted_set"

definition px_load :: "(string \<Rightarrow> string) \<Rightarrow> path \<Rightarrow> disk \<Rightarrow> exclusion_store" where
  "px_load uni p d =
     load_set (px_entry uni) p (join [CHR 0x0A] px_header_lines) (\<lambda>es. dedup_key ex_domain (sort_key ex_domain es)) d"

definition covers :: "string \<Rightarrow> string \<Rightarrow> bool" where
  "covers pat host \<longleftrightarrow>
     (case strip_prefix ''*.'' pat of
        Some base \<Rightarrow> ends_with (''.'' @ base) host
      | None \<Rightarrow> host = pat \<or> ends_with (''.'' @ pat) host)"

definition px_matching :: "exclusion_store \<Rightarrow> string \<Rightarrow> string option" where
  "px_matching s host =
     map_option ex_domain (find (\<lambda>e. covers (ex_domain e) host) (filter ex_enabled (entries s)))"

datatype px_error = PxEmpty | PxIo io_error | PxBadJson string | PxExpectedDomain

definition px_add ::
  "(string \<Rightarrow> string) \<Rightarrow> string \<Rightarrow> exclusion_store \<Rightarrow> disk \<Rightarrow> (px_error + unit) \<times> exclusion_store \<times> disk" where
  "px_add uni domain s d =
     (let dm = px_normalize uni domain in
      if dm = [] then (Inl PxEmpty, s, d)
      else case mutate (px_entry uni) (\<lambda>es.
                  if list_ex (\<lambda>e. ex_domain e = dm) es then ((), es, False)
                  else ((), sort_key ex_domain (es @ [\<lparr>ex_domain = dm, ex_enabled = True\<rparr>]), True)) s d of
             (r, s', d') \<Rightarrow> (map_err PxIo r, s', d'))"

definition px_remove ::
  "(string \<Rightarrow> string) \<Rightarrow> string \<Rightarrow> exclusion_store \<Rightarrow> disk \<Rightarrow> (px_error + bool) \<times> exclusion_store \<times> disk" where
  "px_remove uni domain s d =
     (let dm = px_normalize uni domain in
      case mutate (px_entry uni) (\<lambda>es.
             let kept = filter (\<lambda>e. ex_domain e \<noteq> dm) es; removed = (length kept \<noteq> length es)
             in (removed, kept, removed)) s d of
        (r, s', d') \<Rightarrow> (map_err PxIo r, s', d'))"

definition px_set_enabled ::
  "(string \<Rightarrow> string) \<Rightarrow> string \<Rightarrow> bool \<Rightarrow> exclusion_store \<Rightarrow> disk \<Rightarrow> (px_error + bool) \<times> exclusion_store \<times> disk" where
  "px_set_enabled uni domain enabled s d =
     (let dm = px_normalize uni domain in
      case mutate (px_entry uni) (\<lambda>es.
             case find (\<lambda>e. ex_domain e = dm) es of
               Some e \<Rightarrow>
                 if ex_enabled e \<noteq> enabled
                 then (True, update_first (\<lambda>e. ex_domain e = dm) (\<lambda>e. e\<lparr>ex_enabled := enabled\<rparr>) es, True)
                 else (True, es, False)
             | None \<Rightarrow> (False, es, False)) s d of
        (r, s', d') \<Rightarrow> (map_err PxIo r, s', d'))"

datatype exclusion_command = ExAdd string | ExDelete string | ExSetEnabled string bool

definition parse_exclusion_command :: "(bytes \<Rightarrow> string + json) \<Rightarrow> bytes \<Rightarrow> px_error + exclusion_command" where
  "parse_exclusion_command parse_json body =
     (case parse_json body of
        Inl e \<Rightarrow> Inl (PxBadJson e)
      | Inr v \<Rightarrow>
          (case map_option trim (get_str ''domain'' v) of
             None \<Rightarrow> Inl PxExpectedDomain
           | Some dm \<Rightarrow>
               if get_bool ''delete'' v = Some True then Inr (ExDelete dm)
               else Inr (case get_bool ''enabled'' v of Some b \<Rightarrow> ExSetEnabled dm b | None \<Rightarrow> ExAdd dm)))"

text \<open>The dispatch of \<open>edit_exclusions\<close> (\<open>web/exclusions.rs\<close>), with the event it reports.\<close>

definition run_exclusion ::
  "(string \<Rightarrow> string) \<Rightarrow> exclusion_command \<Rightarrow> exclusion_store \<Rightarrow> disk \<Rightarrow>
   (px_error + string option) \<times> exclusion_store \<times> disk" where
  "run_exclusion uni c s d =
     (case c of
        ExDelete dm \<Rightarrow> (case px_remove uni dm s d of (r, s', d') \<Rightarrow>
          (and_then r (\<lambda>removed. Inr (if removed then Some (''excluded domain removed: '' @ dm) else None)), s', d'))
      | ExAdd dm \<Rightarrow> (case px_add uni dm s d of (r, s', d') \<Rightarrow>
          (and_then r (\<lambda>_. Inr (Some (''excluded domain added: '' @ dm @ '' (bypasses MITM)''))), s', d'))
      | ExSetEnabled dm b \<Rightarrow> (case px_set_enabled uni dm b s d of (r, s', d') \<Rightarrow>
          (and_then r (\<lambda>found. Inr (if found
             then Some (''excluded domain '' @ (if b then ''enabled'' else ''disabled'') @ '': '' @ dm) else None)), s', d')))"

section \<open>The contract of the file\<close>

text \<open>An entry that survives the file: its domain is in normal form, printable at both ends, free of the
  comment sign and of newlines, and not mistaken for a parked one.\<close>

definition px_valid :: "(string \<Rightarrow> string) \<Rightarrow> exclusion \<Rightarrow> bool" where
  "px_valid uni e \<longleftrightarrow>
     (let d = ex_domain e in
      d \<noteq> [] \<and> px_normalize uni d = d \<and> graphic (hd d) \<and> graphic (last d) \<and> CHR ''#'' \<notin> set d \<and> CHR 0x0A \<notin> set d \<and>
      hd d \<noteq> CHR ''!'')"

lemma bang_graphic: "graphic CHR ''!''"
  by (simp add: graphic_def)

interpretation px: entry_codec "px_entry uni" "px_valid uni" for uni
proof
  fix e assume v: "px_valid uni e"
  then have d: "ex_domain e \<noteq> []" "px_normalize uni (ex_domain e) = ex_domain e"
    by (simp_all add: px_valid_def Let_def)
  show "entry_parse (px_entry uni) (entry_format (px_entry uni) e) = Some e"
  proof (cases "ex_enabled e")
    case True
    then have "hd (ex_domain e) \<noteq> CHR ''!''" using v by (simp add: px_valid_def Let_def)
    then have "strip_prefix ''!'' (ex_domain e) = None"
      using d(1) by (cases "ex_domain e") simp_all
    with True d show ?thesis by (simp add: px_entry_def px_format_def px_parse_def Let_def)
  next
    case False
    then show ?thesis using d by (simp add: px_entry_def px_format_def px_parse_def Let_def)
  qed
  have "trimmed (px_format e)"
    using v d(1) bang_graphic by (intro trimmed_graphic_ends) (simp add: px_valid_def px_format_def Let_def)
  then show "file_line (entry_format (px_entry uni) e)"
    using v d(1) by (auto simp: px_entry_def file_line_def px_format_def px_valid_def Let_def)
qed

text \<open>The invariant of the store, and the list as a map.\<close>

definition px_ok :: "(string \<Rightarrow> string) \<Rightarrow> exclusion list \<Rightarrow> bool" where
  "px_ok uni es \<longleftrightarrow> sorted (map ex_domain es) \<and> distinct (map ex_domain es) \<and> list_all (px_valid uni) es"

definition ex_map :: "exclusion list \<Rightarrow> string \<Rightarrow> bool option" where
  "ex_map es = map_of (map (\<lambda>e. (ex_domain e, ex_enabled e)) es)"

definition spec_exclusion :: "(string \<Rightarrow> string) \<Rightarrow> exclusion_command \<Rightarrow> (string \<Rightarrow> bool option) \<Rightarrow> string \<Rightarrow> bool option" where
  "spec_exclusion uni c m =
     (case c of
        ExAdd dm \<Rightarrow> (if m (px_normalize uni dm) = None then m(px_normalize uni dm \<mapsto> True) else m)
      | ExDelete dm \<Rightarrow> m(px_normalize uni dm := None)
      | ExSetEnabled dm b \<Rightarrow> (if m (px_normalize uni dm) = None then m else m(px_normalize uni dm \<mapsto> b)))"


lemma ex_map_None: "ex_map es dm = None \<longleftrightarrow> (\<forall>e \<in> set es. ex_domain e \<noteq> dm)"
  by (auto simp: ex_map_def map_of_eq_None_iff image_iff)

lemma ex_map_find: "ex_map es dm = map_option ex_enabled (find (\<lambda>e. ex_domain e = dm) es)"
  by (induction es) (auto simp: ex_map_def)

lemma distinct_sort_domain: "distinct (map ex_domain (sort_key ex_domain es)) \<longleftrightarrow> distinct (map ex_domain es)"
proof -
  have "mset (map ex_domain (sort_key ex_domain es)) = mset (map ex_domain es)" unfolding mset_map by simp
  then show ?thesis by (metis mset_eq_imp_distinct_iff)
qed

lemma ex_map_sort:
  assumes "distinct (map ex_domain es)"
  shows "ex_map (sort_key ex_domain es) = ex_map es"
proof -
  have "distinct (map ex_domain (sort_key ex_domain es))" using assms by (simp add: distinct_sort_domain)
  then show ?thesis
    unfolding ex_map_def using assms by (intro map_of_inject_set [THEN iffD2]) (simp_all add: comp_def)
qed

lemma ok_add:
  assumes "px_ok uni es" "ex_map es dm = None" "px_valid uni \<lparr>ex_domain = dm, ex_enabled = True\<rparr>"
  shows "px_ok uni (sort_key ex_domain (es @ [\<lparr>ex_domain = dm, ex_enabled = True\<rparr>]))"
    and "ex_map (sort_key ex_domain (es @ [\<lparr>ex_domain = dm, ex_enabled = True\<rparr>])) = (ex_map es)(dm \<mapsto> True)"
proof -
  let ?es = "es @ [\<lparr>ex_domain = dm, ex_enabled = True\<rparr>]"
  have dist: "distinct (map ex_domain ?es)" using assms(1,2) by (auto simp: px_ok_def ex_map_None)
  then have "distinct (map ex_domain (sort_key ex_domain ?es))" unfolding distinct_sort_domain .
  then show "px_ok uni (sort_key ex_domain ?es)"
    using assms(1,3) by (auto simp: px_ok_def list_all_iff)
  have "ex_map ?es = (ex_map es)(dm \<mapsto> True)"
  proof
    fix k show "ex_map ?es k = ((ex_map es)(dm \<mapsto> True)) k"
      using assms(2) by (auto simp: ex_map_def map_add_def split: option.splits)
  qed
  then show "ex_map (sort_key ex_domain ?es) = (ex_map es)(dm \<mapsto> True)" using ex_map_sort [OF dist] by simp
qed

lemma ok_remove:
  "px_ok uni es \<Longrightarrow> px_ok uni (filter (\<lambda>e. ex_domain e \<noteq> dm) es)"
  "ex_map (filter (\<lambda>e. ex_domain e \<noteq> dm) es) = (ex_map es)(dm := None)"
proof -
  assume ok: "px_ok uni es"
  have "map ex_domain (filter (\<lambda>e. ex_domain e \<noteq> dm) es) = filter (\<lambda>k. k \<noteq> dm) (map ex_domain es)"
    by (induction es) auto
  then show "px_ok uni (filter (\<lambda>e. ex_domain e \<noteq> dm) es)"
    using ok by (auto simp: px_ok_def list_all_iff sorted_wrt_filter simp del: filter_map)
next
  show "ex_map (filter (\<lambda>e. ex_domain e \<noteq> dm) es) = (ex_map es)(dm := None)"
    by (induction es) (auto simp: ex_map_def fun_eq_iff)
qed

lemma ok_switch:
  assumes "px_ok uni es" and es'_def: "es' = update_first (\<lambda>e. ex_domain e = dm) (\<lambda>e. e\<lparr>ex_enabled := b\<rparr>) es"
  shows "px_ok uni es'" "ex_map es dm \<noteq> None \<Longrightarrow> ex_map es' = (ex_map es)(dm \<mapsto> b)"
proof -
  have "map ex_domain es' = map ex_domain es" unfolding es'_def by (induction es) auto
  moreover have "list_all (px_valid uni) es \<Longrightarrow> list_all (px_valid uni) es'"
    unfolding es'_def by (induction es) (auto simp: px_valid_def Let_def)
  ultimately show "px_ok uni es'" using assms(1) by (simp add: px_ok_def)
  have "distinct (map ex_domain es) \<Longrightarrow> ex_map es dm \<noteq> None \<Longrightarrow> ex_map es' = (ex_map es)(dm \<mapsto> b)"
    unfolding es'_def
    by (induction es) (auto simp: ex_map_def fun_eq_iff)
  then show "ex_map es dm \<noteq> None \<Longrightarrow> ex_map es' = (ex_map es)(dm \<mapsto> b)" using assms(1) by (simp add: px_ok_def)
qed

section \<open>Commands\<close>

definition command_ok :: "(string \<Rightarrow> string) \<Rightarrow> exclusion_command \<Rightarrow> bool" where
  "command_ok uni c \<longleftrightarrow>
     (case c of ExAdd dm \<Rightarrow> px_valid uni \<lparr>ex_domain = px_normalize uni dm, ex_enabled = True\<rparr> | _ \<Rightarrow> True)"

text \<open>Every command is one \<open>mutate\<close> whose new entries keep the invariant and do what the
  specification says.\<close>

lemma run_exclusion_mutate:
  assumes "run_exclusion uni c s d = (Inr msg, s', d')" "px_ok uni (entries s)" "command_ok uni c"
  obtains f :: "exclusion list \<Rightarrow> bool \<times> exclusion list \<times> bool" and out
  where "mutate (px_entry uni) f s d = (Inr out, s', d')"
    "px_ok uni (entries s')" "ex_map (entries s') = spec_exclusion uni c (ex_map (entries s))"
proof (cases c)
  case (ExAdd dm)
  let ?dm = "px_normalize uni dm"
  let ?f = "\<lambda>es. if list_ex (\<lambda>e. ex_domain e = ?dm) es then (True, es, False)
    else (True, sort_key ex_domain (es @ [\<lparr>ex_domain = ?dm, ex_enabled = True\<rparr>]), True)"
  have m: "mutate (px_entry uni) ?f s d = (Inr True, s', d')"
    using assms(1) ExAdd
    by (auto simp: run_exclusion_def px_add_def Let_def mutate_def map_err_def and_then_def
        split: prod.splits sum.splits if_splits)
  have v: "px_valid uni \<lparr>ex_domain = ?dm, ex_enabled = True\<rparr>" using assms(3) ExAdd by (simp add: command_ok_def)
  have known: "list_ex (\<lambda>e. ex_domain e = ?dm) (entries s) \<longleftrightarrow> ex_map (entries s) ?dm \<noteq> None"
    by (auto simp: list_ex_iff ex_map_None)
  have "px_ok uni (entries s') \<and> ex_map (entries s') = spec_exclusion uni c (ex_map (entries s))"
  proof (cases "ex_map (entries s) ?dm")
    case None
    then have "entries s' = sort_key ex_domain (entries s @ [\<lparr>ex_domain = ?dm, ex_enabled = True\<rparr>])"
      using mutate_cases(4) [OF m, of True _ True] known by simp
    then show ?thesis using ok_add [OF assms(2) None v] None ExAdd by (simp add: spec_exclusion_def)
  next
    case (Some b)
    then have "entries s' = entries s" using mutate_cases(4) [OF m, of True _ False] known by simp
    then show ?thesis using assms(2) Some ExAdd by (simp add: spec_exclusion_def)
  qed
  then show thesis using that [OF m] by blast
next
  case (ExDelete dm)
  let ?dm = "px_normalize uni dm"
  let ?kept = "filter (\<lambda>e. ex_domain e \<noteq> ?dm)"
  let ?f = "\<lambda>es. let kept = ?kept es; removed = (length kept \<noteq> length es) in (removed, kept, removed)"
  obtain out where m: "mutate (px_entry uni) ?f s d = (Inr out, s', d')"
    using assms(1) ExDelete
    by (auto simp: run_exclusion_def px_remove_def Let_def map_err_def and_then_def split: prod.splits sum.splits)
  have "?kept (entries s) = entries s" if "length (?kept (entries s)) = length (entries s)"
    using that by (metis (mono_tags, lifting) filter_id_conv length_filter_less less_irrefl)
  moreover have "?f (entries s) = (length (?kept (entries s)) \<noteq> length (entries s), ?kept (entries s),
      length (?kept (entries s)) \<noteq> length (entries s))" by (simp add: Let_def)
  note mutate_cases(4) [OF m this refl]
  ultimately have "entries s' = ?kept (entries s)" by auto
  then show thesis using that [OF m] ok_remove(1) [OF assms(2), of ?dm] ok_remove(2) [of ?dm "entries s"] ExDelete by (simp add: spec_exclusion_def)
next
  case (ExSetEnabled dm b)
  let ?dm = "px_normalize uni dm"
  let ?upd = "update_first (\<lambda>e. ex_domain e = ?dm) (\<lambda>e. e\<lparr>ex_enabled := b\<rparr>)"
  let ?f = "\<lambda>es. case find (\<lambda>e. ex_domain e = ?dm) es of
      Some e \<Rightarrow> if ex_enabled e \<noteq> b then (True, ?upd es, True) else (True, es, False)
    | None \<Rightarrow> (False, es, False)"
  obtain out where m: "mutate (px_entry uni) ?f s d = (Inr out, s', d')"
    using assms(1) ExSetEnabled
    by (auto simp: run_exclusion_def px_set_enabled_def Let_def map_err_def and_then_def split: prod.splits sum.splits)
  have "px_ok uni (entries s') \<and> ex_map (entries s') = spec_exclusion uni c (ex_map (entries s))"
  proof (cases "find (\<lambda>e. ex_domain e = ?dm) (entries s)")
    case None
    then have "entries s' = entries s" using mutate_cases(4) [OF m, of False _ False] by simp
    then show ?thesis using None assms(2) ExSetEnabled by (simp add: spec_exclusion_def ex_map_find [of _ ?dm])
  next
    case (Some e)
    then have known: "ex_map (entries s) ?dm = Some (ex_enabled e)" by (simp add: ex_map_find)
    show ?thesis
    proof (cases "ex_enabled e = b")
      case True
      then have "entries s' = entries s" using mutate_cases(4) [OF m, of True _ False] Some by simp
      then show ?thesis using known True assms(2) ExSetEnabled by (simp add: spec_exclusion_def fun_upd_idem)
    next
      case False
      then have "entries s' = ?upd (entries s)" using mutate_cases(4) [OF m, of True _ True] Some by simp
      then show ?thesis using ok_switch [OF assms(2) refl, of ?dm b] known ExSetEnabled by (simp add: spec_exclusion_def)
    qed
  qed
  then show thesis using that [OF m] by blast
qed

lemma px_header_comments: "list_all comment_line px_header_lines" "px_header_lines \<noteq> []"
  by (simp_all add: px_header_lines_def comment_line_def)

lemma dedup_distinct: "distinct (map k xs) \<Longrightarrow> dedup_key k xs = xs"
  by (induction k xs rule: dedup_key.induct) auto

lemma px_norm_id: "px_ok uni es \<Longrightarrow> dedup_key ex_domain (sort_key ex_domain es) = es"
  by (simp add: px_ok_def sort_key_id_if_sorted dedup_distinct)


definition blank_disk :: disk where
  "blank_disk = \<lparr>files = Map.empty, mkdir_fault = Map.empty, write_fault = Map.empty, remove_fault = Map.empty\<rparr>"

definition sample_exclusions :: exclusion_store where
  "sample_exclusions = px_load id (''d'', ''excluded-domains.conf'') blank_disk"


text \<open>a domain added with a leading exclamation mark bypasses inspection only until the next start:
  its line reads back as a parked entry for another domain.\<close>

theorem bang_domain_parked_by_restart:
  assumes "healthy d (file_path s)" "entries s = []" "file_header s = join [CHR 0x0A] px_header_lines"
  shows "case run_exclusion uni (ExAdd ''!a.test'') s d of (r, s', d') \<Rightarrow>
    px_matching s' ''!a.test'' = Some ''!a.test'' \<and>
    entries (px_load uni (file_path s) d') = [\<lparr>ex_domain = ''a.test'', ex_enabled = False\<rparr>]"
proof -
  let ?e = "\<lparr>ex_domain = ''!a.test'', ex_enabled = True\<rparr>" and ?f = "\<lparr>ex_domain = ''a.test'', ex_enabled = False\<rparr>"
  have n: "px_normalize uni ''!a.test'' = ''!a.test''" by code_simp
  have b: "set_body (px_entry uni) (join [CHR 0x0A] px_header_lines) [?e] =
      set_body (px_entry uni) (join [CHR 0x0A] px_header_lines) [?f]"
    by (simp add: set_body_def px_entry_def px_format_def)
  have "px_valid uni ?f" by code_simp
  then have rb: "parse_lines (px_entry uni) (set_body (px_entry uni) (join [CHR 0x0A] px_header_lines) [?e]) = [?f]"
    unfolding b by (intro px.body_round_trip) (simp_all add: px_header_comments)
  have m: "px_matching (s\<lparr>entries := [?e]\<rparr>) ''!a.test'' = Some ''!a.test''" by (simp add: px_matching_def covers_def)
  show ?thesis
    using assms rb m
    by (simp add: run_exclusion_def px_add_def n Let_def mutate_def persist_def map_err_def and_then_def px_load_def load_set_def
        read_to_string_def)
qed

theorem bang_domain_parked_by_restart_witness:
  "entries (px_load id (''d'', ''excluded-domains.conf'')
     (snd (snd (run_exclusion id (ExAdd ''!a.test'') sample_exclusions blank_disk))))
   = [\<lparr>ex_domain = ''a.test'', ex_enabled = False\<rparr>]"
proof -
  have "healthy blank_disk (file_path sample_exclusions)" by (simp add: healthy_def blank_disk_def)
  moreover have "entries sample_exclusions = []" by code_simp
  moreover have "file_header sample_exclusions = join [CHR 0x0A] px_header_lines"
    "file_path sample_exclusions = (''d'', ''excluded-domains.conf'')"
    by (simp_all add: sample_exclusions_def px_load_def load_set_def)
  ultimately show ?thesis
    using bang_domain_parked_by_restart [of blank_disk sample_exclusions id] by (auto split: prod.splits)
qed

end
