(* ===== verification/Adblock_Rewrite.thy ===== *)
theory Adblock_Rewrite
  imports Http
begin

text \<open>
  \<open>adblock/rewrite.rs\<close>: splicing a style sheet and a script into a page, and reading the class and id
  names a page carries. A page is the list of its bytes.
\<close>

section \<open>Searching\<close>

text \<open>The first position whose suffix satisfies a predicate.\<close>

fun find_suffix :: "(string \<Rightarrow> bool) \<Rightarrow> string \<Rightarrow> nat option" where
  "find_suffix p [] = (if p [] then Some 0 else None)"
| "find_suffix p (c # s) = (if p (c # s) then Some 0 else map_option Suc (find_suffix p s))"

definition starts_ic :: "string \<Rightarrow> string \<Rightarrow> bool" where
  "starts_ic n s \<longleftrightarrow> length n \<le> length s \<and> eq_ignore_ascii_case (take (length n) s) n"

definition find_ascii :: "string \<Rightarrow> string \<Rightarrow> nat \<Rightarrow> nat option" where
  "find_ascii haystack needle from =
     (if length haystack < from then None
      else map_option (\<lambda>p. from + p) (find_suffix (starts_ic needle) (drop from haystack)))"

section \<open>Injection\<close>

definition MAX_EDIT_BYTES :: nat where
  "MAX_EDIT_BYTES = 4 * 1024 * 1024"

definition CSP_HEADERS :: "string list" where
  "CSP_HEADERS = [''content-security-policy'', ''content-security-policy-report-only'']"

definition response_is_editable :: "'h header_ops \<Rightarrow> nat \<Rightarrow> 'h \<Rightarrow> bool" where
  "response_is_editable H status h \<longleftrightarrow>
     200 \<le> status \<and> status < 300 \<and>
     eq_ignore_ascii_case (trim (hd (split CHR '';'' (unwrap_or (header_str H ''content-type'' h) [])))) ''text/html'' \<and>
     \<not> contains_key H ''content-encoding'' h"

definition style_tag :: "string \<Rightarrow> string" where
  "style_tag css = ''<style type=\"text/css\">'' @ css @ ''</style>''"

definition script_tag :: "string \<Rightarrow> string" where
  "script_tag script =
     ''<script>try{'' @ [CHR 0x0A] @ script @ [CHR 0x0A] @ ''}catch(e){}document.currentScript.remove()</script>''"

text \<open>Each splice returns the output so far and the position up to which the page is copied.\<close>

definition splice_script :: "string \<Rightarrow> string \<Rightarrow> string \<times> nat" where
  "splice_script html tag =
     (case Option.bind (find_ascii html ''<head'' 0) (\<lambda>h. map_option (\<lambda>g. g + 1) (find_ascii html ''>'' h)) of
        Some p \<Rightarrow> (take p html @ tag, p)
      | None \<Rightarrow> (tag, 0))"

definition splice_style :: "string \<Rightarrow> string \<Rightarrow> string \<times> nat \<Rightarrow> string \<times> nat" where
  "splice_style html style oc =
     (case oc of (out, cursor) \<Rightarrow>
        (case or_else (find_ascii html ''</head>'' cursor) (find_ascii html ''</body>'' cursor) of
           Some p \<Rightarrow> (out @ take (p - cursor) (drop cursor html) @ style, p)
         | None \<Rightarrow> (out @ style, cursor)))"

definition inject_into_html :: "string \<Rightarrow> string \<Rightarrow> string \<Rightarrow> string option" where
  "inject_into_html html css script =
     (if css = [] \<and> script = [] then None
      else let oc1 = (if script \<noteq> [] then splice_script html (script_tag script) else ([], 0));
               oc2 = (if css \<noteq> [] then splice_style html (style_tag css) oc1 else oc1)
           in Some (fst oc2 @ drop (snd oc2) html))"

section \<open>Class and id names\<close>

datatype name_attr = ClassAttr | IdAttr

fun attr_text :: "name_attr \<Rightarrow> string" where
  "attr_text ClassAttr = ''class''"
| "attr_text IdAttr = ''id''"

definition is_ascii_whitespace :: "char \<Rightarrow> bool" where
  "is_ascii_whitespace c \<longleftrightarrow> code c = 9 \<or> code c = 10 \<or> code c = 12 \<or> code c = 13 \<or> code c = 32"

fun split_ascii_ws :: "string \<Rightarrow> string \<Rightarrow> string list" where
  "split_ascii_ws acc [] = (if acc = [] then [] else [rev acc])"
| "split_ascii_ws acc (c # s) =
     (if is_ascii_whitespace c then (if acc = [] then [] else [rev acc]) @ split_ascii_ws [] s
      else split_ascii_ws (c # acc) s)"

text \<open>The quoted value right after an attribute name.\<close>

definition attr_value :: "string \<Rightarrow> string option" where
  "attr_value rest =
     (case rest of
        e # q # v \<Rightarrow>
          if e = CHR ''='' \<and> (q = CHR 0x22 \<or> q = CHR 0x27) then map_option fst (split_once q v) else None
      | _ \<Rightarrow> None)"

definition attr_names :: "name_attr \<Rightarrow> string \<Rightarrow> string set" where
  "attr_names a v = (case a of
       ClassAttr \<Rightarrow> set (split_ascii_ws [] v)
     | IdAttr \<Rightarrow> if v = [] then {} else {v})"

definition names_at :: "name_attr \<Rightarrow> string \<Rightarrow> nat \<Rightarrow> string set" where
  "names_at a html start =
     (if \<not> (0 < start \<and> is_ascii_whitespace (to_ascii_lowercase html ! (start - 1))) then {}
      else case attr_value (drop (start + length (attr_text a)) html) of
        None \<Rightarrow> {} | Some v \<Rightarrow> attr_names a v)"

lemma find_suffix_bound: "find_suffix p s = Some i \<Longrightarrow> i \<le> length s \<and> p (drop i s)"
  by (induction s arbitrary: i) (auto split: if_splits)

lemma find_suffix_first: "find_suffix p s = Some i \<Longrightarrow> j < i \<Longrightarrow> \<not> p (drop j s)"
proof (induction s arbitrary: i j)
  case (Cons c s)
  then show ?case by (cases j) (auto split: if_splits)
qed (auto split: if_splits)

lemma find_suffix_None: "find_suffix p s = None \<Longrightarrow> \<not> p (drop j s)"
proof (induction s arbitrary: j)
  case (Cons c s)
  then show ?case by (cases j) (auto split: if_splits)
qed (auto split: if_splits)

lemma attr_text_ne [simp]: "attr_text a \<noteq> []" "0 < length (attr_text a)"
  by (cases a; simp)+

function scan_attr :: "name_attr \<Rightarrow> string \<Rightarrow> nat \<Rightarrow> string set \<Rightarrow> string set" where
  "scan_attr a html from out =
     (let f = find_suffix (starts_with (attr_text a)) (drop from (to_ascii_lowercase html)) in
      if f = None then out
      else scan_attr a html (from + the f + length (attr_text a)) (out \<union> names_at a html (from + the f)))"
  by pat_completeness auto
termination
proof (relation "measure (\<lambda>(_, html, i, _). length html - i)")
  fix a :: name_attr and html :: string and i :: nat and out :: "string set" and f
  assume "f = find_suffix (starts_with (attr_text a)) (drop i (to_ascii_lowercase html))" "f \<noteq> None"
  then have "starts_with (attr_text a) (drop (the f) (drop i (to_ascii_lowercase html)))"
    by (metis find_suffix_bound option.collapse)
  then have "length (attr_text a) \<le> length html - (i + the f)"
    by (auto simp: starts_with_iff dest!: arg_cong [where f = length])
  moreover obtain n where "length (attr_text a) = Suc n" by (cases a) auto
  ultimately show "((a, html, i + the f + length (attr_text a), out \<union> names_at a html (i + the f)), a, html, i, out)
      \<in> measure (\<lambda>(_, html, i, _). length html - i)"
    by auto
qed simp

declare scan_attr.simps [simp del]

definition html_classes_and_ids :: "string \<Rightarrow> string set \<times> string set" where
  "html_classes_and_ids html = (scan_attr ClassAttr html 0 {}, scan_attr IdAttr html 0 {})"

section \<open>The live-DOM script and rewritten URIs\<close>

text \<open>\<open>template\<close> is the text of \<open>cosmetic_runtime.js\<close>.\<close>

fun replace_all :: "string \<Rightarrow> string \<Rightarrow> nat \<Rightarrow> string \<Rightarrow> string" where
  "replace_all old new k [] = []"
| "replace_all old new 0 (c # s) =
     (if starts_with old (c # s) then new @ replace_all old new (length old - 1) s
      else c # replace_all old new 0 s)"
| "replace_all old new (Suc k) (c # s) = replace_all old new k s"

definition str_replace :: "string \<Rightarrow> string \<Rightarrow> string \<Rightarrow> string" where
  "str_replace old new s = replace_all old new 0 s"

definition endpoint :: "string \<Rightarrow> string \<Rightarrow> string \<Rightarrow> string" where
  "endpoint template host port =
     str_replace ''__COSMETIC_ENDPOINT__'' (''http://'' @ host @ '':'' @ port @ ''/api/cosmetic'') template"

definition trim_brackets :: "string \<Rightarrow> string" where
  "trim_brackets s =
     (let b = (\<lambda>c. c = CHR ''['' \<or> c = CHR '']'') in rev (dropWhile b (rev (dropWhile b s))))"

definition cosmetic_runtime :: "string \<Rightarrow> string \<Rightarrow> string option" where
  "cosmetic_runtime template admin_listen =
     (let addr = trim admin_listen in
      if addr = [] then None
      else let port = last (split CHR '':'' addr) in
        if port = [] then None
        else case map_option (trim_brackets \<circ> fst) (rsplit_once CHR '':'' addr) of
          None \<Rightarrow> Some (endpoint template ''127.0.0.1'' port)
        | Some h \<Rightarrow>
            if h = ''0.0.0.0'' \<or> h = ''::'' \<or> h = [] then Some (endpoint template ''127.0.0.1'' port)
            else if contains_char CHR '':'' h then Some (endpoint template (''['' @ h @ '']'') port)
            else Some (endpoint template h port))"

definition rewrite_uri :: "'u uri_ops \<Rightarrow> 'u \<Rightarrow> string \<Rightarrow> 'u option" where
  "rewrite_uri U original clean =
     Option.bind (parse_uri U clean) (\<lambda>u.
       if has_authority U original then Some u
       else Option.bind (path_and_query U u) (parse_uri U))"

section \<open>Where the splices go\<close>

lemma find_ascii_Some:
  assumes "find_ascii h n i = Some p"
  shows "i \<le> p" "p \<le> length h" "starts_ic n (drop p h)" "\<And>j. i \<le> j \<Longrightarrow> j < p \<Longrightarrow> \<not> starts_ic n (drop j h)"
proof -
  obtain q where q: "find_suffix (starts_ic n) (drop i h) = Some q" "p = i + q" "i \<le> length h"
    using assms by (auto simp: find_ascii_def split: if_splits)
  show "i \<le> p" "p \<le> length h" "starts_ic n (drop p h)"
    using find_suffix_bound [OF q(1)] q(2,3) by (auto simp: add.commute)
  show "\<not> starts_ic n (drop j h)" if "i \<le> j" "j < p" for j
    using find_suffix_first [OF q(1), of "j - i"] that q(2) by auto
qed

lemma find_ascii_None: "find_ascii h n i = None \<Longrightarrow> i \<le> j \<Longrightarrow> j \<le> length h \<Longrightarrow> \<not> starts_ic n (drop j h)"
  using find_suffix_None [of "starts_ic n" "drop i h" "j - i"] by (auto simp: find_ascii_def split: if_splits)

lemma starts_ic_length: "starts_ic n s \<Longrightarrow> length n \<le> length s"
  by (simp add: starts_ic_def)

text \<open>Where a script goes: right after the first opening head tag, or in front of everything.\<close>

definition script_place :: "string \<Rightarrow> nat \<Rightarrow> bool" where
  "script_place html p \<longleftrightarrow>
     p = 0 \<or> (\<exists>h < p. starts_ic ''<head'' (drop h html) \<and> (\<forall>j < h. \<not> starts_ic ''<head'' (drop j html)) \<and>
       starts_ic ''>'' (drop (p - 1) html) \<and> (\<forall>j. h \<le> j \<longrightarrow> j < p - 1 \<longrightarrow> \<not> starts_ic ''>'' (drop j html)))"

text \<open>Where a style sheet goes: before the first closing head tag from a position on, before the
  first closing body tag if there is none, or at that position if there is neither.\<close>

definition style_place :: "string \<Rightarrow> nat \<Rightarrow> nat \<Rightarrow> bool" where
  "style_place html p q \<longleftrightarrow>
     starts_ic ''</head>'' (drop q html) \<and> (\<forall>j. p \<le> j \<longrightarrow> j < q \<longrightarrow> \<not> starts_ic ''</head>'' (drop j html)) \<or>
     (\<forall>j \<ge> p. j \<le> length html \<longrightarrow> \<not> starts_ic ''</head>'' (drop j html)) \<and>
     (starts_ic ''</body>'' (drop q html) \<and> (\<forall>j. p \<le> j \<longrightarrow> j < q \<longrightarrow> \<not> starts_ic ''</body>'' (drop j html)) \<or>
      q = p \<and> (\<forall>j \<ge> p. j \<le> length html \<longrightarrow> \<not> starts_ic ''</body>'' (drop j html)))"

lemma splice_script_place:
  assumes "splice_script html tag = (out, p)"
  shows "p \<le> length html \<and> out = take p html @ tag \<and> script_place html p"
proof (cases "Option.bind (find_ascii html ''<head'' 0) (\<lambda>h. map_option (\<lambda>g. g + 1) (find_ascii html ''>'' h))")
  case None
  with assms show ?thesis by (simp add: splice_script_def script_place_def)
next
  case (Some r)
  then obtain h g where hg: "find_ascii html ''<head'' 0 = Some h" "find_ascii html ''>'' h = Some g" "r = g + 1"
    by (auto simp: bind_eq_Some_conv)
  have "p = g + 1" "out = take p html @ tag" using assms Some hg(3) by (auto simp: splice_script_def)
  moreover have "g + 1 \<le> length html"
    using starts_ic_length [OF find_ascii_Some(3) [OF hg(2)]] by simp
  moreover have "script_place html (g + 1)"
    unfolding script_place_def
    using find_ascii_Some [OF hg(1)] find_ascii_Some [OF hg(2)] by (intro disjI2 exI [of _ h]) auto
  ultimately show ?thesis by simp
qed

lemma splice_style_place:
  assumes "splice_style html style (out, c) = (out', q)" "c \<le> length html"
  shows "c \<le> q \<and> q \<le> length html \<and> out' = out @ take (q - c) (drop c html) @ style \<and> style_place html c q"
proof (cases "find_ascii html ''</head>'' c")
  case (Some p)
  with assms find_ascii_Some [OF Some] show ?thesis by (auto simp: splice_style_def style_place_def)
next
  case None
  note no_head = find_ascii_None [OF None]
  show ?thesis
  proof (cases "find_ascii html ''</body>'' c")
    case (Some p)
    with assms None find_ascii_Some [OF Some] no_head show ?thesis by (auto simp: splice_style_def style_place_def)
  next
    case no_body: None
    with assms None find_ascii_None [OF no_body] no_head show ?thesis by (auto simp: splice_style_def style_place_def)
  qed
qed

section \<open>What the scan finds\<close>

lemma attr_no_overlap:
  "starts_with (attr_text a) s \<Longrightarrow> 0 < k \<Longrightarrow> k < length (attr_text a) \<Longrightarrow> \<not> starts_with (attr_text a) (drop k s)"
  by (cases a) (auto simp: starts_with_iff less_Suc_eq numeral_eq_Suc)

definition attr_at :: "name_attr \<Rightarrow> string \<Rightarrow> nat \<Rightarrow> bool" where
  "attr_at a html j \<longleftrightarrow> starts_with (attr_text a) (drop j (to_ascii_lowercase html))"

lemma scan_attr_names:
  "scan_attr a html i out = out \<union> (\<Union>j \<in> {j. i \<le> j \<and> attr_at a html j}. names_at a html j)"
proof (induction a html i out rule: scan_attr.induct)
  case (1 a html i out)
  let ?f = "find_suffix (starts_with (attr_text a)) (drop i (to_ascii_lowercase html))"
  show ?case
  proof (cases ?f)
    case None
    have "\<not> attr_at a html j" if "i \<le> j" for j
      using find_suffix_None [OF None, of "j - i"] that by (simp add: attr_at_def)
    with None show ?thesis by (subst scan_attr.simps) (auto simp: Let_def)
  next
    case (Some p)
    have at: "attr_at a html (i + p)"
      using find_suffix_bound [OF Some] by (simp add: attr_at_def add.commute)
    have before: "\<not> attr_at a html j" if "i \<le> j" "j < i + p" for j
      using find_suffix_first [OF Some, of "j - i"] that by (simp add: attr_at_def less_diff_conv2 add.commute)
    have inside: "\<not> attr_at a html j" if "i + p < j" "j < i + p + length (attr_text a)" for j
      using attr_no_overlap [of a "drop (i + p) (to_ascii_lowercase html)" "j - (i + p)"] at that
      by (simp add: attr_at_def)
    have "{j. i \<le> j \<and> attr_at a html j} = insert (i + p) {j. i + p + length (attr_text a) \<le> j \<and> attr_at a html j}"
      using at before inside by (auto simp: not_le) (metis linorder_neqE_nat not_less)
    with 1 [OF refl] Some show ?thesis by (subst scan_attr.simps) (auto simp: Let_def)
  qed
qed

lemma ascii_ws_lower [simp]: "is_ascii_whitespace (ascii_lower c) = is_ascii_whitespace c"
  by (auto simp: is_ascii_whitespace_def code_ascii_lower is_ascii_upper_def)

lemma attr_text_lower: "to_ascii_lowercase (attr_text a) = attr_text a"
proof -
  have "to_ascii_lowercase ''class'' = ''class''" "to_ascii_lowercase ''id'' = ''id''" by code_simp+
  then show ?thesis by (cases a) simp_all
qed

lemma attr_at_iff:
  "attr_at a html j \<longleftrightarrow> (\<exists>pre att post. html = pre @ att @ post \<and> length pre = j \<and> eq_ignore_ascii_case att (attr_text a))"
proof
  assume "attr_at a html j"
  then obtain r where r: "drop j (to_ascii_lowercase html) = attr_text a @ r"
    by (auto simp: attr_at_def starts_with_iff)
  let ?n = "length (attr_text a)"
  have "j \<le> length html"
    using arg_cong [OF r, of length] by (cases a) auto
  moreover have "to_ascii_lowercase (take ?n (drop j html)) = attr_text a"
    using arg_cong [OF r, of "take ?n"] by (simp add: to_ascii_lowercase_def take_map drop_map)
  ultimately show "\<exists>pre att post. html = pre @ att @ post \<and> length pre = j \<and> eq_ignore_ascii_case att (attr_text a)"
    by (intro exI [of _ "take j html"] exI [of _ "take ?n (drop j html)"] exI [of _ "drop ?n (drop j html)"])
      (simp add: eq_ignore_ascii_case_def attr_text_lower del: drop_drop)
next
  assume "\<exists>pre att post. html = pre @ att @ post \<and> length pre = j \<and> eq_ignore_ascii_case att (attr_text a)"
  then show "attr_at a html j"
    using attr_text_lower [of a]
    by (auto simp: attr_at_def eq_ignore_ascii_case_def to_ascii_lowercase_def starts_with_iff)
qed

lemma attr_value_iff:
  "attr_value rest = Some v \<longleftrightarrow>
     (\<exists>q post. rest = CHR ''='' # q # v @ q # post \<and> (q = CHR 0x22 \<or> q = CHR 0x27) \<and> q \<notin> set v)"
  by (auto simp: attr_value_def split_once_Some split: list.splits if_splits)

lemma eq_ic_length: "eq_ignore_ascii_case a b \<Longrightarrow> length a = length b"
  by (metis eq_ignore_ascii_case_def length_to_ascii_lowercase)

lemma scan_attr_iff:
  "c \<in> scan_attr a html 0 {} \<longleftrightarrow>
     (\<exists>pre w att q v post. html = pre @ w # att @ CHR ''='' # q # v @ q # post \<and> is_ascii_whitespace w \<and>
        eq_ignore_ascii_case att (attr_text a) \<and> (q = CHR 0x22 \<or> q = CHR 0x27) \<and> q \<notin> set v \<and> c \<in> attr_names a v)"
    (is "?l \<longleftrightarrow> ?r")
proof
  assume ?l
  then obtain j where j: "attr_at a html j" "c \<in> names_at a html j" by (auto simp: scan_attr_names)
  then obtain pre att post where h: "html = pre @ att @ post" "length pre = j" "eq_ignore_ascii_case att (attr_text a)"
    by (auto simp: attr_at_iff)
  have len: "length att = length (attr_text a)" using eq_ic_length [OF h(3)] .
  from j(2) obtain v where v: "0 < j" "is_ascii_whitespace (to_ascii_lowercase html ! (j - 1))"
    "attr_value (drop (j + length (attr_text a)) html) = Some v" "c \<in> attr_names a v"
    by (auto simp: names_at_def split: if_splits option.splits)
  obtain pre' w where pre: "pre = pre' @ [w]" using v(1) h(2) by (cases pre rule: rev_cases) auto
  have "is_ascii_whitespace w"
    using v(2) h(2) pre by (auto simp: h(1) to_ascii_lowercase_def nth_append)
  moreover have "drop (j + length (attr_text a)) html = post" using h(2) len by (simp add: h(1))
  then obtain q rest where "post = CHR ''='' # q # v @ q # rest" "q = CHR 0x22 \<or> q = CHR 0x27" "q \<notin> set v"
    using v(3) by (auto simp: attr_value_iff)
  ultimately show ?r using h(1,3) v(4) pre by (simp, blast)
next
  assume ?r
  then obtain pre w att q v post where h: "html = pre @ w # att @ CHR ''='' # q # v @ q # post" "is_ascii_whitespace w"
    "eq_ignore_ascii_case att (attr_text a)" "q = CHR 0x22 \<or> q = CHR 0x27" "q \<notin> set v" "c \<in> attr_names a v"
    by blast
  let ?j = "length (pre @ [w])"
  have "attr_at a html ?j"
    unfolding attr_at_iff using h(1,3)
    by (intro exI [of _ "pre @ [w]"] exI [of _ att] exI [of _ "CHR ''='' # q # v @ q # post"]) simp
  moreover have "attr_value (drop (?j + length (attr_text a)) html) = Some v"
    using h(4,5) eq_ic_length [OF h(3)] by (auto simp: h(1) attr_value_iff)
  then have "c \<in> names_at a html ?j"
    using h(2,6) by (simp add: names_at_def h(1) to_ascii_lowercase_def nth_append)
  ultimately show ?l by (auto simp: scan_attr_names)
qed

section \<open>Properties\<close>

text \<open>C30: injection changes nothing of a page but what it inserts. The result is the page with the script
  element at one place and the style element at the same or a later one, in that order; the script
  stands right after the opening head tag (or first of all), the style sheet before the closing head
  or body tag (or right after the script). Only if there is nothing to insert is the page left alone.\<close>

theorem injection_keeps_page:
  "(inject_into_html html css script = None \<longleftrightarrow> css = [] \<and> script = []) \<and>
   (\<forall>out. inject_into_html html css script = Some out \<longrightarrow>
     (\<exists>p q. p \<le> q \<and> q \<le> length html \<and>
        out = take p html @ (if script = [] then [] else script_tag script) @ take (q - p) (drop p html) @
          (if css = [] then [] else style_tag css) @ drop q html \<and>
        (script \<noteq> [] \<longrightarrow> script_place html p) \<and> (script = [] \<longrightarrow> p = 0) \<and>
        (css \<noteq> [] \<longrightarrow> style_place html p q) \<and> (css = [] \<longrightarrow> q = p)))"
proof (intro conjI allI impI)
  show "inject_into_html html css script = None \<longleftrightarrow> css = [] \<and> script = []"
    by (simp add: inject_into_html_def Let_def)
  fix out
  assume out: "inject_into_html html css script = Some out"
  obtain o1 p where s1: "(if script \<noteq> [] then splice_script html (script_tag script) else ([], 0)) = (o1, p)"
    by fastforce
  obtain o2 q where s2: "(if css \<noteq> [] then splice_style html (style_tag css) (o1, p) else (o1, p)) = (o2, q)"
    by fastforce
  have p: "p \<le> length html \<and> o1 = take p html @ (if script = [] then [] else script_tag script) \<and>
      (script \<noteq> [] \<longrightarrow> script_place html p) \<and> (script = [] \<longrightarrow> p = 0)"
    using s1 splice_script_place [of html "script_tag script" o1 p] by (cases "script = []") auto
  have q: "p \<le> q \<and> q \<le> length html \<and> o2 = o1 @ take (q - p) (drop p html) @ (if css = [] then [] else style_tag css) \<and>
      (css \<noteq> [] \<longrightarrow> style_place html p q) \<and> (css = [] \<longrightarrow> q = p)"
    using s2 p splice_style_place [of html "style_tag css" o1 p o2 q] by (cases "css = []") auto
  have "out = o2 @ drop q html" using out s1 s2 by (auto simp: inject_into_html_def Let_def split: if_splits)
  with p q show "\<exists>p q. p \<le> q \<and> q \<le> length html \<and>
        out = take p html @ (if script = [] then [] else script_tag script) @ take (q - p) (drop p html) @
          (if css = [] then [] else style_tag css) @ drop q html \<and>
        (script \<noteq> [] \<longrightarrow> script_place html p) \<and> (script = [] \<longrightarrow> p = 0) \<and>
        (css \<noteq> [] \<longrightarrow> style_place html p q) \<and> (css = [] \<longrightarrow> q = p)"
    by (intro exI [of _ p] exI [of _ q]) simp
qed

theorem injection_keeps_page_witness:
  "\<exists>p q. p \<le> q \<and> inject_into_html ''<HEAD></HEAD>'' ''a{}'' ''f()'' =
     Some (take p ''<HEAD></HEAD>'' @ script_tag ''f()'' @ take (q - p) (drop p ''<HEAD></HEAD>'') @ style_tag ''a{}'' @
       drop q ''<HEAD></HEAD>'')"
proof -
  obtain out where o: "inject_into_html ''<HEAD></HEAD>'' ''a{}'' ''f()'' = Some out"
    by (simp add: inject_into_html_def Let_def)
  then show ?thesis
    using injection_keeps_page [of "''<HEAD></HEAD>''" "''a{}''" "''f()''"] by auto
qed

text \<open>the scan of a page for class and id names finds exactly the names standing in a quoted
  attribute of that name, in any case, after whitespace: nothing is missed and nothing is made up.\<close>

theorem page_names_exact:
  "(c \<in> fst (html_classes_and_ids html) \<longleftrightarrow>
     (\<exists>pre w att q v post. html = pre @ w # att @ CHR ''='' # q # v @ q # post \<and> is_ascii_whitespace w \<and>
        eq_ignore_ascii_case att ''class'' \<and> (q = CHR 0x22 \<or> q = CHR 0x27) \<and> q \<notin> set v \<and>
        c \<in> set (split_ascii_ws [] v))) \<and>
   (c \<in> snd (html_classes_and_ids html) \<longleftrightarrow>
     (\<exists>pre w att q post. html = pre @ w # att @ CHR ''='' # q # c @ q # post \<and> is_ascii_whitespace w \<and>
        eq_ignore_ascii_case att ''id'' \<and> (q = CHR 0x22 \<or> q = CHR 0x27) \<and> q \<notin> set c \<and> c \<noteq> []))"
proof -
  have "c \<in> attr_names IdAttr v \<longleftrightarrow> v = c \<and> c \<noteq> []" for v by (auto simp: attr_names_def)
  moreover have "attr_names ClassAttr v = set (split_ascii_ws [] v)" for v by (simp add: attr_names_def)
  ultimately show ?thesis by (simp add: html_classes_and_ids_def scan_attr_iff)
qed

end
