(* ===== verification/Adblock_Store.thy ===== *)
theory Adblock_Store
  imports Json
begin

text \<open>
  \<open>adblock/store.rs\<close>: where the text of the filter lists is kept. The trait \<open>ListStore\<close> is the record
  of operations \<open>store_ops\<close>; the locale \<open>list_store\<close> is what the list management relies on, and both
  stores of the program interpret it.
\<close>

section \<open>The interface\<close>

text \<open>\<open>ListId::of\<close>; \<open>uni\<close> is the Unicode case mapping.\<close>

definition list_id_of :: "(string \<Rightarrow> string) \<Rightarrow> string \<Rightarrow> string" where
  "list_id_of uni name = to_lowercase uni name"

record stored_list =
  sl_id :: string
  sl_origin :: string
  sl_text :: string

record 's store_ops =
  st_load :: "'s \<Rightarrow> stored_list list"
  st_persist :: "string \<Rightarrow> string \<Rightarrow> 's \<Rightarrow> (io_error + unit) \<times> 's"
  st_remove :: "string \<Rightarrow> 's \<Rightarrow> 's"
  st_age :: "string \<Rightarrow> 's \<Rightarrow> duration option"
  st_engine_cache :: "'s \<Rightarrow> path option"

section \<open>Association lists\<close>

fun put_key :: "'k \<Rightarrow> 'v \<Rightarrow> ('k \<times> 'v) list \<Rightarrow> ('k \<times> 'v) list" where
  "put_key k v [] = [(k, v)]"
| "put_key k v ((k', v') # xs) = (if k' = k then (k, v) # xs else (k', v') # put_key k v xs)"

definition del_key :: "'k \<Rightarrow> ('k \<times> 'v) list \<Rightarrow> ('k \<times> 'v) list" where
  "del_key k xs = filter (\<lambda>(k', _). k' \<noteq> k) xs"

lemma map_of_put_key [simp]: "map_of (put_key k v xs) = (map_of xs)(k \<mapsto> v)"
  by (induction k v xs rule: put_key.induct) (auto simp: fun_eq_iff)

lemma keys_put_key: "map fst (put_key k v xs) = (if k \<in> set (map fst xs) then map fst xs else map fst xs @ [k])"
  by (induction k v xs rule: put_key.induct) auto

lemma distinct_put_key [simp]: "distinct (map fst xs) \<Longrightarrow> distinct (map fst (put_key k v xs))"
  by (simp only: keys_put_key) auto

lemma map_of_del_key [simp]: "map_of (del_key k xs) = (map_of xs)(k := None)"
  by (induction xs) (auto simp: del_key_def fun_eq_iff)

lemma distinct_del_key [simp]: "distinct (map fst xs) \<Longrightarrow> distinct (map fst (del_key k xs))"
  by (simp add: del_key_def distinct_map_filter)

section \<open>The store on disk\<close>

text \<open>A directory of files in the order the system lists them, with the faults it has: listing,
  creating the directory, writing and removing a file.\<close>

record list_dir =
  ld_path :: string
  ld_exists :: bool
  ld_files :: "(string \<times> content) list"
  ld_list_fault :: bool
  ld_mkdir_fault :: "string option"
  ld_write_fault :: "string \<Rightarrow> (string \<times> content option) option"
  ld_remove_fault :: "string \<Rightarrow> bool"
  ld_age :: "string \<Rightarrow> duration option"

definition list_file :: "string \<Rightarrow> string" where
  "list_file i = i @ ''.txt''"

text \<open>\<open>extension() == "txt"\<close> and \<open>file_stem()\<close>: a name that is only the extension has none.\<close>

definition txt_stem :: "string \<Rightarrow> string option" where
  "txt_stem f = filter_opt (\<lambda>s. s \<noteq> []) (strip_suffix ''.txt'' f)"

definition disk_load :: "list_dir \<Rightarrow> stored_list list" where
  "disk_load d =
     (if \<not> ld_exists d \<or> ld_list_fault d then []
      else List.map_filter (\<lambda>(f, c).
             case (txt_stem f, c) of
               (Some i, Text t) \<Rightarrow> Some \<lparr>sl_id = i, sl_origin = show_path (ld_path d, f), sl_text = t\<rparr>
             | _ \<Rightarrow> None) (ld_files d))"

definition disk_persist :: "string \<Rightarrow> string \<Rightarrow> list_dir \<Rightarrow> (io_error + unit) \<times> list_dir" where
  "disk_persist i text d =
     (case ld_mkdir_fault d of
        Some e \<Rightarrow> (Inl (Creating (ld_path d) e), d)
      | None \<Rightarrow>
          (let d1 = d\<lparr>ld_exists := True\<rparr>; f = list_file i in
           case ld_write_fault d f of
             Some (e, wreck) \<Rightarrow>
               (Inl (Writing (ld_path d, f) e),
                d1\<lparr>ld_files := (case wreck of None \<Rightarrow> del_key f (ld_files d) | Some c \<Rightarrow> put_key f c (ld_files d))\<rparr>)
           | None \<Rightarrow> (Inr (), d1\<lparr>ld_files := put_key f (Text text) (ld_files d)\<rparr>)))"

definition disk_remove :: "string \<Rightarrow> list_dir \<Rightarrow> list_dir" where
  "disk_remove i d =
     (if ld_remove_fault d (list_file i) then d else d\<lparr>ld_files := del_key (list_file i) (ld_files d)\<rparr>)"

definition disk_store :: "list_dir store_ops" where
  "disk_store =
     \<lparr>st_load = disk_load, st_persist = disk_persist, st_remove = disk_remove,
      st_age = (\<lambda>i d. ld_age d (list_file i)), st_engine_cache = (\<lambda>d. Some (ld_path d, ''engine.dat''))\<rparr>"

section \<open>The store in memory\<close>

type_synonym memory_lists = "(string \<times> string) list"

definition memory_load :: "memory_lists \<Rightarrow> stored_list list" where
  "memory_load m = map (\<lambda>(i, t). \<lparr>sl_id = i, sl_origin = ''memory:'' @ i, sl_text = t\<rparr>) (sort_key fst m)"

definition memory_persist :: "string \<Rightarrow> string \<Rightarrow> memory_lists \<Rightarrow> (io_error + unit) \<times> memory_lists" where
  "memory_persist i t m = (Inr (), put_key i t m)"

definition memory_store :: "memory_lists store_ops" where
  "memory_store =
     \<lparr>st_load = memory_load, st_persist = memory_persist, st_remove = del_key,
      st_age = (\<lambda>_ _. None), st_engine_cache = (\<lambda>_. None)\<rparr>"

section \<open>The contract\<close>

text \<open>\<open>ok\<close> is the store's own invariant, \<open>texts\<close> what it holds, \<open>name\<close> the ids it can keep. A persist
  that succeeds is what a load finds; one that fails, and a removal, touch no other list.\<close>

locale list_store =
  fixes S :: "'s store_ops" and ok :: "'s \<Rightarrow> bool" and texts :: "'s \<Rightarrow> string \<Rightarrow> string option"
    and name :: "string \<Rightarrow> bool"
  assumes load_ids: "ok s \<Longrightarrow> distinct (map sl_id (st_load S s))"
    and load_texts: "ok s \<Longrightarrow> map_of (map (\<lambda>l. (sl_id l, sl_text l)) (st_load S s)) i = texts s i"
    and persist_ok: "ok s \<Longrightarrow> name i \<Longrightarrow> st_persist S i t s = (r, s') \<Longrightarrow> ok s'"
    and persist_text: "ok s \<Longrightarrow> name i \<Longrightarrow> st_persist S i t s = (Inr u, s') \<Longrightarrow> texts s' i = Some t"
    and persist_other: "ok s \<Longrightarrow> name i \<Longrightarrow> name j \<Longrightarrow> st_persist S i t s = (r, s') \<Longrightarrow> j \<noteq> i \<Longrightarrow> texts s' j = texts s j"
    and remove_ok: "ok s \<Longrightarrow> name i \<Longrightarrow> ok (st_remove S i s)"
    and remove_other: "ok s \<Longrightarrow> name i \<Longrightarrow> name j \<Longrightarrow> j \<noteq> i \<Longrightarrow> texts (st_remove S i s) j = texts s j"
begin

lemma load_set: "ok s \<Longrightarrow> l \<in> set (st_load S s) \<Longrightarrow> texts s (sl_id l) = Some (sl_text l)"
proof -
  assume a: "ok s" "l \<in> set (st_load S s)"
  have "distinct (map fst (map (\<lambda>l. (sl_id l, sl_text l)) (st_load S s)))"
    using load_ids [OF a(1)] by (simp add: o_def)
  then have "map_of (map (\<lambda>l. (sl_id l, sl_text l)) (st_load S s)) (sl_id l) = Some (sl_text l)"
    using a(2) by (intro map_of_is_SomeI) auto
  then show ?thesis using load_texts [OF a(1)] by simp
qed

text \<open>A persisted text is found by the next load.\<close>

lemma persist_load:
  assumes "ok s" "name i" "st_persist S i t s = (Inr u, s')"
  shows "\<exists>l \<in> set (st_load S s'). sl_id l = i \<and> sl_text l = t"
  using load_texts [OF persist_ok [OF assms], of i] persist_text [OF assms]
  by (auto dest!: map_of_SomeD)

end

section \<open>Both stores keep it\<close>

definition dir_ok :: "list_dir \<Rightarrow> bool" where
  "dir_ok d \<longleftrightarrow> distinct (map fst (ld_files d)) \<and> \<not> ld_list_fault d \<and> (ld_exists d \<or> ld_files d = [])"

definition dir_name :: "string \<Rightarrow> bool" where
  "dir_name i \<longleftrightarrow> i \<noteq> [] \<and> CHR ''/'' \<notin> set i"

fun readable :: "content option \<Rightarrow> string option" where
  "readable (Some (Text t)) = Some t"
| "readable _ = None"

definition dir_texts :: "list_dir \<Rightarrow> string \<Rightarrow> string option" where
  "dir_texts d i = (if i = [] then None else readable (map_of (ld_files d) (list_file i)))"

lemma txt_stem_Some: "txt_stem f = Some i \<longleftrightarrow> f = list_file i \<and> i \<noteq> []"
proof (cases "strip_suffix ''.txt'' f")
  case None
  then have "f \<noteq> i @ ''.txt''" using strip_suffix_Some [of "''.txt''" f i] by auto
  with None show ?thesis by (simp add: txt_stem_def list_file_def)
next
  case (Some s)
  then have "f = s @ ''.txt''" by (simp add: strip_suffix_Some)
  with Some show ?thesis by (auto simp: txt_stem_def list_file_def)
qed

lemma Some_txt_stem: "Some i = txt_stem f \<longleftrightarrow> f = list_file i \<and> i \<noteq> []"
  using txt_stem_Some [of f i] by auto

lemma list_file_inj [simp]: "list_file i = list_file j \<longleftrightarrow> i = j"
  by (simp add: list_file_def)

definition dir_rows :: "list_dir \<Rightarrow> (string \<times> content) list \<Rightarrow> stored_list list" where
  "dir_rows d fs = List.map_filter (\<lambda>(f, c).
      case (txt_stem f, c) of
        (Some i, Text t) \<Rightarrow> Some \<lparr>sl_id = i, sl_origin = show_path (ld_path d, f), sl_text = t\<rparr>
      | _ \<Rightarrow> None) fs"

lemma disk_load_rows: "dir_ok d \<Longrightarrow> disk_load d = dir_rows d (ld_files d)"
  by (auto simp: disk_load_def dir_rows_def dir_ok_def map_filter_simps)

lemma dir_rows_Cons:
  "dir_rows d ((f, c) # fs) =
     (case (txt_stem f, c) of
        (Some i, Text t) \<Rightarrow> [\<lparr>sl_id = i, sl_origin = show_path (ld_path d, f), sl_text = t\<rparr>]
      | _ \<Rightarrow> []) @ dir_rows d fs"
  by (auto simp: dir_rows_def map_filter_simps split: option.splits content.splits)

lemma dir_rows_files: "l \<in> set (dir_rows d fs) \<Longrightarrow> list_file (sl_id l) \<in> set (map fst fs)"
proof (induction fs)
  case (Cons fc fs)
  then show ?case
    by (cases fc) (auto simp: dir_rows_Cons txt_stem_Some Some_txt_stem split: option.splits content.splits)
qed (simp add: dir_rows_def map_filter_simps)

lemma dir_rows_distinct: "distinct (map fst fs) \<Longrightarrow> distinct (map sl_id (dir_rows d fs))"
proof (induction fs)
  case (Cons fc fs)
  obtain f c where fc: "fc = (f, c)" by fastforce
  have "i \<notin> sl_id ` set (dir_rows d fs)" if "f = list_file i" for i
    using dir_rows_files [of _ d fs] Cons.prems that by (auto simp: fc)
  with Cons show ?case by (auto simp: fc dir_rows_Cons txt_stem_Some Some_txt_stem split: option.splits content.splits)
qed (simp add: dir_rows_def map_filter_simps)

lemma dir_rows_texts:
  "distinct (map fst fs) \<Longrightarrow>
   map_of (map (\<lambda>l. (sl_id l, sl_text l)) (dir_rows d fs)) i
     = (if i = [] then None else readable (map_of fs (list_file i)))"
proof (induction fs)
  case (Cons fc fs)
  obtain f c where fc: "fc = (f, c)" by fastforce
  have IH: "map_of (map (\<lambda>l. (sl_id l, sl_text l)) (dir_rows d fs)) i
      = (if i = [] then None else readable (map_of fs (list_file i)))"
    using Cons by simp
  show ?case
  proof (cases "txt_stem f = Some i")
    case True
    then have f: "f = list_file i" "i \<noteq> []" by (simp_all add: txt_stem_Some)
    have "map_of fs (list_file i) = None" using Cons.prems by (simp add: fc f map_of_eq_None_iff)
    with IH True f show ?thesis by (cases c) (simp_all add: fc dir_rows_Cons)
  next
    case False
    then have "i \<noteq> [] \<Longrightarrow> f \<noteq> list_file i" by (auto simp: txt_stem_Some)
    with IH False show ?thesis by (cases c; cases "txt_stem f") (auto simp: fc dir_rows_Cons)
  qed
qed (simp add: dir_rows_def map_filter_simps)

interpretation disk: list_store disk_store dir_ok dir_texts dir_name
proof
  fix d d' :: list_dir and i j t :: string and r u
  show "dir_ok d \<Longrightarrow> distinct (map sl_id (st_load disk_store d))"
    by (simp add: disk_store_def disk_load_rows dir_rows_distinct dir_ok_def)
  show "dir_ok d \<Longrightarrow> map_of (map (\<lambda>l. (sl_id l, sl_text l)) (st_load disk_store d)) i = dir_texts d i"
    by (simp add: disk_store_def disk_load_rows dir_rows_texts dir_ok_def dir_texts_def)
  show "dir_ok d \<Longrightarrow> dir_name i \<Longrightarrow> st_persist disk_store i t d = (r, d') \<Longrightarrow> dir_ok d'"
    by (auto simp: disk_store_def disk_persist_def dir_ok_def Let_def split: option.splits)
  show "dir_ok d \<Longrightarrow> dir_name i \<Longrightarrow> st_persist disk_store i t d = (Inr u, d') \<Longrightarrow> dir_texts d' i = Some t"
    by (auto simp: disk_store_def disk_persist_def dir_texts_def dir_name_def Let_def split: option.splits)
  show "dir_ok d \<Longrightarrow> dir_name i \<Longrightarrow> dir_name j \<Longrightarrow> st_persist disk_store i t d = (r, d') \<Longrightarrow> j \<noteq> i \<Longrightarrow>
      dir_texts d' j = dir_texts d j"
    by (auto simp: disk_store_def disk_persist_def dir_texts_def Let_def split: option.splits)
  show "dir_ok d \<Longrightarrow> dir_name i \<Longrightarrow> dir_ok (st_remove disk_store i d)"
    by (auto simp: disk_store_def disk_remove_def dir_ok_def del_key_def distinct_map_filter)
  show "dir_ok d \<Longrightarrow> dir_name i \<Longrightarrow> dir_name j \<Longrightarrow> j \<noteq> i \<Longrightarrow> dir_texts (st_remove disk_store i d) j = dir_texts d j"
    by (auto simp: disk_store_def disk_remove_def dir_texts_def)
qed

lemma map_of_sort_key_fst: "distinct (map fst m) \<Longrightarrow> map_of (sort_key fst m) = map_of m"
  by (intro map_of_eqI) (auto simp: map_of_eq_Some_iff distinct_map)

interpretation memory: list_store memory_store "\<lambda>m. distinct (map fst m)" map_of "\<lambda>_. True"
proof
  fix m m' :: memory_lists and i j t :: string and r u
  have load: "map (\<lambda>l. (sl_id l, sl_text l)) (memory_load m) = sort_key fst m"
    by (simp add: memory_load_def o_def split_def)
  have "map sl_id (memory_load m) = map fst (sort_key fst m)" by (simp add: memory_load_def o_def split_def)
  then show "distinct (map fst m) \<Longrightarrow> distinct (map sl_id (st_load memory_store m))"
    by (simp add: memory_store_def distinct_map)
  show "distinct (map fst m) \<Longrightarrow> map_of (map (\<lambda>l. (sl_id l, sl_text l)) (st_load memory_store m)) i = map_of m i"
    using load by (simp add: memory_store_def map_of_sort_key_fst)
  show "distinct (map fst m) \<Longrightarrow> True \<Longrightarrow> st_persist memory_store i t m = (r, m') \<Longrightarrow> distinct (map fst m')"
    by (auto simp: memory_store_def memory_persist_def)
qed (auto simp: memory_store_def memory_persist_def)

end
