(* ===== verification/Adblock_Lists.thy ===== *)
theory Adblock_Lists
  imports Adblock_Store
begin

text \<open>
  The filter lists of \<open>adblock/curation.rs\<close> and their text format, and the compiled engine with its
  cache file (the end of \<open>adblock/mod.rs\<close>). The engine is the \<open>adblock\<close> crate's: compiling,
  (de)serialising and handing it resources are a record of functions, and the locale \<open>engine\<close> states
  what is relied on. The hash is the standard library's.
\<close>

section \<open>List texts\<close>

definition is_rule :: "string \<Rightarrow> bool" where
  "is_rule l \<longleftrightarrow> l \<noteq> [] \<and> \<not> starts_with ''!'' l \<and> \<not> starts_with ''['' l"

definition count_rules :: "string \<Rightarrow> nat" where
  "count_rules text = length (filter is_rule (map trim (lines text)))"

text \<open>The network, cosmetic and exception rules of a text.\<close>

definition rule_categories :: "string \<Rightarrow> nat \<times> nat \<times> nat" where
  "rule_categories text =
     foldl (\<lambda>(n, c, e) line.
       let l = trim line in
       if \<not> is_rule l then (n, c, e)
       else if starts_with ''@@'' l then (n, c, e + 1)
       else if contains_str ''##'' l \<or> contains_str ''#@#'' l \<or> contains_str ''#?#'' l then (n, c + 1, e)
       else (n + 1, c, e)) (0, 0, 0) (lines text)"

definition title_line :: "string \<Rightarrow> string option" where
  "title_line l =
     (if starts_with ''!'' l \<or> starts_with ''#'' l then
        (let rest = trim_start (dropWhile (\<lambda>c. c = CHR ''!'' \<or> c = CHR ''#'') l)
         in or_else (strip_prefix ''Title:'' rest) (strip_prefix ''title:'' rest))
      else None)"

fun find_map :: "('a \<Rightarrow> 'b option) \<Rightarrow> 'a list \<Rightarrow> 'b option" where
  "find_map f [] = None"
| "find_map f (x # xs) = (case f x of Some y \<Rightarrow> Some y | None \<Rightarrow> find_map f xs)"

definition list_title :: "string \<Rightarrow> string option" where
  "list_title text =
     filter_opt (\<lambda>t. t \<noteq> []) (map_option trim (find_map title_line (take 30 (lines text))))"

text \<open>\<open>trim_end_matches(".txt")\<close>\<close>

function trim_txt :: "string \<Rightarrow> string" where
  "trim_txt s = (if ends_with ''.txt'' s then trim_txt (take (length s - 4) s) else s)"
  by pat_completeness auto
termination
  by (relation "measure length") (auto simp: ends_with_iff)

declare trim_txt.simps [simp del]

definition name_char :: "char \<Rightarrow> bool" where
  "name_char c \<longleftrightarrow> is_ascii_alphanumeric c \<or> c = CHR ''-'' \<or> c = CHR ''_'' \<or> c = CHR ''.''"

definition sanitize_step :: "string \<Rightarrow> char \<Rightarrow> string" where
  "sanitize_step out c =
     (if name_char c then out @ [c]
      else if out \<noteq> [] \<and> last out = CHR ''-'' then out else out @ ''-'')"

definition sanitize_name :: "string \<Rightarrow> string" where
  "sanitize_name name = trim_matches CHR ''-'' (foldl sanitize_step [] (trim_txt (trim name)))"

text \<open>The header written above a stored list.\<close>

definition SOURCE_MARK :: string where
  "SOURCE_MARK = ''! source: ''"

definition DISABLED_MARK :: string where
  "DISABLED_MARK = ''! disabled'' @ [CHR 0x0A]"

definition list_header :: "string \<Rightarrow> bool \<Rightarrow> string" where
  "list_header source enabled = SOURCE_MARK @ source @ [CHR 0x0A] @ (if enabled then [] else DISABLED_MARK)"

definition strip_source_header :: "string \<Rightarrow> string" where
  "strip_source_header text =
     (case strip_prefix SOURCE_MARK text of
        Some rest \<Rightarrow> (case split_once CHR 0x0A rest of Some (_, body) \<Rightarrow> body | None \<Rightarrow> [])
      | None \<Rightarrow> text)"

record list_entry =
  le_name :: string
  le_source :: string
  le_rules :: nat
  le_enabled :: bool
  le_text :: string

definition read_source :: "string \<Rightarrow> string \<Rightarrow> string \<times> string" where
  "read_source fallback_source text =
     (case strip_prefix SOURCE_MARK text of
        Some rest \<Rightarrow> (case split_once CHR 0x0A rest of Some sb \<Rightarrow> sb | None \<Rightarrow> (rest, []))
      | None \<Rightarrow> (fallback_source, text))"

definition entry_from_text :: "string \<Rightarrow> string \<Rightarrow> string \<Rightarrow> list_entry" where
  "entry_from_text fallback_name fallback_source text =
     (let (source, t1) = read_source fallback_source text;
          (enabled, body) = (case strip_prefix DISABLED_MARK t1 of Some b \<Rightarrow> (False, b) | None \<Rightarrow> (True, t1));
          name = unwrap_or (filter_opt (\<lambda>n. n \<noteq> []) (map_option sanitize_name (list_title body))) fallback_name
      in \<lparr>le_name = name, le_source = source, le_rules = count_rules body, le_enabled = enabled, le_text = body\<rparr>)"

text \<open>\<open>splitn(4, '/')\<close>: the fourth piece is the rest.\<close>

fun splitn :: "nat \<Rightarrow> char \<Rightarrow> string \<Rightarrow> string list" where
  "splitn 0 c s = []"
| "splitn (Suc 0) c s = [s]"
| "splitn (Suc (Suc n)) c s = (case split_once c s of None \<Rightarrow> [s] | Some (a, b) \<Rightarrow> a # splitn (Suc n) c b)"

definition normalize_list_url :: "string \<Rightarrow> string" where
  "normalize_list_url url =
     (case strip_prefix ''https://github.com/'' url of
        None \<Rightarrow> url
      | Some rest \<Rightarrow>
          (case splitn 4 CHR ''/'' rest of
             [user, repo, kind, pth] \<Rightarrow>
               if kind = ''blob'' then ''https://raw.githubusercontent.com/'' @ user @ ''/'' @ repo @ ''/'' @ pth
               else url
           | _ \<Rightarrow> url))"

definition name_from_url :: "string \<Rightarrow> string" where
  "name_from_url url =
     trim_txt (unwrap_or (find (\<lambda>s. s \<noteq> [] \<and> \<not> contains_char CHR '':'' s) (rev (split CHR ''/'' url))) ''list'')"

section \<open>The engine and its cache\<close>

record ('e, 'r) engine_ops =
  en_compile :: "string list \<Rightarrow> 'e"
  en_resources :: "'r list \<Rightarrow> 'e \<Rightarrow> 'e"
  en_serialize :: "'e \<Rightarrow> bytes option"
  en_deserialize :: "bytes \<Rightarrow> 'e option"
  en_hash :: "(string \<times> string) list \<Rightarrow> u64"

definition with_resources :: "('e, 'r) engine_ops \<Rightarrow> 'r list \<Rightarrow> 'e \<Rightarrow> 'e" where
  "with_resources E rs e = (if rs = [] then e else en_resources E rs e)"

definition enabled_in_order :: "list_entry list \<Rightarrow> list_entry list" where
  "enabled_in_order ls = sort_key (\<lambda>l. (le_name l, le_text l)) (filter le_enabled ls)"

text \<open>The rules that reach the engine: name and text of the enabled lists, in order.\<close>

definition rules_of :: "list_entry list \<Rightarrow> (string \<times> string) list" where
  "rules_of ls = map (\<lambda>l. (le_name l, le_text l)) (enabled_in_order ls)"

definition engine_key :: "('e, 'r) engine_ops \<Rightarrow> list_entry list \<Rightarrow> u64" where
  "engine_key E ls = en_hash E (rules_of ls)"

definition le_bytes :: "u64 \<Rightarrow> bytes" where
  "le_bytes k = map (\<lambda>i. of_nat (unat k div 256 ^ i)) [0..<8]"

definition from_le_bytes :: "bytes \<Rightarrow> u64" where
  "from_le_bytes bs = of_nat (foldr (\<lambda>b n. unat b + 256 * n) bs 0)"

text \<open>\<open>file\<close> is the content of the cache file, if it can be read.\<close>

definition load_cached_engine :: "('e, 'r) engine_ops \<Rightarrow> bytes option \<Rightarrow> u64 \<Rightarrow> 'e option" where
  "load_cached_engine E cfile key =
     (case cfile of
        None \<Rightarrow> None
      | Some bs \<Rightarrow>
          if length bs < 8 \<or> from_le_bytes (take 8 bs) \<noteq> key then None
          else en_deserialize E (drop 8 bs))"

text \<open>\<open>cache\<close> is \<open>None\<close> when the store has no place for the cache file.\<close>

definition build_engine ::
  "('e, 'r) engine_ops \<Rightarrow> list_entry list \<Rightarrow> 'r list \<Rightarrow> bytes option option \<Rightarrow> 'e \<times> u64 option" where
  "build_engine E ls rs cache =
     (let key = engine_key E ls in
      case Option.bind cache (\<lambda>cfile. load_cached_engine E cfile key) of
        Some e \<Rightarrow> (with_resources E rs e, None)
      | None \<Rightarrow> (with_resources E rs (en_compile E (map snd (rules_of ls))), map_option (\<lambda>_. key) cache))"

text \<open>\<open>save_cached_engine\<close>: written beside the file and renamed; \<open>ok\<close> is whether both worked.\<close>

definition save_cached_engine ::
  "('e, 'r) engine_ops \<Rightarrow> bool \<Rightarrow> u64 \<Rightarrow> 'e \<Rightarrow> bytes option \<Rightarrow> bytes option" where
  "save_cached_engine E ok key e cfile =
     (case en_serialize E e of
        None \<Rightarrow> cfile
      | Some body \<Rightarrow> if ok then Some (le_bytes key @ body) else cfile)"

section \<open>The engine depends on the set of enabled lists only\<close>

lemma map_sort_key: "map k (sort_key k xs) = sort (map k xs)"
  by (rule properties_for_sort [symmetric]) simp_all

lemma rules_of_sort: "rules_of ls = sort (map (\<lambda>l. (le_name l, le_text l)) (filter le_enabled ls))"
  unfolding rules_of_def enabled_in_order_def by (rule map_sort_key)

lemma rules_of_mset: "mset ls = mset ls' \<Longrightarrow> rules_of ls = rules_of ls'"
  unfolding rules_of_sort by (intro properties_for_sort) simp_all

lemma set_rules_of: "set (rules_of ls) = {(le_name l, le_text l) | l. l \<in> set ls \<and> le_enabled l}"
  by (auto simp: rules_of_sort)

section \<open>Reading the cache back\<close>

lemma length_le_bytes [simp]: "length (le_bytes k) = 8"
  by (simp add: le_bytes_def)

lemma from_le_bytes_le [simp]: "from_le_bytes (le_bytes k) = k"
proof -
  have u8: "unat (of_nat m :: u8) = m mod 256" for m by (simp add: unat_of_nat)
  have digits: "(\<Sum>i < n. (m div 256 ^ i) mod 256 * 256 ^ i) = m mod 256 ^ n" for m n :: nat
  proof (induction n)
    case (Suc n)
    have "m mod 256 ^ Suc n = 256 ^ n * (m div 256 ^ n mod 256) + m mod 256 ^ n"
      by (simp only: power_Suc2 mod_mult2_eq)
    with Suc show ?case by (simp add: mult.commute del: power_Suc)
  qed simp
  have fr: "foldr (\<lambda>b n. unat b + 256 * n) (map (\<lambda>i. of_nat (m div 256 ^ i) :: u8) [a..<a + n]) 0
      = (\<Sum>i < n. (m div 256 ^ (a + i)) mod 256 * 256 ^ i)" for m a n :: nat
  proof (induction n arbitrary: a)
    case (Suc n)
    have "[a..<a + Suc n] = a # [Suc a..<Suc a + n]" by (simp add: upt_rec)
    then show ?case
      using Suc [of "Suc a"] by (simp add: u8 sum.lessThan_Suc_shift sum_distrib_left ac_simps del: upt_Suc sum.lessThan_Suc)
  qed simp
  have "foldr (\<lambda>b n. unat b + 256 * n) (le_bytes k) 0 = unat k mod 256 ^ 8"
    using fr [of "unat k" 0 8] digits [of "unat k" 8] by (simp add: le_bytes_def del: upt_Suc)
  also have "unat k < 256 ^ 8" using unsigned_less [of k] by simp
  then have "unat k mod 256 ^ 8 = unat k" by simp
  finally show ?thesis by (simp add: from_le_bytes_def)
qed

lemma load_saved:
  "load_cached_engine E (Some (le_bytes k @ body)) key = (if k = key then en_deserialize E body else None)"
  by (simp add: load_cached_engine_def)

text \<open>What the program relies on: an engine read back is the one compiled, without the resources it
  was given.\<close>

locale engine =
  fixes E :: "('e, 'r) engine_ops"
  assumes read_back: "en_serialize E (with_resources E rs (en_compile E ts)) = Some b \<Longrightarrow>
      en_deserialize E b = Some (en_compile E ts)"
begin

text \<open>A cache file is genuine if it was written for some rules under their key.\<close>

definition genuine :: "bytes option \<Rightarrow> bool" where
  "genuine cfile \<longleftrightarrow>
     (\<forall>key e. load_cached_engine E cfile key = Some e \<longrightarrow>
        (\<exists>R. en_hash E R = key \<and> e = en_compile E (map snd R)))"

definition compiled_for :: "u64 \<Rightarrow> 'e \<Rightarrow> bool" where
  "compiled_for key e \<longleftrightarrow> (\<exists>R rs. en_hash E R = key \<and> e = with_resources E rs (en_compile E (map snd R)))"

lemma genuine_None [simp]: "genuine None"
  by (simp add: genuine_def load_cached_engine_def)

lemma genuine_save: "genuine cfile \<Longrightarrow> compiled_for key e \<Longrightarrow> genuine (save_cached_engine E ok key e cfile)"
  by (auto simp: save_cached_engine_def compiled_for_def genuine_def load_saved read_back
      split: option.splits if_splits)

lemma build_engine_compiled:
  assumes "\<And>cfile. cache = Some cfile \<Longrightarrow> genuine cfile" "build_engine E ls rs cache = (e, unsaved)"
  shows "\<exists>R. en_hash E R = en_hash E (rules_of ls) \<and> e = with_resources E rs (en_compile E (map snd R))"
    and "unsaved = Some key \<Longrightarrow> compiled_for key e"
proof -
  show "\<exists>R. en_hash E R = en_hash E (rules_of ls) \<and> e = with_resources E rs (en_compile E (map snd R))"
  proof (cases "Option.bind cache (\<lambda>cfile. load_cached_engine E cfile (engine_key E ls))")
    case None
    with assms(2) show ?thesis by (auto simp: build_engine_def Let_def)
  next
    case (Some e0)
    then obtain cfile where "cache = Some cfile" "load_cached_engine E cfile (engine_key E ls) = Some e0"
      by (auto simp: bind_eq_Some_conv)
    then obtain R where "en_hash E R = engine_key E ls" "e0 = en_compile E (map snd R)"
      using assms(1) by (auto simp: genuine_def)
    with Some assms(2) show ?thesis by (auto simp: build_engine_def Let_def engine_key_def)
  qed
  show "compiled_for key e" if "unsaved = Some key"
    using that assms(2) by (auto simp: build_engine_def Let_def compiled_for_def engine_key_def split: option.splits)
qed

end

text \<open>An engine that is the list of the texts it was compiled from.\<close>

fun encode_str :: "string \<Rightarrow> bytes" where
  "encode_str [] = [0]"
| "encode_str (c # s) = 1 # of_nat (code c) # encode_str s"

fun decode_strs :: "string \<Rightarrow> bytes \<Rightarrow> string list option" where
  "decode_strs acc [] = (if acc = [] then Some [] else None)"
| "decode_strs acc (b # bs) =
     (if b = 0 then map_option (\<lambda>ss. rev acc # ss) (decode_strs [] bs)
      else case bs of [] \<Rightarrow> None | c # cs \<Rightarrow> decode_strs (char_of (unat c) # acc) cs)"

lemma decode_encode_str: "decode_strs acc (encode_str s @ rest) = map_option (\<lambda>ss. (rev acc @ s) # ss) (decode_strs [] rest)"
proof (induction s arbitrary: acc)
  case (Cons c s)
  have "char_of (unat (of_nat (code c) :: u8)) = c"
    by (simp add: unat_of_nat)
  with Cons show ?case by simp
qed simp

lemma decode_encode: "decode_strs [] (concat (map encode_str ss)) = Some ss"
  by (induction ss) (simp_all add: decode_encode_str)

definition text_engine :: "(string list \<times> nat list, nat) engine_ops" where
  "text_engine =
     \<lparr>en_compile = (\<lambda>ts. (ts, [])), en_resources = (\<lambda>rs (ts, _). (ts, rs)),
      en_serialize = (\<lambda>(ts, _). Some (concat (map encode_str ts))),
      en_deserialize = (\<lambda>b. map_option (\<lambda>ts. (ts, [])) (decode_strs [] b)),
      en_hash = (\<lambda>R. of_nat (length R))\<rparr>"

interpretation texts_only: engine text_engine
  by unfold_locales (auto simp: text_engine_def with_resources_def decode_encode split: if_splits)

section \<open>Names\<close>

lemma trim_txt_id: "\<not> ends_with ''.txt'' s \<Longrightarrow> trim_txt s = s"
  by (subst trim_txt.simps) simp

lemma sanitize_step_chars: "list_all name_char out \<Longrightarrow> list_all name_char (sanitize_step out c)"
  by (simp add: sanitize_step_def name_char_def)

lemma sanitize_fold_chars: "list_all name_char out \<Longrightarrow> list_all name_char (foldl sanitize_step out s)"
  by (induction s arbitrary: out) (simp_all add: sanitize_step_chars)

lemma sanitize_chars: "list_all name_char (sanitize_name n)"
  using set_trim_matches_subset [of "CHR ''-''" "foldl sanitize_step [] (trim_txt (trim n))"]
    sanitize_fold_chars [of "[]" "trim_txt (trim n)"]
  by (auto simp: sanitize_name_def list_all_iff)

lemma sanitize_fold_id: "list_all name_char s \<Longrightarrow> foldl sanitize_step out s = out @ s"
  by (induction s arbitrary: out) (simp_all add: sanitize_step_def)

lemma name_char_graphic: "name_char c \<Longrightarrow> graphic c"
  by (auto simp: name_char_def graphic_def is_ascii_alphanumeric_def is_ascii_digit_def is_ascii_upper_def is_ascii_lower_def)

lemma name_char_ascii: "name_char c \<Longrightarrow> is_ascii c"
  using name_char_graphic [of c] by (simp add: graphic_def is_ascii_def)

text \<open>A sanitised name stays as it is, unless it ends in \<open>.txt\<close>.\<close>

lemma sanitize_fixed:
  assumes "\<not> ends_with ''.txt'' (sanitize_name n)"
  shows "sanitize_name (sanitize_name n) = sanitize_name n"
proof -
  let ?s = "sanitize_name n"
  have "trim ?s = ?s"
    using sanitize_chars [of n] by (intro trim_graphic) (auto simp: list_all_iff dest: name_char_graphic)
  then have "sanitize_name ?s = trim_matches CHR ''-'' ?s"
    using assms sanitize_fold_id [OF sanitize_chars [of n], of "[]"] by (simp add: sanitize_name_def [of ?s] trim_txt_id)
  also have "\<dots> = ?s"
    using trim_matches_ends [of "CHR ''-''"] by (intro trim_matches_id) (simp add: sanitize_name_def)
  finally show ?thesis .
qed

lemma sanitize_not_fixed: "sanitize_name ''a.txt-'' = ''a.txt'' \<and> sanitize_name ''a.txt'' = ''a''"
  by code_simp

lemma list_id_lower: "list_id_of uni (sanitize_name n) = to_ascii_lowercase (sanitize_name n)"
  using sanitize_chars [of n] by (auto simp: list_id_of_def to_lowercase_def list_all_iff dest: name_char_ascii)

lemma list_id_dir_name: "sanitize_name n \<noteq> [] \<Longrightarrow> dir_name (list_id_of uni (sanitize_name n))"
proof -
  assume ne: "sanitize_name n \<noteq> []"
  have alnum: "\<not> is_ascii_alphanumeric CHR ''/''" and slash: "\<not> name_char CHR ''/''"
    by (simp_all add: name_char_def is_ascii_alphanumeric_def is_ascii_digit_def is_ascii_upper_def is_ascii_lower_def)
  have no: "CHR ''/'' \<notin> set (sanitize_name n)" using sanitize_chars [of n] slash by (auto simp: list_all_iff)
  have "ascii_lower x \<noteq> CHR ''/''" if "x \<in> set (sanitize_name n)" for x
    using ascii_lower_eq_iff [OF alnum, of x] no that by metis
  then have "list_all (\<lambda>c. c \<noteq> CHR ''/'') (map ascii_lower (sanitize_name n))"
    by (simp add: list_all_iff)
  with ne show ?thesis
    by (simp only: dir_name_def list_id_lower to_ascii_lowercase_Nil) (auto simp: to_ascii_lowercase_def list_all_iff)
qed

section \<open>Stored texts\<close>

lemma read_source_header:
  "CHR 0x0A \<notin> set source \<Longrightarrow> read_source fb (list_header source enabled @ text)
     = (source, (if enabled then [] else DISABLED_MARK) @ text)"
  by (simp add: read_source_def list_header_def)

lemma entry_of_stored:
  assumes "CHR 0x0A \<notin> set source" "enabled \<Longrightarrow> \<not> starts_with DISABLED_MARK text"
  shows "entry_from_text fb fs (list_header source enabled @ text) =
    \<lparr>le_name = unwrap_or (filter_opt (\<lambda>n. n \<noteq> []) (map_option sanitize_name (list_title text))) fb,
     le_source = source, le_rules = count_rules text, le_enabled = enabled, le_text = text\<rparr>"
proof -
  have "strip_prefix DISABLED_MARK text = None" if enabled
    using assms(2) [OF that] by (cases "strip_prefix DISABLED_MARK text") (auto simp: starts_with_def)
  with assms(1) show ?thesis
    by (cases enabled) (simp_all add: entry_from_text_def read_source_header Let_def)
qed

end
