(* ===== verification/Adblock_Curation.thy ===== *)
theory Adblock_Curation
  imports Adblock_Lists
begin

text \<open>
  \<open>adblock/curation.rs\<close> and the engine core of \<open>adblock/mod.rs\<close>: the collection of filter lists in
  memory, in the list store and in the compiled engine, and every operation on it. \<open>E\<close> is the engine,
  \<open>S\<close> the list store, \<open>uni\<close> the Unicode case mapping.
\<close>

section \<open>State\<close>

definition CUSTOM_LIST :: string where "CUSTOM_LIST = ''custom''"
definition CUSTOM_SOURCE :: string where "CUSTOM_SOURCE = ''config + ui''"

text \<open>\<open>cu_cache\<close> is the content of the engine cache file and \<open>cu_pending\<close> the cache writes running in
  the background.\<close>

record ('e, 'r, 's) curation =
  cu_lists :: "list_entry list"
  cu_engine :: 'e
  cu_resources :: "'r list"
  cu_store :: 's
  cu_cache :: "bytes option"
  cu_pending :: "(u64 \<times> 'e) list"

datatype curation_error =
    EmptyName
  | StoreError io_error
  | HtmlPage string
  | NoRules string
  | ScriptletError string

definition cache_slot :: "'s store_ops \<Rightarrow> ('e, 'r, 's) curation \<Rightarrow> bytes option option" where
  "cache_slot S c = map_option (\<lambda>_. cu_cache c) (st_engine_cache S (cu_store c))"

definition rebuild :: "('e, 'r) engine_ops \<Rightarrow> 's store_ops \<Rightarrow> ('e, 'r, 's) curation \<Rightarrow> ('e, 'r, 's) curation" where
  "rebuild E S c =
     (case build_engine E (cu_lists c) (cu_resources c) (cache_slot S c) of (e, unsaved) \<Rightarrow>
        c\<lparr>cu_engine := e,
          cu_pending := cu_pending c @ (case unsaved of None \<Rightarrow> [] | Some key \<Rightarrow> [(key, e)])\<rparr>)"

definition core_mutate ::
  "('e, 'r) engine_ops \<Rightarrow> 's store_ops \<Rightarrow> (list_entry list \<Rightarrow> list_entry list) \<Rightarrow> ('e, 'r, 's) curation \<Rightarrow>
   ('e, 'r, 's) curation" where
  "core_mutate E S f c = rebuild E S (c\<lparr>cu_lists := f (cu_lists c)\<rparr>)"

text \<open>One of the background writes finishes.\<close>

definition finish_write :: "('e, 'r) engine_ops \<Rightarrow> bool \<Rightarrow> nat \<Rightarrow> ('e, 'r, 's) curation \<Rightarrow> ('e, 'r, 's) curation" where
  "finish_write E ok i c =
     (if i < length (cu_pending c) then
        (case cu_pending c ! i of (key, e) \<Rightarrow>
           c\<lparr>cu_cache := save_cached_engine E ok key e (cu_cache c), cu_pending := remove_at i (cu_pending c)\<rparr>)
      else c)"

section \<open>Operations\<close>

definition find_list :: "string \<Rightarrow> list_entry list \<Rightarrow> list_entry option" where
  "find_list name ls = find (\<lambda>l. le_name l = name) ls"

definition stale_url_lists :: "(string \<Rightarrow> string) \<Rightarrow> 's store_ops \<Rightarrow> duration \<Rightarrow> ('e, 'r, 's) curation \<Rightarrow> (string \<times> string) list" where
  "stale_url_lists uni S max_age c =
     map (\<lambda>l. (le_name l, le_source l))
       (filter (\<lambda>l. case st_age S (list_id_of uni (le_name l)) (cu_store c) of None \<Rightarrow> True | Some age \<Rightarrow> max_age < age)
         (filter (\<lambda>l. starts_with ''http://'' (le_source l) \<or> starts_with ''https://'' (le_source l)) (cu_lists c)))"

definition replace_list :: "list_entry \<Rightarrow> list_entry list \<Rightarrow> list_entry list" where
  "replace_list entry ls = filter (\<lambda>l. le_name l \<noteq> le_name entry) ls @ [entry]"

definition add_list ::
  "(string \<Rightarrow> string) \<Rightarrow> ('e, 'r) engine_ops \<Rightarrow> 's store_ops \<Rightarrow> string \<Rightarrow> string \<Rightarrow> string \<Rightarrow> ('e, 'r, 's) curation \<Rightarrow>
   (curation_error + list_entry) \<times> ('e, 'r, 's) curation" where
  "add_list uni E S name source text c =
     (let nm = sanitize_name name in
      if nm = [] then (Inl EmptyName, c)
      else let enabled = (case find_list nm (cu_lists c) of None \<Rightarrow> True | Some l \<Rightarrow> le_enabled l) in
        case st_persist S (list_id_of uni nm) (list_header source enabled @ text) (cu_store c) of
          (Inl e, s') \<Rightarrow> (Inl (StoreError e), c\<lparr>cu_store := s'\<rparr>)
        | (Inr _, s') \<Rightarrow>
            (let entry = \<lparr>le_name = nm, le_source = source, le_rules = count_rules text, le_enabled = enabled,
                          le_text = text\<rparr>
             in (Inr entry, core_mutate E S (replace_list entry) (c\<lparr>cu_store := s'\<rparr>))))"

definition append_rules ::
  "(string \<Rightarrow> string) \<Rightarrow> ('e, 'r) engine_ops \<Rightarrow> 's store_ops \<Rightarrow> string \<Rightarrow> string \<Rightarrow> string \<Rightarrow> ('e, 'r, 's) curation \<Rightarrow>
   (curation_error + list_entry) \<times> ('e, 'r, 's) curation" where
  "append_rules uni E S name source rules c =
     (let text = (case find_list (sanitize_name name) (cu_lists c) of
                    Some l \<Rightarrow> le_text l @ [CHR 0x0A] @ rules | None \<Rightarrow> rules)
      in add_list uni E S name source text c)"

datatype rules_update = AppendRules | ReplaceRules

definition apply_rules ::
  "(string \<Rightarrow> string) \<Rightarrow> ('e, 'r) engine_ops \<Rightarrow> 's store_ops \<Rightarrow> string option \<Rightarrow> string \<Rightarrow> rules_update \<Rightarrow>
   ('e, 'r, 's) curation \<Rightarrow> (curation_error + list_entry) \<times> ('e, 'r, 's) curation" where
  "apply_rules uni E S name rules upd c =
     (let nm = (case name of Some n \<Rightarrow> if trim n \<noteq> [] then n else CUSTOM_LIST | None \<Rightarrow> CUSTOM_LIST);
          source = (if nm = CUSTOM_LIST then CUSTOM_SOURCE else ''web ui'')
      in case upd of
           ReplaceRules \<Rightarrow> add_list uni E S nm source rules c
         | AppendRules \<Rightarrow> append_rules uni E S nm source rules c)"

definition set_list_enabled ::
  "(string \<Rightarrow> string) \<Rightarrow> ('e, 'r) engine_ops \<Rightarrow> 's store_ops \<Rightarrow> string \<Rightarrow> bool \<Rightarrow> ('e, 'r, 's) curation \<Rightarrow>
   (curation_error + bool) \<times> ('e, 'r, 's) curation" where
  "set_list_enabled uni E S name enabled c =
     (case find_list name (cu_lists c) of
        None \<Rightarrow> (Inr False, c)
      | Some l \<Rightarrow>
          (case st_persist S (list_id_of uni (sanitize_name name)) (list_header (le_source l) enabled @ le_text l) (cu_store c) of
             (Inl e, s') \<Rightarrow> (Inl (StoreError e), c\<lparr>cu_store := s'\<rparr>)
           | (Inr _, s') \<Rightarrow>
               (Inr True, core_mutate E S
                  (update_first (\<lambda>l. le_name l = name) (\<lambda>l. l\<lparr>le_enabled := enabled\<rparr>)) (c\<lparr>cu_store := s'\<rparr>))))"

definition remove_list ::
  "(string \<Rightarrow> string) \<Rightarrow> ('e, 'r) engine_ops \<Rightarrow> 's store_ops \<Rightarrow> string \<Rightarrow> ('e, 'r, 's) curation \<Rightarrow>
   bool \<times> ('e, 'r, 's) curation" where
  "remove_list uni E S name c =
     (let present = list_ex (\<lambda>l. le_name l = name) (cu_lists c);
          c1 = (if present then core_mutate E S (filter (\<lambda>l. le_name l \<noteq> name)) c else c);
          i = list_id_of uni (sanitize_name name)
      in (present, if i \<noteq> [] then c1\<lparr>cu_store := st_remove S i (cu_store c1)\<rparr> else c1))"

definition install_downloaded ::
  "(string \<Rightarrow> string) \<Rightarrow> ('e, 'r) engine_ops \<Rightarrow> 's store_ops \<Rightarrow> string \<Rightarrow> string \<Rightarrow> string \<Rightarrow> ('e, 'r, 's) curation \<Rightarrow>
   (curation_error + list_entry) \<times> ('e, 'r, 's) curation" where
  "install_downloaded uni E S given_url url text c =
     (if starts_with ''<'' (trim_start text) then (Inl (HtmlPage url), c)
      else if count_rules text = 0 then (Inl (NoRules url), c)
      else let name = (case list_title text of Some t \<Rightarrow> t | None \<Rightarrow> name_from_url url);
               sanitized = sanitize_name name;
               stale = map le_name (filter (\<lambda>l. (le_source l = url \<or> le_source l = given_url) \<and> le_name l \<noteq> sanitized)
                         (cu_lists c));
               c1 = fold (\<lambda>old c. snd (remove_list uni E S old c)) stale c
           in add_list uni E S name url text c1)"

text \<open>\<open>loaded\<close> is what reading the resource file gives.\<close>

definition reload_resources ::
  "('e, 'r) engine_ops \<Rightarrow> 's store_ops \<Rightarrow> string + 'r list \<Rightarrow> ('e, 'r, 's) curation \<Rightarrow>
   (curation_error + nat) \<times> ('e, 'r, 's) curation" where
  "reload_resources E S loaded c =
     (case loaded of
        Inl e \<Rightarrow> (Inl (ScriptletError e), c)
      | Inr rs \<Rightarrow>
          if rs = [] then (Inl (ScriptletError ''scriptlet resource file is empty''), c)
          else (Inr (length rs), core_mutate E S id (c\<lparr>cu_resources := rs\<rparr>)))"

section \<open>Start-up\<close>

record reconciled =
  rc_lists :: "list_entry list"
  rc_custom :: "string list"
  rc_remove :: "string list"
  rc_ids :: "(string \<times> string) list"

definition custom_rule_lines :: "string \<Rightarrow> string list" where
  "custom_rule_lines text = filter (\<lambda>t. t \<noteq> []) (map trim (lines (strip_source_header text)))"

definition is_custom_id :: "(string \<Rightarrow> string) \<Rightarrow> string \<Rightarrow> bool" where
  "is_custom_id uni i \<longleftrightarrow> i = list_id_of uni CUSTOM_LIST \<or> i = list_id_of uni ''custom-web''"

definition reconcile_step :: "(string \<Rightarrow> string) \<Rightarrow> reconciled \<Rightarrow> stored_list \<Rightarrow> reconciled" where
  "reconcile_step uni R s =
     (if is_custom_id uni (sl_id s) then
        R\<lparr>rc_custom := rc_custom R @ custom_rule_lines (sl_text s),
          rc_remove := rc_remove R @ (if sl_id s = list_id_of uni ''custom-web'' then [sl_id s] else [])\<rparr>
      else let entry = entry_from_text (sl_id s) (sl_origin s) (sl_text s) in
        case position (\<lambda>l. le_name l = le_name entry) (rc_lists R) of
          None \<Rightarrow> R\<lparr>rc_ids := put_key (le_name entry) (sl_id s) (rc_ids R), rc_lists := rc_lists R @ [entry]\<rparr>
        | Some prev \<Rightarrow>
            if sl_id s = list_id_of uni (le_name entry) then
              R\<lparr>rc_remove := rc_remove R @ (case map_of (rc_ids R) (le_name entry) of None \<Rightarrow> [] | Some old \<Rightarrow> [old]),
                rc_ids := put_key (le_name entry) (sl_id s) (rc_ids R),
                rc_lists := (rc_lists R)[prev := entry]\<rparr>
            else R\<lparr>rc_remove := rc_remove R @ [sl_id s]\<rparr>)"

definition reconcile :: "(string \<Rightarrow> string) \<Rightarrow> stored_list list \<Rightarrow> reconciled" where
  "reconcile uni stored =
     foldl (reconcile_step uni) \<lparr>rc_lists = [], rc_custom = [], rc_remove = [], rc_ids = []\<rparr> stored"

text \<open>\<open>retain(|l| seen.insert(l))\<close>: the first of every line.\<close>

fun first_seen :: "'a set \<Rightarrow> 'a list \<Rightarrow> 'a list" where
  "first_seen seen [] = []"
| "first_seen seen (x # xs) = (if x \<in> seen then first_seen seen xs else x # first_seen (insert x seen) xs)"

definition start_core ::
  "('e, 'r) engine_ops \<Rightarrow> 's store_ops \<Rightarrow> list_entry list \<Rightarrow> 'r list \<Rightarrow> bytes option \<Rightarrow> 's \<Rightarrow> ('e, 'r, 's) curation" where
  "start_core E S ls resources cfile store =
     (case build_engine E ls resources (map_option (\<lambda>_. cfile) (st_engine_cache S store)) of (e, unsaved) \<Rightarrow>
        \<lparr>cu_lists = ls, cu_engine = e, cu_resources = resources, cu_store = store, cu_cache = cfile,
         cu_pending = (case unsaved of None \<Rightarrow> [] | Some key \<Rightarrow> [(key, e)])\<rparr>)"

definition with_store ::
  "(string \<Rightarrow> string) \<Rightarrow> ('e, 'r) engine_ops \<Rightarrow> 's store_ops \<Rightarrow> string list \<Rightarrow> 'r list \<Rightarrow> bytes option \<Rightarrow> 's \<Rightarrow>
   ('e, 'r, 's) curation" where
  "with_store uni E S custom_rules resources cfile store =
     (let configured = filter (\<lambda>s. s \<noteq> []) (map trim custom_rules);
          R = reconcile uni (st_load S store);
          s1 = fold (st_remove S) (rc_remove R) store;
          text = join [CHR 0x0A] (first_seen {} (configured @ rc_custom R));
          s2 = snd (st_persist S (list_id_of uni CUSTOM_LIST) (SOURCE_MARK @ CUSTOM_SOURCE @ [CHR 0x0A] @ text) s1);
          ls = rc_lists R @ [\<lparr>le_name = CUSTOM_LIST, le_source = CUSTOM_SOURCE, le_rules = count_rules text,
                              le_enabled = True, le_text = text\<rparr>]
      in start_core E S ls resources cfile s2)"

section \<open>Steps\<close>

datatype 'r curation_op =
    OpAdd string string string
  | OpApply "string option" string rules_update
  | OpEnable string bool
  | OpRemove string
  | OpInstall string string string
  | OpReload "string + 'r list"
  | OpWritten bool nat

fun curation_step ::
  "(string \<Rightarrow> string) \<Rightarrow> ('e, 'r) engine_ops \<Rightarrow> 's store_ops \<Rightarrow> 'r curation_op \<Rightarrow> ('e, 'r, 's) curation \<Rightarrow>
   ('e, 'r, 's) curation" where
  "curation_step uni E S (OpAdd n src t) c = snd (add_list uni E S n src t c)"
| "curation_step uni E S (OpApply n r u) c = snd (apply_rules uni E S n r u c)"
| "curation_step uni E S (OpEnable n b) c = snd (set_list_enabled uni E S n b c)"
| "curation_step uni E S (OpRemove n) c = snd (remove_list uni E S n c)"
| "curation_step uni E S (OpInstall g u t) c = snd (install_downloaded uni E S g u t c)"
| "curation_step uni E S (OpReload l) c = snd (reload_resources E S l c)"
| "curation_step uni E S (OpWritten ok i) c = finish_write E ok i c"

text \<open>The states of the collection: a first start without a cache file, any sequence of operations and
  finished cache writes, and restarts on what the last run left on disk.\<close>

inductive curation_reach ::
  "(string \<Rightarrow> string) \<Rightarrow> ('e, 'r) engine_ops \<Rightarrow> 's store_ops \<Rightarrow> ('e, 'r, 's) curation \<Rightarrow> bool"
  for uni E S where
  started: "curation_reach uni E S (with_store uni E S rules resources None store)"
| restarted: "curation_reach uni E S c \<Longrightarrow>
    curation_reach uni E S (with_store uni E S rules resources (cu_cache c) (cu_store c))"
| stepped: "curation_reach uni E S c \<Longrightarrow> curation_reach uni E S (curation_step uni E S x c)"

section \<open>The engine follows the lists\<close>

context engine
begin

definition files_ok :: "('e, 'r, 's) curation \<Rightarrow> bool" where
  "files_ok c \<longleftrightarrow> genuine (cu_cache c) \<and> (\<forall>(key, e) \<in> set (cu_pending c). compiled_for key e)"

definition engine_ok :: "('e, 'r, 's) curation \<Rightarrow> bool" where
  "engine_ok c \<longleftrightarrow>
     (\<exists>R. en_hash E R = en_hash E (rules_of (cu_lists c)) \<and>
          cu_engine c = with_resources E (cu_resources c) (en_compile E (map snd R)))"

lemma files_ok_fields [simp]:
  "files_ok (c\<lparr>cu_store := s\<rparr>) = files_ok c" "files_ok (c\<lparr>cu_lists := ls\<rparr>) = files_ok c"
  "files_ok (c\<lparr>cu_resources := rs\<rparr>) = files_ok c"
  by (simp_all add: files_ok_def)

lemma engine_ok_store [simp]: "engine_ok (c\<lparr>cu_store := s\<rparr>) = engine_ok c"
  by (simp add: engine_ok_def)

lemma rebuild_ok: "files_ok c \<Longrightarrow> files_ok (rebuild E S c) \<and> engine_ok (rebuild E S c)"
proof -
  assume ok: "files_ok c"
  obtain e u where b: "build_engine E (cu_lists c) (cu_resources c) (cache_slot S c) = (e, u)" by fastforce
  have gen: "\<And>f. cache_slot S c = Some f \<Longrightarrow> genuine f"
    using ok by (auto simp: cache_slot_def files_ok_def)
  show ?thesis
    using build_engine_compiled [OF gen b] ok
    by (auto simp: rebuild_def b files_ok_def engine_ok_def split: option.splits)
qed

lemma core_mutate_ok: "files_ok c \<Longrightarrow> files_ok (core_mutate E S f c) \<and> engine_ok (core_mutate E S f c)"
  by (simp add: core_mutate_def rebuild_ok)

lemmas mutate_oks = core_mutate_ok [THEN conjunct1] core_mutate_ok [THEN conjunct2]

abbreviation both_ok :: "('e, 'r, 's) curation \<Rightarrow> bool" where
  "both_ok c \<equiv> files_ok c \<and> engine_ok c"

lemma add_list_ok: "both_ok c \<Longrightarrow> both_ok (snd (add_list uni E S n src t c))"
  by (auto simp: add_list_def Let_def mutate_oks split: prod.splits sum.splits)

lemma append_rules_ok: "both_ok c \<Longrightarrow> both_ok (snd (append_rules uni E S n src r c))"
  by (simp add: append_rules_def Let_def add_list_ok)

lemma apply_rules_ok: "both_ok c \<Longrightarrow> both_ok (snd (apply_rules uni E S n r u c))"
  by (cases u) (simp_all add: apply_rules_def Let_def add_list_ok append_rules_ok)

lemma set_enabled_ok: "both_ok c \<Longrightarrow> both_ok (snd (set_list_enabled uni E S n b c))"
  by (auto simp: set_list_enabled_def mutate_oks split: option.splits prod.splits sum.splits)

lemma remove_list_ok: "both_ok c \<Longrightarrow> both_ok (snd (remove_list uni E S n c))"
  by (auto simp: remove_list_def Let_def mutate_oks)

lemma remove_lists_ok: "both_ok c \<Longrightarrow> both_ok (fold (\<lambda>old c. snd (remove_list uni E S old c)) ns c)"
  by (induction ns arbitrary: c) (simp_all add: remove_list_ok)

lemma install_ok: "both_ok c \<Longrightarrow> both_ok (snd (install_downloaded uni E S g u t c))"
  by (simp add: install_downloaded_def Let_def add_list_ok remove_lists_ok)

lemma reload_ok: "both_ok c \<Longrightarrow> both_ok (snd (reload_resources E S l c))"
  by (auto simp: reload_resources_def mutate_oks split: sum.splits)

lemma finish_write_ok: "both_ok c \<Longrightarrow> both_ok (finish_write E ok i c)"
proof (cases "i < length (cu_pending c)")
  case True
  assume ok: "both_ok c"
  obtain k e where p: "cu_pending c ! i = (k, e)" by fastforce
  then have "compiled_for k e" using ok True nth_mem [OF True] by (fastforce simp: files_ok_def)
  moreover have "set (remove_at i (cu_pending c)) \<subseteq> set (cu_pending c)"
    by (auto simp: remove_at_def dest: in_set_takeD in_set_dropD)
  ultimately show ?thesis
    using ok True p by (auto simp: finish_write_def files_ok_def engine_ok_def intro: genuine_save)
qed (simp add: finish_write_def)

lemma step_ok: "both_ok c \<Longrightarrow> both_ok (curation_step uni E S x c)"
  by (cases x) (simp_all only: curation_step.simps add_list_ok apply_rules_ok set_enabled_ok remove_list_ok
      install_ok reload_ok finish_write_ok)

lemma start_core_ok: "genuine f \<Longrightarrow> both_ok (start_core E S ls rs f s)"
proof -
  assume f: "genuine f"
  obtain e u where b: "build_engine E ls rs (map_option (\<lambda>_. f) (st_engine_cache S s)) = (e, u)" by fastforce
  have gen: "\<And>g. map_option (\<lambda>_. f) (st_engine_cache S s) = Some g \<Longrightarrow> genuine g" using f by auto
  show ?thesis
    using build_engine_compiled [OF gen b] f
    by (auto simp: start_core_def b files_ok_def engine_ok_def split: option.splits)
qed

lemma with_store_ok: "genuine f \<Longrightarrow> both_ok (with_store uni E S rules rs f s)"
  unfolding with_store_def Let_def by (rule start_core_ok)

lemma reach_ok: "curation_reach uni E S c \<Longrightarrow> both_ok c"
proof (induction rule: curation_reach.induct)
  case (restarted c rules resources)
  then show ?case by (intro with_store_ok) (simp add: files_ok_def)
qed (simp_all only: with_store_ok genuine_None step_ok)

end

section \<open>What the operations do to the lists\<close>

lemma core_mutate_fields [simp]:
  "cu_lists (core_mutate E S f c) = f (cu_lists c)" "cu_store (core_mutate E S f c) = cu_store c"
  "cu_resources (core_mutate E S f c) = cu_resources c" "cu_cache (core_mutate E S f c) = cu_cache c"
  by (simp_all add: core_mutate_def rebuild_def split: prod.splits)

lemma find_list_name: "find_list n ls = Some l \<Longrightarrow> le_name l = n \<and> l \<in> set ls"
  by (auto simp: find_list_def find_Some_iff)

lemma find_list_append: "find_list n (xs @ ys) = (case find_list n xs of None \<Rightarrow> find_list n ys | Some l \<Rightarrow> Some l)"
  by (induction xs) (auto simp: find_list_def)

lemma find_list_filter:
  "find_list n (filter (\<lambda>l. le_name l \<noteq> m) ls) = (if n = m then None else find_list n ls)"
  by (induction ls) (auto simp: find_list_def)

lemma find_replace_list:
  "find_list n (replace_list e ls) = (if n = le_name e then Some e else find_list n ls)"
  by (simp add: replace_list_def find_list_append find_list_filter) (simp add: find_list_def split: option.splits)

lemma distinct_replace_list: "distinct (map le_name ls) \<Longrightarrow> distinct (map le_name (replace_list e ls))"
  by (auto simp: replace_list_def distinct_map_filter)

lemma update_first_enabled_names:
  "map le_name (update_first p (\<lambda>l. l\<lparr>le_enabled := b\<rparr>) ls) = map le_name ls"
  by (rule update_first_map) simp

lemma find_distinct: "distinct (map le_name ls) \<Longrightarrow> l \<in> set ls \<Longrightarrow> find_list (le_name l) ls = Some l"
  by (induction ls) (auto simp: find_list_def)

lemma update_first_switched:
  "distinct (map le_name ls) \<Longrightarrow> l \<in> set (update_first (\<lambda>l. le_name l = n) (\<lambda>l. l\<lparr>le_enabled := b\<rparr>) ls) \<Longrightarrow>
   le_name l = n \<Longrightarrow> le_enabled l = b"
proof (induction ls)
  case (Cons x ls)
  show ?case
  proof (cases "le_name x = n")
    case True
    with Cons.prems have "l = x\<lparr>le_enabled := b\<rparr> \<or> l \<in> set ls" by simp
    moreover have "l \<notin> set ls" using Cons.prems(1,3) True by (auto simp: image_iff)
    ultimately show ?thesis by auto
  next
    case False
    with Cons.prems have "l \<in> set (update_first (\<lambda>l. le_name l = n) (\<lambda>l. l\<lparr>le_enabled := b\<rparr>) ls)" by auto
    with Cons.IH Cons.prems(1,3) show ?thesis by simp
  qed
qed simp

lemma update_first_others:
  "le_name l \<noteq> n \<Longrightarrow> l \<in> set (update_first (\<lambda>l. le_name l = n) (\<lambda>l. l\<lparr>le_enabled := b\<rparr>) ls) \<longleftrightarrow> l \<in> set ls"
  by (induction ls) auto

section \<open>Start-up\<close>

lemma reconcile_step_names:
  "set (map le_name (rc_lists (reconcile_step uni R s)))
     \<subseteq> insert (le_name (entry_from_text (sl_id s) (sl_origin s) (sl_text s))) (set (map le_name (rc_lists R)))"
  by (auto simp: reconcile_step_def Let_def dest!: set_update_subset_insert [THEN subsetD] split: option.splits)

lemma reconcile_step_keeps:
  assumes "e \<in> set (rc_lists R)" "le_name (entry_from_text (sl_id s) (sl_origin s) (sl_text s)) \<noteq> le_name e"
  shows "e \<in> set (rc_lists (reconcile_step uni R s))"
proof -
  let ?x = "entry_from_text (sl_id s) (sl_origin s) (sl_text s)"
  have "e \<in> set ((rc_lists R)[p := ?x])" if "position (\<lambda>l. le_name l = le_name ?x) (rc_lists R) = Some p" for p
  proof -
    obtain i where i: "i < length (rc_lists R)" "rc_lists R ! i = e" using assms(1) by (auto simp: in_set_conv_nth)
    have "le_name (rc_lists R ! p) = le_name ?x" using position_Some [OF that] by simp
    then have "i \<noteq> p" using i assms(2) by auto
    then show ?thesis using i by (auto simp: in_set_conv_nth intro!: exI [of _ i])
  qed
  with assms(1) show ?thesis by (auto simp: reconcile_step_def Let_def split: option.splits)
qed

lemma reconcile_keeps:
  "e \<in> set (rc_lists R) \<Longrightarrow>
   (\<And>s. s \<in> set xs \<Longrightarrow> le_name (entry_from_text (sl_id s) (sl_origin s) (sl_text s)) \<noteq> le_name e) \<Longrightarrow>
   e \<in> set (rc_lists (foldl (reconcile_step uni) R xs))"
  by (induction xs arbitrary: R) (simp_all add: reconcile_step_keeps)

lemma reconcile_names:
  "set (map le_name (rc_lists (foldl (reconcile_step uni) R xs)))
     \<subseteq> set (map le_name (rc_lists R)) \<union> (\<lambda>s. le_name (entry_from_text (sl_id s) (sl_origin s) (sl_text s))) ` set xs"
proof (induction xs arbitrary: R)
  case (Cons s xs)
  show ?case using Cons [of "reconcile_step uni R s"] reconcile_step_names [of uni R s] by auto
qed simp

text \<open>A stored list whose name no other stored list has is loaded as it is.\<close>

lemma reconcile_appends:
  "\<not> is_custom_id uni (sl_id s) \<Longrightarrow> entry_from_text (sl_id s) (sl_origin s) (sl_text s) = e \<Longrightarrow>
   le_name e \<notin> set (map le_name (rc_lists R)) \<Longrightarrow> e \<in> set (rc_lists (reconcile_step uni R s))"
proof -
  assume a: "\<not> is_custom_id uni (sl_id s)" "entry_from_text (sl_id s) (sl_origin s) (sl_text s) = e"
    "le_name e \<notin> set (map le_name (rc_lists R))"
  have "position (\<lambda>l. le_name l = le_name e) (rc_lists R) = None"
    unfolding position_None
  proof
    fix l assume "l \<in> set (rc_lists R)"
    then have "le_name l \<in> set (map le_name (rc_lists R))" by simp
    with a(3) show "le_name l \<noteq> le_name e" by metis
  qed
  with a(1,2) show ?thesis by (simp add: reconcile_step_def del: position_None)
qed

lemma reconcile_loads:
  assumes "distinct (map sl_id stored)" "s \<in> set stored" "\<not> is_custom_id uni (sl_id s)"
    and e: "entry_from_text (sl_id s) (sl_origin s) (sl_text s) = e"
    and other: "\<And>s'. s' \<in> set stored \<Longrightarrow> sl_id s' \<noteq> sl_id s \<Longrightarrow>
      le_name (entry_from_text (sl_id s') (sl_origin s') (sl_text s')) \<noteq> le_name e"
  shows "e \<in> set (rc_lists (reconcile uni stored))"
proof -
  define nm where "nm = (\<lambda>s :: stored_list. le_name (entry_from_text (sl_id s) (sl_origin s) (sl_text s)))"
  define init where "init = \<lparr>rc_lists = [], rc_custom = [], rc_remove = [], rc_ids = []\<rparr>"
  obtain ys zs where split: "stored = ys @ s # zs" using split_list [OF assms(2)] by blast
  have names: "nm s' \<noteq> le_name e" if "s' \<in> set ys \<or> s' \<in> set zs" for s'
  proof -
    have "s' \<in> set stored" using that by (auto simp: split)
    moreover have "sl_id s \<notin> sl_id ` set ys" "sl_id s \<notin> sl_id ` set zs" using assms(1) by (simp_all add: split)
    then have "sl_id s' \<noteq> sl_id s" using that by (metis imageI)
    ultimately show ?thesis unfolding nm_def by (rule other)
  qed
  have "set (map le_name (rc_lists (foldl (reconcile_step uni) init ys))) \<subseteq> set (map le_name (rc_lists init)) \<union> nm ` set ys"
    unfolding nm_def by (rule reconcile_names)
  moreover have "le_name e \<notin> nm ` set ys" using names by (metis imageE)
  ultimately have "le_name e \<notin> set (map le_name (rc_lists (foldl (reconcile_step uni) init ys)))"
    by (auto simp: init_def)
  then have "e \<in> set (rc_lists (reconcile_step uni (foldl (reconcile_step uni) init ys) s))"
    by (rule reconcile_appends [OF assms(3) e])
  then have "e \<in> set (rc_lists (foldl (reconcile_step uni) (reconcile_step uni (foldl (reconcile_step uni) init ys) s) zs))"
    by (rule reconcile_keeps) (use names in \<open>simp add: nm_def\<close>)
  then show ?thesis by (simp add: reconcile_def split init_def)
qed

lemma reconcile_step_distinct:
  assumes "distinct (map le_name (rc_lists R))"
  shows "distinct (map le_name (rc_lists (reconcile_step uni R s)))"
proof -
  let ?x = "entry_from_text (sl_id s) (sl_origin s) (sl_text s)"
  have "map le_name ((rc_lists R)[p := ?x]) = map le_name (rc_lists R)"
    if "position (\<lambda>l. le_name l = le_name ?x) (rc_lists R) = Some p" for p
    using position_Some [OF that] by (simp add: map_update list_update_same_conv)
  with assms show ?thesis by (auto simp: reconcile_step_def Let_def split: option.splits)
qed

lemma reconcile_distinct: "distinct (map le_name (rc_lists (reconcile uni stored)))"
proof -
  have "distinct (map le_name (rc_lists R)) \<Longrightarrow> distinct (map le_name (rc_lists (foldl (reconcile_step uni) R xs)))" for R xs
    by (induction xs arbitrary: R) (simp_all add: reconcile_step_distinct)
  then show ?thesis by (simp add: reconcile_def)
qed

lemma with_store_lists:
  "\<exists>custom. cu_lists (with_store uni E S rules rs f s) = rc_lists (reconcile uni (st_load S s)) @ [custom] \<and>
     le_name custom = CUSTOM_LIST"
  by (simp add: with_store_def Let_def start_core_def split: prod.splits)

lemma add_list_Inr:
  assumes "add_list uni E S name source text c = (Inr entry, c')"
  shows "\<exists>s'. st_persist S (list_id_of uni (sanitize_name name)) (list_header source (le_enabled entry) @ text) (cu_store c) = (Inr (), s') \<and>
      c' = core_mutate E S (replace_list entry) (c\<lparr>cu_store := s'\<rparr>)"
    and "sanitize_name name \<noteq> []"
    and "entry = \<lparr>le_name = sanitize_name name, le_source = source, le_rules = count_rules text,
      le_enabled = (case find_list (sanitize_name name) (cu_lists c) of None \<Rightarrow> True | Some l \<Rightarrow> le_enabled l), le_text = text\<rparr>"
  using assms by (auto simp: add_list_def Let_def split: prod.splits sum.splits if_splits)

section \<open>Properties\<close>

text \<open>whatever was done to the lists (added, appended to, switched, removed, downloaded, with failing
  writes, cache files written in any order, restarts), the engine in use is the one compiled from
  the texts of the enabled lists, with the resources in force; the only exception is a cache file
  written for other rules under the same 64-bit key.\<close>

theorem engine_tracks_lists:
  assumes "engine E" "curation_reach uni E S c"
  shows "cu_engine c = with_resources E (cu_resources c) (en_compile E (map snd (rules_of (cu_lists c)))) \<or>
    (\<exists>R. R \<noteq> rules_of (cu_lists c) \<and> en_hash E R = en_hash E (rules_of (cu_lists c)) \<and>
      cu_engine c = with_resources E (cu_resources c) (en_compile E (map snd R)))"
  using engine.reach_ok [OF assms] unfolding engine.engine_ok_def [OF assms(1)] by metis

definition sample_curation :: "(string list \<times> nat list, nat, memory_lists) curation" where
  "sample_curation = curation_step id text_engine memory_store (OpAdd ''Ads'' ''u'' ''||a^'')
     (with_store id text_engine memory_store [''||c^''] [] None [])"

lemma sample_curation_reach: "curation_reach id text_engine memory_store sample_curation"
  unfolding sample_curation_def by (intro curation_reach.intros)

theorem engine_tracks_lists_witness:
  "\<exists>R. en_hash text_engine R = en_hash text_engine (rules_of (cu_lists sample_curation)) \<and>
     cu_engine sample_curation = with_resources text_engine (cu_resources sample_curation)
       (en_compile text_engine (map snd R))"
  using engine_tracks_lists [OF texts_only.engine_axioms sample_curation_reach] by blast

text \<open>the engine and its cache key do not depend on the order in which the lists are kept or come
  out of the store, only on which lists are enabled.\<close>

theorem engine_order_irrelevant:
  assumes "mset (filter le_enabled ls) = mset (filter le_enabled ls')"
  shows "engine_key E ls = engine_key E ls' \<and> build_engine E ls rs cache = build_engine E ls' rs cache"
proof -
  have "rules_of ls = rules_of ls'"
    unfolding rules_of_sort using assms by (intro properties_for_sort) simp_all
  then show ?thesis by (simp add: build_engine_def engine_key_def Let_def split: option.split)
qed

theorem engine_order_irrelevant_witness:
  "build_engine text_engine (rev (cu_lists sample_curation)) [] None = build_engine text_engine (cu_lists sample_curation) [] None"
proof -
  have "mset (filter le_enabled (rev (cu_lists sample_curation))) = mset (filter le_enabled (cu_lists sample_curation))"
    by (simp add: rev_filter [symmetric])
  from engine_order_irrelevant [OF this] show ?thesis by blast
qed

text \<open>adding a list. It is refused without any effect if no character of the name can be kept, and a
  failed write leaves the lists and the engine as they were. Otherwise exactly the list of that name
  is replaced, it is found again, and a list that was switched off stays off.\<close>

theorem add_list_effect:
  assumes "add_list uni E S name source text c = (res, c')"
  shows "case res of
      Inl EmptyName \<Rightarrow> sanitize_name name = [] \<and> c' = c
    | Inl _ \<Rightarrow> c' = c\<lparr>cu_store := cu_store c'\<rparr>
    | Inr l \<Rightarrow> le_name l = sanitize_name name \<and> le_text l = text \<and> le_source l = source \<and>
        le_rules l = count_rules text \<and>
        le_enabled l = (case find_list (le_name l) (cu_lists c) of None \<Rightarrow> True | Some old \<Rightarrow> le_enabled old) \<and>
        (\<forall>n. find_list n (cu_lists c') = (if n = le_name l then Some l else find_list n (cu_lists c))) \<and>
        (distinct (map le_name (cu_lists c)) \<longrightarrow> distinct (map le_name (cu_lists c')))"
proof (cases res)
  case (Inl e)
  then show ?thesis
    using assms by (auto simp: add_list_def Let_def split: prod.splits sum.splits if_splits curation_error.splits)
next
  case (Inr l)
  note a = add_list_Inr [OF assms [unfolded Inr]]
  from a(1) obtain s' where "c' = core_mutate E S (replace_list l) (c\<lparr>cu_store := s'\<rparr>)" by blast
  then have c': "cu_lists c' = replace_list l (cu_lists c)" by simp
  have "\<forall>n. find_list n (cu_lists c') = (if n = le_name l then Some l else find_list n (cu_lists c))"
    by (simp add: c' find_replace_list)
  moreover have "distinct (map le_name (cu_lists c)) \<longrightarrow> distinct (map le_name (cu_lists c'))"
    by (simp add: c' distinct_replace_list)
  ultimately show ?thesis unfolding Inr using a(3) by (simp split: option.splits)
qed

theorem add_list_effect_witness:
  "fst (add_list id text_engine memory_store ''  --.txt'' ''u'' ''||b^'' sample_curation) = Inl EmptyName \<and>
   snd (add_list id text_engine memory_store ''  --.txt'' ''u'' ''||b^'' sample_curation) = sample_curation"
proof -
  have "sanitize_name ''  --.txt'' = []" by code_simp
  then have "add_list id text_engine memory_store ''  --.txt'' ''u'' ''||b^'' sample_curation = (Inl EmptyName, sample_curation)"
    by (simp add: add_list_def)
  from add_list_effect [OF this] this show ?thesis by simp
qed

text \<open>switching a list off takes all its rules out of the engine, and those of no other list; the
  engine's rules are then exactly the texts of the lists that are on.\<close>

theorem disabled_list_inactive:
  assumes "set_list_enabled uni E S name False c = (Inr b, c')" "distinct (map le_name (cu_lists c))"
  shows "name \<notin> fst ` set (rules_of (cu_lists c')) \<and>
    (\<forall>n t. n \<noteq> name \<longrightarrow> ((n, t) \<in> set (rules_of (cu_lists c')) \<longleftrightarrow> (n, t) \<in> set (rules_of (cu_lists c))))"
proof (cases "find_list name (cu_lists c)")
  case None
  then have c': "c' = c" using assms(1) by (simp add: set_list_enabled_def)
  have "le_name l \<noteq> name" if "l \<in> set (cu_lists c)" for l
    using find_distinct [OF assms(2) that] None by auto
  then have "name \<notin> le_name ` set (cu_lists c)" by (metis imageE)
  then show ?thesis by (auto simp: c' set_rules_of)
next
  case (Some l)
  let ?ls = "update_first (\<lambda>l. le_name l = name) (\<lambda>l. l\<lparr>le_enabled := False\<rparr>) (cu_lists c)"
  have c': "cu_lists c' = ?ls"
    using assms(1) Some by (auto simp: set_list_enabled_def split: prod.splits sum.splits)
  have "name \<notin> fst ` set (rules_of ?ls)"
    using update_first_switched [OF assms(2)] by (auto simp: set_rules_of)
  moreover have "\<forall>n t. n \<noteq> name \<longrightarrow> ((n, t) \<in> set (rules_of ?ls) \<longleftrightarrow> (n, t) \<in> set (rules_of (cu_lists c)))"
    using update_first_others [of _ name False "cu_lists c"] by (auto simp: set_rules_of)
  ultimately show ?thesis by (simp add: c')
qed


definition sample_dir :: list_dir where
  "sample_dir = \<lparr>ld_path = ''d'', ld_exists = True, ld_files = [], ld_list_fault = False, ld_mkdir_fault = None,
     ld_write_fault = (\<lambda>_. None), ld_remove_fault = (\<lambda>_. False), ld_age = (\<lambda>_. None)\<rparr>"

definition sample_disk_lists :: "(string list \<times> nat list, nat, list_dir) curation" where
  "sample_disk_lists = with_store id text_engine disk_store [''||c^''] [] None sample_dir"

definition sample_list :: list_entry where
  "sample_list = \<lparr>le_name = ''ads'', le_source = ''u'', le_rules = 1, le_enabled = True, le_text = ''||a^''\<rparr>"

abbreviation "sample_added \<equiv> add_list id text_engine disk_store ''ads.txt'' ''u'' ''||a^'' sample_disk_lists"

lemma sample_disk_ok: "dir_ok (cu_store sample_disk_lists)"
  by code_simp

lemma sample_added_list: "sample_added = (Inr sample_list, snd sample_added)"
proof -
  have "fst sample_added = Inr sample_list" by code_simp
  then show ?thesis by (metis prod.collapse)
qed


theorem disabled_list_inactive_witness:
  "''ads'' \<notin> fst ` set (rules_of (cu_lists (snd (set_list_enabled id text_engine disk_store ''ads'' False (snd sample_added)))))"
proof -
  let ?s = "set_list_enabled id text_engine disk_store ''ads'' False (snd sample_added)"
  have "fst ?s = Inr True" by code_simp
  then have "?s = (Inr True, snd ?s)" by (metis prod.collapse)
  moreover have "distinct (map le_name (cu_lists (snd sample_added)))" by code_simp
  ultimately show ?thesis by (rule disabled_list_inactive [THEN conjunct1])
qed

text \<open>two lists whose names differ only in case are two lists in memory but share one file: adding
  the second overwrites the stored text of the first, so that only the second survives a restart.\<close>

theorem case_collision_overwrites:
  assumes "add_list uni E disk_store n1 src1 t1 c = (Inr l1, c1)" "add_list uni E disk_store n2 src2 t2 c1 = (Inr l2, c2)"
    and "le_name l1 \<noteq> le_name l2" "list_id_of uni (le_name l1) = list_id_of uni (le_name l2)" "dir_ok (cu_store c)"
  shows "find_list (le_name l1) (cu_lists c2) = Some l1 \<and> find_list (le_name l2) (cu_lists c2) = Some l2 \<and>
    dir_texts (cu_store c2) (list_id_of uni (le_name l1)) = Some (list_header src2 (le_enabled l2) @ t2)"
proof -
  note a1 = add_list_Inr [OF assms(1)] and a2 = add_list_Inr [OF assms(2)]
  obtain s1 where p1: "st_persist disk_store (list_id_of uni (sanitize_name n1)) (list_header src1 (le_enabled l1) @ t1)
      (cu_store c) = (Inr (), s1)" and c1: "c1 = core_mutate E disk_store (replace_list l1) (c\<lparr>cu_store := s1\<rparr>)"
    using a1(1) by blast
  obtain s2 where p2: "st_persist disk_store (list_id_of uni (sanitize_name n2)) (list_header src2 (le_enabled l2) @ t2)
      s1 = (Inr (), s2)" and c2: "c2 = core_mutate E disk_store (replace_list l2) (c1\<lparr>cu_store := s2\<rparr>)"
    using a2(1) c1 by auto
  have ok: "dir_ok s1" by (rule disk.persist_ok [OF assms(5) list_id_dir_name [OF a1(2)] p1])
  have "dir_texts s2 (list_id_of uni (sanitize_name n2)) = Some (list_header src2 (le_enabled l2) @ t2)"
    by (rule disk.persist_text [OF ok list_id_dir_name [OF a2(2)] p2])
  moreover have "le_name l2 = sanitize_name n2" using a2(3) by simp
  ultimately show ?thesis using assms(3,4) by (simp add: c1 c2 find_replace_list)
qed

theorem case_collision_overwrites_witness:
  "dir_texts (cu_store (snd (add_list id text_engine disk_store ''ADS'' ''v'' ''||b^'' (snd sample_added)))) ''ads''
     = Some (list_header ''v'' True @ ''||b^'')"
proof -
  let ?l = "\<lparr>le_name = ''ADS'', le_source = ''v'', le_rules = 1, le_enabled = True, le_text = ''||b^''\<rparr>"
  let ?a = "add_list id text_engine disk_store ''ADS'' ''v'' ''||b^'' (snd sample_added)"
  have "fst ?a = Inr ?l" by code_simp
  then have a: "?a = (Inr ?l, snd ?a)" by (metis prod.collapse)
  have i: "list_id_of id (le_name sample_list) = list_id_of id (le_name ?l)" "list_id_of id (le_name sample_list) = ''ads''"
    by code_simp+
  show ?thesis
    using case_collision_overwrites [OF sample_added_list a _ i(1) sample_disk_ok] i(2) by (simp add: sample_list_def)
qed

end
