(* ===== verification/Adblock_Scriptlets.thy ===== *)
theory Adblock_Scriptlets
  imports Json
begin

text \<open>
  \<open>adblock/scriptlets.rs\<close>: the library of scriptlet resources. \<open>b64\<close> is the base64 decoder (its result
  as text, if it is text), \<open>of_json\<close> the decoder of the resource file.
\<close>

record resource =
  rs_name :: string
  rs_aliases :: "string list"
  rs_injectable :: bool
  rs_content :: string

record scriptlet_info =
  si_name :: string
  si_aliases :: "string list"
  si_injectable :: bool
  si_bytes :: nat

record scriptlets =
  sc_inject :: bool
  sc_path :: path
  sc_resources :: "resource list"
  sc_fns :: "string \<Rightarrow> string option"

text \<open>The name of a function is what stands before the first parenthesis or whitespace.\<close>

fun fn_name :: "string \<Rightarrow> string" where
  "fn_name [] = []"
| "fn_name (c # s) = (if c = CHR ''('' \<or> 0 < ws_len (c # s) then [] else c # fn_name s)"

definition resource_fn :: "(string \<Rightarrow> string option) \<Rightarrow> resource \<Rightarrow> string option" where
  "resource_fn b64 r =
     (if ends_with ''.fn'' (rs_name r) then None
      else Option.bind (b64 (rs_content r)) (\<lambda>src.
        Option.bind (strip_prefix ''function '' src) (\<lambda>rest.
          filter_opt (\<lambda>n. n \<noteq> []) (Some (fn_name rest)))))"

definition build_fn_map :: "(string \<Rightarrow> string option) \<Rightarrow> resource list \<Rightarrow> string \<Rightarrow> string option" where
  "build_fn_map b64 rs =
     fold (\<lambda>r m. case resource_fn b64 r of None \<Rightarrow> m | Some f \<Rightarrow> m(f \<mapsto> rs_name r)) rs Map.empty"

datatype scriptlet_error = ReadingResources path | ParsingResources | EmptyResources

definition load_resources :: "(string \<Rightarrow> resource list option) \<Rightarrow> path \<Rightarrow> disk \<Rightarrow> scriptlet_error + resource list" where
  "load_resources of_json p d =
     (case read_to_string d p of
        None \<Rightarrow> Inl (ReadingResources p)
      | Some t \<Rightarrow> (case of_json t of None \<Rightarrow> Inl ParsingResources | Some rs \<Rightarrow> Inr rs))"

text \<open>An empty path means that no file is configured.\<close>

definition scriptlets_from_config ::
  "(string \<Rightarrow> string option) \<Rightarrow> (string \<Rightarrow> resource list option) \<Rightarrow> bool \<Rightarrow> path \<Rightarrow> disk \<Rightarrow> scriptlet_error + scriptlets" where
  "scriptlets_from_config b64 of_json inject p d =
     and_then (if p = no_path \<or> \<not> path_exists d p then Inr [] else load_resources of_json p d)
       (\<lambda>rs. Inr \<lparr>sc_inject = inject, sc_path = p, sc_resources = rs, sc_fns = build_fn_map b64 rs\<rparr>)"

definition scriptlets_on :: "scriptlets \<Rightarrow> bool" where
  "scriptlets_on sc \<longleftrightarrow> sc_inject sc \<and> sc_resources sc \<noteq> []"

definition reload_from_disk ::
  "(string \<Rightarrow> string option) \<Rightarrow> (string \<Rightarrow> resource list option) \<Rightarrow> disk \<Rightarrow> scriptlets \<Rightarrow>
   (scriptlet_error + nat) \<times> scriptlets" where
  "reload_from_disk b64 of_json d sc =
     (case load_resources of_json (sc_path sc) d of
        Inl e \<Rightarrow> (Inl e, sc)
      | Inr rs \<Rightarrow>
          if rs = [] then (Inl EmptyResources, sc)
          else (Inr (length rs), sc\<lparr>sc_fns := build_fn_map b64 rs, sc_resources := rs\<rparr>))"

text \<open>\<open>str::split\<close> with a (non-empty) string: the pieces between its occurrences; the number is what is
  left to skip of the last occurrence.\<close>

fun split_str :: "string \<Rightarrow> nat \<Rightarrow> string \<Rightarrow> string \<Rightarrow> string list" where
  "split_str p k acc [] = [rev acc]"
| "split_str p 0 acc (c # s) =
     (if starts_with p (c # s) then rev acc # split_str p (length p - 1) [] s else split_str p 0 (c # acc) s)"
| "split_str p (Suc k) acc (c # s) = split_str p k acc s"

definition called_fn :: "string \<Rightarrow> string" where
  "called_fn block = trim (hd (split CHR ''('' (hd (split CHR 0x0A block))))"

definition names_in :: "scriptlets \<Rightarrow> string \<Rightarrow> string list" where
  "names_in sc js =
     foldl (\<lambda>out block. case sc_fns sc (called_fn block) of
         None \<Rightarrow> out | Some n \<Rightarrow> if n \<in> set out then out else out @ [n])
       [] (tl (split_str (''try {'' @ [CHR 0x0A]) 0 [] js))"

definition library :: "scriptlets \<Rightarrow> scriptlet_info list" where
  "library sc =
     sort_key (\<lambda>i. (\<not> si_injectable i, si_name i))
       (map (\<lambda>r. \<lparr>si_name = rs_name r, si_aliases = rs_aliases r, si_injectable = rs_injectable r,
                  si_bytes = length (rs_content r)\<rparr>) (sc_resources sc))"

definition scriptlet_source :: "(string \<Rightarrow> string option) \<Rightarrow> string \<Rightarrow> scriptlets \<Rightarrow> string option" where
  "scriptlet_source b64 n sc = Option.bind (find (\<lambda>r. rs_name r = n) (sc_resources sc)) (\<lambda>r. b64 (rs_content r))"

section \<open>Lemmas\<close>

lemma build_fn_map_names:
  assumes "build_fn_map b64 rs f = Some n"
  shows "\<exists>r \<in> set rs. rs_name r = n \<and> resource_fn b64 r = Some f"
proof -
  have "fold (\<lambda>r m. case resource_fn b64 r of None \<Rightarrow> m | Some f \<Rightarrow> m(f \<mapsto> rs_name r)) rs m f = Some n \<Longrightarrow>
      (\<exists>r \<in> set rs. rs_name r = n \<and> resource_fn b64 r = Some f) \<or> m f = Some n" for m
  proof (induction rs arbitrary: m)
    case (Cons r rs)
    from Cons.IH [OF Cons.prems [simplified]] show ?case by (auto split: option.splits if_splits)
  qed simp
  with assms show ?thesis by (fastforce simp: build_fn_map_def)
qed

text \<open>The scriptlets reported for a page are scriptlets of the library, each once.\<close>

lemma names_in_library:
  assumes "sc_fns sc = build_fn_map b64 (sc_resources sc)"
  shows "distinct (names_in sc js) \<and> set (names_in sc js) \<subseteq> rs_name ` set (sc_resources sc)"
proof -
  let ?add = "\<lambda>out block. case sc_fns sc (called_fn block) of
      None \<Rightarrow> out | Some n \<Rightarrow> if n \<in> set out then out else out @ [n]"
  have "distinct out \<and> set out \<subseteq> rs_name ` set (sc_resources sc) \<Longrightarrow>
      distinct (foldl ?add out bs) \<and> set (foldl ?add out bs) \<subseteq> rs_name ` set (sc_resources sc)" for out bs
  proof (induction bs arbitrary: out)
    case (Cons b bs)
    have "distinct (?add out b) \<and> set (?add out b) \<subseteq> rs_name ` set (sc_resources sc)"
      using Cons.prems build_fn_map_names [of b64 "sc_resources sc"] assms by (auto split: option.splits)
    then show ?case using Cons.IH by simp
  qed simp
  then show ?thesis by (simp add: names_in_def)
qed

end
