(* ===== verification/Adblock_Decide.thy ===== *)
theory Adblock_Decide
  imports Adblock_Rewrite Adblock_Curation Adblock_Scriptlets
begin

text \<open>
  The decisions of the ad blocker (\<open>adblock/settings.rs\<close>, \<open>adblock/classify.rs\<close> and \<open>AdBlocker\<close> of
  \<open>adblock/mod.rs\<close>): the switches and their file, how a request is named, what happens to it, and what
  is put into a page. The questions put to the engine are the record \<open>match_ops\<close>.
\<close>

section \<open>Switches\<close>

record decision_overrides =
  do_enabled :: "bool option"
  do_redirect :: "bool option"
  do_removeparam :: "bool option"
  do_csp :: "bool option"
  do_cosmetic :: "bool option"
  do_scriptlets :: "bool option"
  do_runtime :: "bool option"

definition no_decision_overrides :: decision_overrides where
  "no_decision_overrides =
     \<lparr>do_enabled = None, do_redirect = None, do_removeparam = None, do_csp = None, do_cosmetic = None,
      do_scriptlets = None, do_runtime = None\<rparr>"

datatype decisions_error = BadDecisions string | DecisionsNotObject

definition parse_decision_overrides :: "(bytes \<Rightarrow> string + json) \<Rightarrow> bytes \<Rightarrow> decisions_error + decision_overrides" where
  "parse_decision_overrides parse_json body =
     (case parse_json body of
        Inl e \<Rightarrow> Inl (BadDecisions e)
      | Inr v \<Rightarrow>
          if \<not> is_object v then Inl DecisionsNotObject
          else Inr \<lparr>do_enabled = get_bool ''enabled'' v, do_redirect = get_bool ''redirect'' v,
                    do_removeparam = get_bool ''removeparam'' v, do_csp = get_bool ''csp'' v,
                    do_cosmetic = get_bool ''cosmetic'' v, do_scriptlets = get_bool ''scriptlets'' v,
                    do_runtime = get_bool ''runtime'' v\<rparr>)"

record decision_settings =
  ds_enabled :: bool
  ds_redirect :: bool
  ds_removeparam :: bool
  ds_csp :: bool
  ds_cosmetic :: bool
  ds_scriptlets :: bool
  ds_runtime :: bool

definition injects :: "decision_settings \<Rightarrow> bool" where
  "injects s \<longleftrightarrow> ds_cosmetic s \<or> ds_scriptlets s \<or> ds_runtime s"

record decision_policy =
  dp_settings :: decision_settings
  dp_path :: path

definition snapshot_overrides :: "decision_settings \<Rightarrow> decision_overrides" where
  "snapshot_overrides s =
     \<lparr>do_enabled = Some (ds_enabled s), do_redirect = Some (ds_redirect s), do_removeparam = Some (ds_removeparam s),
      do_csp = Some (ds_csp s), do_cosmetic = Some (ds_cosmetic s), do_scriptlets = Some (ds_scriptlets s),
      do_runtime = Some (ds_runtime s)\<rparr>"

definition policy_persist :: "(decision_overrides \<Rightarrow> string) \<Rightarrow> decision_policy \<Rightarrow> disk \<Rightarrow> (io_error + unit) \<times> disk" where
  "policy_persist to_json pol d =
     (if dp_path pol = no_path then (Inr (), d)
      else save_overrides to_json (dp_path pol) (snapshot_overrides (dp_settings pol)) d)"

definition policy_load ::
  "(decision_overrides \<Rightarrow> string) \<Rightarrow> (string \<Rightarrow> decision_overrides option) \<Rightarrow> path \<Rightarrow> disk \<Rightarrow> decision_policy \<times> disk" where
  "policy_load to_json of_json p d =
     (let saved = (if p = no_path then no_decision_overrides else load_overrides of_json no_decision_overrides p d);
          pol = \<lparr>dp_settings =
                   \<lparr>ds_enabled = unwrap_or (do_enabled saved) True, ds_redirect = unwrap_or (do_redirect saved) True,
                    ds_removeparam = unwrap_or (do_removeparam saved) True, ds_csp = unwrap_or (do_csp saved) True,
                    ds_cosmetic = unwrap_or (do_cosmetic saved) True, ds_scriptlets = unwrap_or (do_scriptlets saved) True,
                    ds_runtime = unwrap_or (do_runtime saved) True\<rparr>,
                 dp_path = p\<rparr>
      in (pol, if p \<noteq> no_path \<and> \<not> path_exists d p then snd (policy_persist to_json pol d) else d))"

text \<open>A write that fails is only logged: the switches have changed.\<close>

definition policy_apply ::
  "(decision_overrides \<Rightarrow> string) \<Rightarrow> decision_overrides \<Rightarrow> decision_policy \<Rightarrow> disk \<Rightarrow>
   decision_settings \<times> decision_policy \<times> disk" where
  "policy_apply to_json upd pol d =
     (let s = dp_settings pol;
          s' = \<lparr>ds_enabled = unwrap_or (do_enabled upd) (ds_enabled s),
                ds_redirect = unwrap_or (do_redirect upd) (ds_redirect s),
                ds_removeparam = unwrap_or (do_removeparam upd) (ds_removeparam s),
                ds_csp = unwrap_or (do_csp upd) (ds_csp s),
                ds_cosmetic = unwrap_or (do_cosmetic upd) (ds_cosmetic s),
                ds_scriptlets = unwrap_or (do_scriptlets upd) (ds_scriptlets s),
                ds_runtime = unwrap_or (do_runtime upd) (ds_runtime s)\<rparr>;
          pol' = pol\<lparr>dp_settings := s'\<rparr>
      in (s', pol', snd (policy_persist to_json pol' d)))"

section \<open>Naming a request\<close>

definition header_is :: "'h header_ops \<Rightarrow> ('h, 'u) http_request \<Rightarrow> string \<Rightarrow> string \<Rightarrow> bool" where
  "header_is H req name want \<longleftrightarrow>
     (case header_str H name (hr_headers req) of
        None \<Rightarrow> False
      | Some v \<Rightarrow> eq_ignore_ascii_case (trim (hd (split CHR '';'' v))) want)"

definition dest_type :: "string \<Rightarrow> string" where
  "dest_type dest =
     (if dest = ''document'' then ''document''
      else if dest = ''iframe'' \<or> dest = ''frame'' then ''subdocument''
      else if dest = ''image'' then ''image''
      else if dest = ''script'' then ''script''
      else if dest = ''style'' then ''stylesheet''
      else if dest = ''video'' \<or> dest = ''audio'' then ''media''
      else if dest = ''font'' then ''font''
      else if dest = ''object'' \<or> dest = ''embed'' then ''object''
      else if dest = ''empty'' then ''fetch''
      else ''other'')"

definition request_type :: "'h header_ops \<Rightarrow> ('h, 'u) http_request \<Rightarrow> string" where
  "request_type H req =
     (if header_is H req ''upgrade'' ''websocket'' then ''websocket''
      else if header_is H req ''content-type'' ''text/ping'' then ''ping''
      else case header_str H ''sec-fetch-dest'' (hr_headers req) of
        Some dest \<Rightarrow> dest_type dest
      | None \<Rightarrow>
          if (case header_str H ''x-requested-with'' (hr_headers req) of
                None \<Rightarrow> False | Some v \<Rightarrow> eq_ignore_ascii_case v ''XMLHttpRequest'') then ''fetch''
          else let accept = unwrap_or (header_str H ''accept'' (hr_headers req)) [] in
            if contains_str ''text/html'' accept then ''document''
            else if contains_str ''image/'' accept then ''image''
            else if hr_method req \<noteq> ''GET'' \<and> hr_method req \<noteq> ''HEAD'' then ''fetch''
            else ''other'')"

definition source_url :: "'h header_ops \<Rightarrow> ('h, 'u) http_request \<Rightarrow> string \<Rightarrow> string \<Rightarrow> string" where
  "source_url H req url req_type =
     (let referer = unwrap_or (header_str H ''referer'' (hr_headers req)) [] in
      if referer \<noteq> [] then referer
      else if req_type = ''document'' then url else [])"

definition is_beacon_shaped :: "'h header_ops \<Rightarrow> ('h, 'u) http_request \<Rightarrow> bool" where
  "is_beacon_shaped H req \<longleftrightarrow>
     hr_method req = ''POST'' \<and> header_is H req ''sec-fetch-mode'' ''no-cors'' \<and> header_is H req ''sec-fetch-dest'' ''empty''"

section \<open>Decisions on requests\<close>

record blocker_result =
  br_matched :: bool
  br_redirect :: "string option"
  br_rewritten_url :: "string option"
  br_filter :: "string option"

record cosmetic_resources =
  cr_hide_selectors :: "string list"
  cr_procedural_actions :: "string list"
  cr_exceptions :: "string list"
  cr_injected_script :: string
  cr_generichide :: bool

text \<open>The sets the engine returns are lists in some order. \<open>as_css\<close> is \<open>None\<close> for a text that is not
  the JSON of a procedural rule.\<close>

record ('e, 'q) match_ops =
  new_request :: "string \<Rightarrow> string \<Rightarrow> string \<Rightarrow> 'q option"
  check_network_request :: "'e \<Rightarrow> 'q \<Rightarrow> blocker_result"
  get_csp_directives :: "'e \<Rightarrow> 'q \<Rightarrow> string option"
  url_cosmetic_resources :: "'e \<Rightarrow> string \<Rightarrow> cosmetic_resources"
  hidden_class_id_selectors :: "'e \<Rightarrow> string set \<Rightarrow> string set \<Rightarrow> string list \<Rightarrow> string list"
  as_css :: "string \<Rightarrow> (string \<times> string) option option"
  b64_decode :: "string \<Rightarrow> string option"

text \<open>The state an \<open>AdBlocker\<close> reads: the shared core, the switches and the live-DOM script.\<close>

record 'e ad_blocker =
  ab_core_enabled :: bool
  ab_engine :: 'e
  ab_lists :: "list_entry list"
  ab_scriptlets :: scriptlets
  ab_decisions :: decision_policy
  ab_runtime :: "string option option"

record block_attribution =
  at_rule :: "string option"
  at_list :: "string option"

record redirect =
  rd_mime :: string
  rd_body :: string

record block_decision =
  bd_blocked :: bool
  bd_attribution :: block_attribution
  bd_redirect :: "redirect option"
  bd_rewritten_url :: "string option"
  bd_csp :: "string option"
  bd_wants_body :: bool
  bd_req_type :: string

definition pass :: block_decision where
  "pass =
     \<lparr>bd_blocked = False, bd_attribution = \<lparr>at_rule = None, at_list = None\<rparr>, bd_redirect = None,
      bd_rewritten_url = None, bd_csp = None, bd_wants_body = False, bd_req_type = []\<rparr>"

definition display :: "block_attribution \<Rightarrow> string" where
  "display a =
     (let rule = unwrap_or (at_rule a) ''?'' in
      case at_list a of Some l \<Rightarrow> rule @ '' '' @ em_dash @ '' '' @ l | None \<Rightarrow> rule)"

definition ab_enabled :: "'e ad_blocker \<Rightarrow> bool" where
  "ab_enabled ab \<longleftrightarrow> ab_core_enabled ab \<and> ds_enabled (dp_settings (ab_decisions ab))"

definition filter_request_type :: "string \<Rightarrow> string" where
  "filter_request_type t = (if t = ''fetch'' then ''xmlhttprequest'' else t)"

definition decode_redirect :: "(string \<Rightarrow> string option) \<Rightarrow> string \<Rightarrow> redirect option" where
  "decode_redirect b64 data_url =
     Option.bind (strip_prefix ''data:'' data_url) (\<lambda>rest.
       Option.bind (split_once_str '';base64,'' rest) (\<lambda>(mime, payload).
         map_option (\<lambda>body. \<lparr>rd_mime = mime, rd_body = body\<rparr>) (b64 payload)))"

text \<open>The first enabled list with the rule as one of its lines.\<close>

definition filter_origin :: "list_entry list \<Rightarrow> string \<Rightarrow> string option" where
  "filter_origin ls f =
     (let needle = trim f in
      if needle = [] then None
      else map_option le_name
        (find (\<lambda>l. list_ex (\<lambda>line. trim line = needle) (lines (le_text l))) (filter le_enabled ls)))"

definition attribution :: "list_entry list \<Rightarrow> string option \<Rightarrow> block_attribution" where
  "attribution ls f = \<lparr>at_rule = f, at_list = Option.bind f (filter_origin ls)\<rparr>"

definition renders_a_page :: "string \<Rightarrow> bool" where
  "renders_a_page t \<longleftrightarrow> t = ''document'' \<or> t = ''subdocument''"

definition match_request :: "('e, 'q) match_ops \<Rightarrow> 'e ad_blocker \<Rightarrow> string \<Rightarrow> string \<Rightarrow> string \<Rightarrow> block_decision" where
  "match_request M ab url source t =
     (if \<not> ab_enabled ab then pass
      else case new_request M url source (filter_request_type t) of
        None \<Rightarrow> pass
      | Some request \<Rightarrow>
          (let result = check_network_request M (ab_engine ab) request;
               allow = dp_settings (ab_decisions ab)
           in \<lparr>bd_blocked = br_matched result,
               bd_attribution = attribution (ab_lists ab) (br_filter result),
               bd_redirect = (if br_matched result \<and> ds_redirect allow
                              then Option.bind (br_redirect result) (decode_redirect (b64_decode M)) else None),
               bd_rewritten_url = (if ds_removeparam allow then br_rewritten_url result else None),
               bd_csp = (if ds_csp allow \<and> \<not> br_matched result then get_csp_directives M (ab_engine ab) request else None),
               bd_wants_body = renders_a_page t \<and> \<not> br_matched result \<and> injects allow,
               bd_req_type = []\<rparr>))"

definition check :: "('e, 'q) match_ops \<Rightarrow> 'e ad_blocker \<Rightarrow> string \<Rightarrow> string \<Rightarrow> string \<Rightarrow> block_decision" where
  "check M ab url source t = (match_request M ab url source t)\<lparr>bd_req_type := t\<rparr>"

definition check_request ::
  "'h header_ops \<Rightarrow> ('e, 'q) match_ops \<Rightarrow> 'e ad_blocker \<Rightarrow> string \<Rightarrow> ('h, 'u) http_request \<Rightarrow> block_decision" where
  "check_request H M ab url req =
     (let req_type = request_type H req;
          source = source_url H req url req_type;
          decision = check M ab url source req_type
      in if \<not> bd_blocked decision \<and> req_type \<noteq> ''ping'' \<and> is_beacon_shaped H req then
           (let as_beacon = check M ab url source ''ping'' in if bd_blocked as_beacon then as_beacon else decision)
         else decision)"

definition check_host :: "('e, 'q) match_ops \<Rightarrow> 'e ad_blocker \<Rightarrow> string \<Rightarrow> string \<Rightarrow> block_decision" where
  "check_host M ab scheme host = check M ab (scheme @ ''://'' @ host @ ''/'') [] ''document''"

definition check_dns :: "('e, 'q) match_ops \<Rightarrow> 'e ad_blocker \<Rightarrow> string \<Rightarrow> block_decision" where
  "check_dns M ab domain =
     (let url = ''https://'' @ domain @ ''/'' in check M ab url url ''other'')"

section \<open>Answers to blocked requests, and the forwarded request\<close>

record 'h http_response =
  rp_status :: nat
  rp_headers :: 'h
  rp_body :: string

text \<open>The bytes of a header value built from a string: no control character but the tab.\<close>

definition header_byte :: "char \<Rightarrow> bool" where
  "header_byte c \<longleftrightarrow> 32 \<le> code c \<and> code c \<noteq> 127 \<or> code c = 9"

definition blocked_response :: "'h header_ops \<Rightarrow> 'h \<Rightarrow> block_decision \<Rightarrow> 'h http_response" where
  "blocked_response H no_headers decision =
     (let forbidden = \<lparr>rp_status = 403, rp_headers = no_headers, rp_body = []\<rparr> in
      case bd_redirect decision of
        None \<Rightarrow> forbidden
      | Some r \<Rightarrow>
          if list_all header_byte (rd_mime r)
          then \<lparr>rp_status = 200, rp_headers = append_header H ''content-type'' (rd_mime r) no_headers, rp_body = rd_body r\<rparr>
          else forbidden)"

text \<open>The script is set once; later addresses are ignored.\<close>

definition set_admin_endpoint :: "string \<Rightarrow> string \<Rightarrow> 'e ad_blocker \<Rightarrow> 'e ad_blocker" where
  "set_admin_endpoint template admin_listen ab =
     (case ab_runtime ab of
        Some _ \<Rightarrow> ab
      | None \<Rightarrow> ab\<lparr>ab_runtime := Some (cosmetic_runtime template admin_listen)\<rparr>)"

definition filter_request ::
  "'h header_ops \<Rightarrow> 'u uri_ops \<Rightarrow> block_decision \<Rightarrow> ('h, 'u) http_request \<Rightarrow> ('h, 'u) http_request" where
  "filter_request H U decision parts =
     (let parts1 = (if bd_wants_body decision
                    then parts\<lparr>hr_headers := insert_header H ''accept-encoding'' ''identity'' (hr_headers parts)\<rparr>
                    else parts)
      in case Option.bind (bd_rewritten_url decision) (rewrite_uri U (hr_uri parts1)) of
           Some uri \<Rightarrow> parts1\<lparr>hr_uri := uri\<rparr>
         | None \<Rightarrow> parts1)"

definition reads_body :: "'h header_ops \<Rightarrow> block_decision \<Rightarrow> nat \<Rightarrow> 'h \<Rightarrow> bool" where
  "reads_body H decision status headers \<longleftrightarrow> bd_wants_body decision \<and> response_is_editable H status headers"

definition set_decisions ::
  "(decision_overrides \<Rightarrow> string) \<Rightarrow> (bytes \<Rightarrow> string + json) \<Rightarrow> bytes \<Rightarrow> 'e ad_blocker \<Rightarrow> disk \<Rightarrow>
   (decisions_error + decision_settings) \<times> 'e ad_blocker \<times> disk" where
  "set_decisions to_json parse_json body ab d =
     (case parse_decision_overrides parse_json body of
        Inl e \<Rightarrow> (Inl e, ab, d)
      | Inr upd \<Rightarrow>
          (case policy_apply to_json upd (ab_decisions ab) d of (s, pol, d') \<Rightarrow>
             (Inr s, ab\<lparr>ab_decisions := pol\<rparr>, d')))"

section \<open>What goes into a page\<close>

text \<open>A \<open>BTreeSet\<close> of the selectors, in its order.\<close>

definition hide_rules :: "string list \<Rightarrow> string" where
  "hide_rules selectors =
     concat (map (\<lambda>sel. sel @ ''{display:none !important}'' @ [CHR 0x0A]) (sort (remdups selectors)))"

definition custom_generic_selectors :: "list_entry list \<Rightarrow> string list" where
  "custom_generic_selectors ls =
     (case find_list CUSTOM_LIST ls of
        None \<Rightarrow> []
      | Some custom \<Rightarrow>
          filter (\<lambda>sel. sel \<noteq> [] \<and> \<not> starts_with ''+js('' sel \<and> \<not> starts_with ''^'' sel)
            (List.map_filter (\<lambda>line. strip_prefix ''##'' (trim line)) (lines (le_text custom))))"

definition css_actions :: "('e, 'q) match_ops \<Rightarrow> string list \<Rightarrow> string list" where
  "css_actions M actions =
     sort (List.map_filter (\<lambda>json.
       map_option (\<lambda>(selector, style). selector @ ''{'' @ style @ ''}'' @ [CHR 0x0A]) (Option.bind (as_css M json) id)) actions)"

definition cosmetic_css :: "('e, 'q) match_ops \<Rightarrow> 'e ad_blocker \<Rightarrow> string \<Rightarrow> string set \<Rightarrow> string set \<Rightarrow> string" where
  "cosmetic_css M ab url classes ids =
     (if \<not> ab_enabled ab then []
      else let resources = url_cosmetic_resources M (ab_engine ab) url;
               selectors = cr_hide_selectors resources @
                 (if cr_generichide resources then []
                  else hidden_class_id_selectors M (ab_engine ab) classes ids (cr_exceptions resources) @
                       filter (\<lambda>s. s \<notin> set (cr_exceptions resources)) (custom_generic_selectors (ab_lists ab)))
           in hide_rules selectors @ concat (css_actions M (cr_procedural_actions resources)))"

definition cosmetic_css_for_names ::
  "('e, 'q) match_ops \<Rightarrow> 'e ad_blocker \<Rightarrow> string \<Rightarrow> string list \<Rightarrow> string list \<Rightarrow> string" where
  "cosmetic_css_for_names M ab url classes ids =
     (if \<not> ab_enabled ab \<or> (classes = [] \<and> ids = []) then []
      else let resources = url_cosmetic_resources M (ab_engine ab) url in
        if cr_generichide resources then []
        else hide_rules (hidden_class_id_selectors M (ab_engine ab) (set classes) (set ids) (cr_exceptions resources)))"

definition procedural_actions :: "('e, 'q) match_ops \<Rightarrow> 'e ad_blocker \<Rightarrow> string \<Rightarrow> string" where
  "procedural_actions M ab url =
     (if \<not> ab_enabled ab then []
      else let rules = filter (\<lambda>json. as_css M json = Some None)
                         (cr_procedural_actions (url_cosmetic_resources M (ab_engine ab) url))
           in if rules = [] then [] else ''['' @ join '','' (sort rules) @ '']'')"

text \<open>\<open>proc_js\<close> is the text of \<open>procedural_runtime.js\<close>.\<close>

definition procedural_injection :: "string \<Rightarrow> ('e, 'q) match_ops \<Rightarrow> 'e ad_blocker \<Rightarrow> string \<Rightarrow> string option" where
  "procedural_injection proc_js M ab url =
     (let rules = procedural_actions M ab url in
      if rules = [] then None
      else Some (str_replace ''__PROCEDURAL_FILTERS__'' (str_replace ''<'' (CHR 0x5C # ''u003c'') rules) proc_js))"

record scriptlet_injection =
  inj_js :: string
  inj_names :: "string list"

definition inject_scriptlets :: "('e, 'q) match_ops \<Rightarrow> 'e ad_blocker \<Rightarrow> string \<Rightarrow> scriptlet_injection option" where
  "inject_scriptlets M ab url =
     (if \<not> ab_enabled ab \<or> \<not> scriptlets_on (ab_scriptlets ab) then None
      else let js = cr_injected_script (url_cosmetic_resources M (ab_engine ab) url) in
        if js = [] then None
        else Some \<lparr>inj_js = ''const scriptletGlobals = {};'' @ [CHR 0x0A] @ js,
                   inj_names = names_in (ab_scriptlets ab) js\<rparr>)"

record response_edit =
  re_body :: "string option"
  re_scriptlets :: "string list"

definition page_script :: "string \<Rightarrow> ('e, 'q) match_ops \<Rightarrow> 'e ad_blocker \<Rightarrow> string \<Rightarrow> scriptlet_injection option \<Rightarrow> string" where
  "page_script proc_js M ab url scriptlets =
     (let on = dp_settings (ab_decisions ab);
          runtime = (if ds_runtime on then unwrap_or (Option.bind (ab_runtime ab) id) [] else []);
          procedural = (if ds_cosmetic on then unwrap_or (procedural_injection proc_js M ab url) [] else [])
      in join [CHR 0x0A]
           (filter (\<lambda>part. part \<noteq> []) [case scriptlets of None \<Rightarrow> [] | Some i \<Rightarrow> inj_js i, procedural, runtime]))"

text \<open>\<open>lossy\<close> is \<open>from_utf8_lossy\<close>. The second component is the edited header map.\<close>

definition edit_page ::
  "'h header_ops \<Rightarrow> (string \<Rightarrow> string) \<Rightarrow> string \<Rightarrow> ('e, 'q) match_ops \<Rightarrow> 'e ad_blocker \<Rightarrow> string \<Rightarrow> 'h \<Rightarrow> string \<Rightarrow>
   response_edit option \<times> 'h" where
  "edit_page H lossy proc_js M ab url headers body =
     (if MAX_EDIT_BYTES < length body then (None, headers)
      else let on = dp_settings (ab_decisions ab);
               scriptlets = (if ds_scriptlets on then inject_scriptlets M ab url else None);
               script = page_script proc_js M ab url scriptlets;
               css = (if ds_cosmetic on then (case html_classes_and_ids (lossy body) of (classes, ids) \<Rightarrow>
                        cosmetic_css M ab url classes ids) else [])
           in case inject_into_html body css script of
                None \<Rightarrow> (None, headers)
              | Some out \<Rightarrow>
                  (Some \<lparr>re_body = Some out, re_scriptlets = (case scriptlets of None \<Rightarrow> [] | Some i \<Rightarrow> inj_names i)\<rparr>,
                   remove_header H ''content-length''
                     (if script \<noteq> [] then fold (remove_header H) CSP_HEADERS headers else headers)))"

definition filter_response ::
  "'h header_ops \<Rightarrow> (string \<Rightarrow> string) \<Rightarrow> string \<Rightarrow> ('e, 'q) match_ops \<Rightarrow> 'e ad_blocker \<Rightarrow> string \<Rightarrow> block_decision \<Rightarrow> 'h \<Rightarrow>
   string option \<Rightarrow> response_edit \<times> 'h" where
  "filter_response H lossy proc_js M ab url decision headers body =
     (case (case body of None \<Rightarrow> (None, headers) | Some b \<Rightarrow> edit_page H lossy proc_js M ab url headers b) of
        (edit, headers1) \<Rightarrow>
          (unwrap_or edit \<lparr>re_body = None, re_scriptlets = []\<rparr>,
           case bd_csp decision of
             None \<Rightarrow> headers1
           | Some csp \<Rightarrow>
               if list_all visible_ascii csp then append_header H ''content-security-policy'' csp headers1 else headers1))"

section \<open>Decisions\<close>

lemma check_simps [simp]:
  "bd_req_type (check M ab url src t) = t"
  "bd_blocked (check M ab url src t) = bd_blocked (match_request M ab url src t)"
  "bd_redirect (check M ab url src t) = bd_redirect (match_request M ab url src t)"
  "bd_rewritten_url (check M ab url src t) = bd_rewritten_url (match_request M ab url src t)"
  "bd_csp (check M ab url src t) = bd_csp (match_request M ab url src t)"
  "bd_wants_body (check M ab url src t) = bd_wants_body (match_request M ab url src t)"
  "bd_attribution (check M ab url src t) = bd_attribution (match_request M ab url src t)"
  by (simp_all add: check_def)

lemma pass_simps [simp]:
  "\<not> bd_blocked pass" "bd_redirect pass = None" "bd_rewritten_url pass = None" "bd_csp pass = None"
  "\<not> bd_wants_body pass" "at_list (bd_attribution pass) = None"
  by (simp_all add: pass_def)

lemma match_blocked:
  "bd_blocked (match_request M ab url src t) \<longleftrightarrow>
     ab_enabled ab \<and> (\<exists>q. new_request M url src (filter_request_type t) = Some q \<and>
       br_matched (check_network_request M (ab_engine ab) q))"
  by (auto simp: match_request_def Let_def split: option.split)

lemma match_shape:
  "bd_redirect (match_request M ab url src t) \<noteq> None \<Longrightarrow> bd_blocked (match_request M ab url src t)"
  "bd_csp (match_request M ab url src t) \<noteq> None \<Longrightarrow> \<not> bd_blocked (match_request M ab url src t)"
  "bd_wants_body (match_request M ab url src t) \<Longrightarrow> \<not> bd_blocked (match_request M ab url src t) \<and> renders_a_page t"
  by (auto simp: match_request_def Let_def split: option.splits if_splits)

text \<open>The types a request is looked up as: its own, and \<open>ping\<close> if it looks like a beacon.\<close>

definition asked_types :: "'h header_ops \<Rightarrow> ('h, 'u) http_request \<Rightarrow> string set" where
  "asked_types H req = {request_type H req} \<union> (if is_beacon_shaped H req then {''ping''} else {})"

lemma check_request_cases:
  obtains t where "t \<in> asked_types H req"
    "check_request H M ab url req = check M ab url (source_url H req url (request_type H req)) t"
proof -
  let ?check = "check M ab url (source_url H req url (request_type H req))"
  have "check_request H M ab url req = ?check (request_type H req) \<or>
      is_beacon_shaped H req \<and> check_request H M ab url req = ?check ''ping''"
    by (simp add: check_request_def Let_def)
  then show thesis using that [of "request_type H req"] that [of "''ping''"] by (auto simp: asked_types_def)
qed


text \<open>what a decision carries. A stand-in body only comes with a block, policy directives and the
  wish to read the page only without one, and only for a page the browser renders.\<close>

theorem decision_shape:
  assumes "decision = check_request H M ab url req"
  shows "(bd_redirect decision \<noteq> None \<longrightarrow> bd_blocked decision) \<and>
    (bd_csp decision \<noteq> None \<longrightarrow> \<not> bd_blocked decision) \<and>
    (bd_wants_body decision \<longrightarrow> \<not> bd_blocked decision \<and> renders_a_page (bd_req_type decision)) \<and>
    bd_req_type decision \<in> asked_types H req"
proof -
  obtain t where "t \<in> asked_types H req" "decision = check M ab url (source_url H req url (request_type H req)) t"
    unfolding assms by (rule check_request_cases)
  then show ?thesis using match_shape [of M ab url _ t] by fastforce
qed

text \<open>An engine that matches what its texts contain, with a fixed answer to every other question.\<close>

definition sample_match :: "(string list, string) match_ops" where
  "sample_match =
     \<lparr>new_request = (\<lambda>url src t. if url = [] then None else Some (t @ '' '' @ url)),
      check_network_request = (\<lambda>e q. \<lparr>br_matched = q \<in> set e, br_redirect = Some ''data:text/plain;base64,eA'',
        br_rewritten_url = None, br_filter = (if q \<in> set e then Some q else None)\<rparr>),
      get_csp_directives = (\<lambda>e q. Some ''script-src none''),
      url_cosmetic_resources = (\<lambda>e url. \<lparr>cr_hide_selectors = [''.ad''], cr_procedural_actions = [],
        cr_exceptions = [], cr_injected_script = [], cr_generichide = False\<rparr>),
      hidden_class_id_selectors = (\<lambda>e cs is ex. []),
      as_css = (\<lambda>j. None), b64_decode = Some\<rparr>"

definition all_on :: decision_settings where
  "all_on = \<lparr>ds_enabled = True, ds_redirect = True, ds_removeparam = True, ds_csp = True, ds_cosmetic = True,
     ds_scriptlets = True, ds_runtime = True\<rparr>"

definition sample_blocker :: "bool \<Rightarrow> string list ad_blocker" where
  "sample_blocker on =
     \<lparr>ab_core_enabled = True, ab_engine = [''ping https://t.test/''], ab_lists = [],
      ab_scriptlets = \<lparr>sc_inject = False, sc_path = no_path, sc_resources = [], sc_fns = Map.empty\<rparr>,
      ab_decisions = \<lparr>dp_settings = all_on\<lparr>ds_enabled := on\<rparr>, dp_path = (''d'', ''f'')\<rparr>, ab_runtime = None\<rparr>"

definition sample_beacon :: "((string \<times> string) list, string) http_request" where
  "sample_beacon = \<lparr>hr_method = ''POST'', hr_uri = ''/'',
     hr_headers = [(''sec-fetch-mode'', ''no-cors''), (''sec-fetch-dest'', ''empty'')]\<rparr>"

definition beacon_decision :: block_decision where
  "beacon_decision = check_request list_headers sample_match (sample_blocker True) ''https://t.test/'' sample_beacon"

theorem decision_shape_witness:
  "bd_redirect beacon_decision \<noteq> None \<and> bd_blocked beacon_decision \<and> bd_csp beacon_decision = None \<and>
   bd_req_type beacon_decision \<in> asked_types list_headers sample_beacon"
proof -
  have "bd_redirect beacon_decision \<noteq> None" by code_simp
  then show ?thesis using decision_shape [OF beacon_decision_def] by blast
qed

text \<open>with ad blocking off nothing happens to the traffic: no request is blocked, the request is
  forwarded as it came, no body is asked for, and the response headers go out unchanged.\<close>

theorem disabled_touches_nothing:
  assumes "\<not> ab_enabled ab" "decision = check_request H M ab url req"
  shows "\<not> bd_blocked decision \<and> filter_request H U decision req = req \<and>
    \<not> reads_body H decision status headers \<and>
    filter_response H lossy proc_js M ab url decision headers None = (\<lparr>re_body = None, re_scriptlets = []\<rparr>, headers)"
proof -
  have "match_request M ab url src t = pass" for src t using assms(1) by (simp add: match_request_def)
  moreover obtain t where "decision = check M ab url (source_url H req url (request_type H req)) t"
    unfolding assms(2) by (rule check_request_cases)
  ultimately show ?thesis by (simp add: filter_request_def reads_body_def filter_response_def)
qed

theorem disabled_touches_nothing_witness:
  "\<not> bd_blocked (check_request list_headers sample_match (sample_blocker False) ''https://t.test/'' sample_beacon)"
  using disabled_touches_nothing [of "sample_blocker False", OF _ refl, of list_headers sample_match "''https://t.test/''" sample_beacon]
  by (simp add: ab_enabled_def sample_blocker_def)

section \<open>Forwarded responses\<close>

definition added_csp :: "block_decision \<Rightarrow> string list" where
  "added_csp decision = (case bd_csp decision of Some v \<Rightarrow> if list_all visible_ascii v then [v] else [] | None \<Rightarrow> [])"

lemma edit_page_body: "fst (edit_page H lossy proc_js M ab url headers body) = Some e \<Longrightarrow> re_body e \<noteq> None"
  by (auto simp: edit_page_def Let_def split: option.splits prod.splits if_splits)

context header_map
begin

lemma get_edit_page:
  "get_all H n (snd (edit_page H lossy proc_js M ab url headers body)) =
     (if fst (edit_page H lossy proc_js M ab url headers body) \<noteq> None \<and>
         (n = ''content-length'' \<or> n \<in> set CSP_HEADERS \<and>
            page_script proc_js M ab url (if ds_scriptlets (dp_settings (ab_decisions ab)) then inject_scriptlets M ab url else None) \<noteq> [])
      then [] else get_all H n headers)"
  by (auto simp: edit_page_def Let_def get_remove get_fold_remove split: option.split prod.split)

lemma get_filter_response:
  "get_all H n (snd (filter_response H lossy proc_js M ab url decision headers body)) =
     get_all H n (snd (case body of None \<Rightarrow> (None, headers) | Some b \<Rightarrow> edit_page H lossy proc_js M ab url headers b)) @
     (if n = ''content-security-policy'' then added_csp decision else [])"
  by (auto simp: filter_response_def added_csp_def get_append split: option.split prod.split)

end

text \<open>C33: the headers a page goes out with. The site's own security policies are dropped only from a page
  that an inline script went into, the length only from a page that was edited; the directives of the
  rules are added after that, so that they are never lost; every other header is kept.\<close>

theorem forwarded_headers:
  assumes "header_map H" "filter_response H lossy proc_js M ab url decision headers (Some body) = (edit, headers')"
    and "script = page_script proc_js M ab url
      (if ds_scriptlets (dp_settings (ab_decisions ab)) then inject_scriptlets M ab url else None)"
  shows "get_all H n headers' =
    (if re_body edit \<noteq> None \<and> (n = ''content-length'' \<or> n \<in> set CSP_HEADERS \<and> script \<noteq> []) then []
     else get_all H n headers) @
    (if n = ''content-security-policy'' then added_csp decision else [])"
proof -
  let ?ep = "edit_page H lossy proc_js M ab url headers body"
  have "edit = unwrap_or (fst ?ep) \<lparr>re_body = None, re_scriptlets = []\<rparr>"
    using assms(2) by (cases ?ep) (simp add: filter_response_def)
  then have edit: "re_body edit \<noteq> None \<longleftrightarrow> fst ?ep \<noteq> None"
    using edit_page_body [of H lossy proc_js M ab url headers body] by (cases "fst ?ep") simp_all
  have "headers' = snd (filter_response H lossy proc_js M ab url decision headers (Some body))" using assms(2) by simp
  then have "get_all H n headers' = get_all H n (snd ?ep) @ (if n = ''content-security-policy'' then added_csp decision else [])"
    by (simp only: header_map.get_filter_response [OF assms(1)] option.case)
  then show ?thesis
    unfolding header_map.get_edit_page [OF assms(1)] edit assms(3) .
qed

definition sample_page :: "string \<Rightarrow> response_edit \<times> (string \<times> string) list" where
  "sample_page body = filter_response list_headers id [] sample_match (sample_blocker True) ''https://t.test/''
     (pass\<lparr>bd_csp := Some ''x''\<rparr>) [(''content-security-policy'', ''own''), (''content-length'', ''6'')] (Some body)"

theorem forwarded_headers_witness:
  "re_body (fst (sample_page ''<head>'')) \<noteq> None \<and>
   get_all list_headers ''content-security-policy'' (snd (sample_page ''<head>'')) = [''own'', ''x''] \<and>
   get_all list_headers ''content-length'' (snd (sample_page ''<head>'')) = []"
proof -
  have edited: "re_body (fst (sample_page ''<head>'')) \<noteq> None" by code_simp
  have script: "page_script [] sample_match (sample_blocker True) ''https://t.test/''
      (if ds_scriptlets (dp_settings (ab_decisions (sample_blocker True)))
       then inject_scriptlets sample_match (sample_blocker True) ''https://t.test/'' else None) = []" by code_simp
  have "sample_page ''<head>'' = (fst (sample_page ''<head>''), snd (sample_page ''<head>''))" by simp
  note * = forwarded_headers [OF alist_headers.header_map_axioms this [unfolded sample_page_def] refl, folded sample_page_def,
      unfolded script]
  have "added_csp (pass\<lparr>bd_csp := Some ''x''\<rparr>) = [''x'']" by code_simp
  then show ?thesis
    using * [of "''content-security-policy''"] * [of "''content-length''"] edited by (simp add: list_headers_def)
qed

section \<open>The user's own list\<close>

text \<open>switching the user's own list off does not stop its generic hiding rules: they are read from
  the list itself, whatever its state, and still go into every page.\<close>

theorem disabled_custom_list_hides:
  assumes "find_list CUSTOM_LIST (ab_lists ab) = Some l" "\<not> le_enabled l" "ab_enabled ab"
    and "line \<in> set (lines (le_text l))" "trim line = ''##'' @ sel"
    and "sel \<noteq> []" "\<not> starts_with ''+js('' sel" "\<not> starts_with ''^'' sel"
    and "\<not> cr_generichide (url_cosmetic_resources M (ab_engine ab) url)"
    and "sel \<notin> set (cr_exceptions (url_cosmetic_resources M (ab_engine ab) url))"
  shows "\<exists>pre post. cosmetic_css M ab url classes ids = pre @ sel @ ''{display:none !important}'' @ [CHR 0x0A] @ post"
proof -
  let ?r = "url_cosmetic_resources M (ab_engine ab) url"
  let ?sels = "cr_hide_selectors ?r @ hidden_class_id_selectors M (ab_engine ab) classes ids (cr_exceptions ?r) @
    filter (\<lambda>s. s \<notin> set (cr_exceptions ?r)) (custom_generic_selectors (ab_lists ab))"
  have "strip_prefix ''##'' (trim line) = Some sel" by (simp add: assms(5))
  then have "sel \<in> set (List.map_filter (\<lambda>line. strip_prefix ''##'' (trim line)) (lines (le_text l)))"
    using assms(4) by (force simp: map_filter_def)
  then have "sel \<in> set (custom_generic_selectors (ab_lists ab))"
    using assms(6-8) by (simp add: custom_generic_selectors_def assms(1))
  then have "sel \<in> set (sort (remdups ?sels))" using assms(10) by simp
  then obtain xs ys where "sort (remdups ?sels) = xs @ sel # ys" by (meson split_list)
  then have "\<exists>pre post. hide_rules ?sels = pre @ sel @ ''{display:none !important}'' @ [CHR 0x0A] @ post"
    by (auto simp: hide_rules_def)
  then show ?thesis using assms(3,9) by (fastforce simp: cosmetic_css_def Let_def)
qed

definition sample_custom :: "string list ad_blocker" where
  "sample_custom = (sample_blocker True)\<lparr>ab_lists := [\<lparr>le_name = CUSTOM_LIST, le_source = CUSTOM_SOURCE, le_rules = 1,
     le_enabled = False, le_text = ''##.mine''\<rparr>]\<rparr>"

theorem disabled_custom_list_hides_witness:
  "\<exists>pre post. cosmetic_css sample_match sample_custom ''https://t.test/'' {} {}
     = pre @ ''.mine'' @ ''{display:none !important}'' @ [CHR 0x0A] @ post"
proof -
  let ?l = "\<lparr>le_name = CUSTOM_LIST, le_source = CUSTOM_SOURCE, le_rules = 1, le_enabled = False, le_text = ''##.mine''\<rparr>"
  have 1: "find_list CUSTOM_LIST (ab_lists sample_custom) = Some ?l" by (simp add: sample_custom_def find_list_def)
  have 2: "ab_enabled sample_custom" by code_simp
  have 3: "''##.mine'' \<in> set (lines (le_text ?l))" by code_simp
  have 4: "trim ''##.mine'' = ''##'' @ ''.mine''" by code_simp
  have 5: "\<not> starts_with ''+js('' ''.mine''" "\<not> starts_with ''^'' ''.mine''" by code_simp+
  show ?thesis
    by (rule disabled_custom_list_hides [OF 1 _ 2 3 4 _ 5]) (simp_all add: sample_match_def)
qed

section \<open>Stored switches\<close>

lemma load_snapshot:
  assumes "of_json (to_json (snapshot_overrides s)) = Some (snapshot_overrides s)" "p \<noteq> no_path"
    and "files d p = Some (Text (to_json (snapshot_overrides s)))"
  shows "policy_load to_json of_json p d = (\<lparr>dp_settings = s, dp_path = p\<rparr>, d)"
  using assms by (simp add: policy_load_def load_overrides_def read_to_string_def path_exists_def snapshot_overrides_def)

text \<open>a change of the switches is in force at once and, if the file can be written, after a
  restart; flags that were not given keep their value.\<close>

theorem decisions_survive_restart:
  assumes "\<And>x. of_json (to_json x) = Some x" "dp_path (ab_decisions ab) \<noteq> no_path"
    and "healthy d (dp_path (ab_decisions ab))"
    and "set_decisions to_json parse_json body ab d = (Inr s, ab', d')"
  shows "policy_load to_json of_json (dp_path (ab_decisions ab)) d' = (ab_decisions ab', d') \<and>
    dp_settings (ab_decisions ab') = s \<and> ab' = ab\<lparr>ab_decisions := ab_decisions ab'\<rparr> \<and>
    (\<exists>upd. parse_decision_overrides parse_json body = Inr upd \<and>
       ds_enabled s = unwrap_or (do_enabled upd) (ds_enabled (dp_settings (ab_decisions ab))))"
proof -
  obtain upd where upd: "parse_decision_overrides parse_json body = Inr upd"
    using assms(4) by (auto simp: set_decisions_def split: sum.splits)
  let ?pol = "ab_decisions ab\<lparr>dp_settings := s\<rparr>"
  have ab': "ab' = ab\<lparr>ab_decisions := ?pol\<rparr>" "d' = snd (policy_persist to_json ?pol d)"
    "ds_enabled s = unwrap_or (do_enabled upd) (ds_enabled (dp_settings (ab_decisions ab)))"
    using assms(4) upd by (auto simp: set_decisions_def policy_apply_def Let_def)
  have "files d' (dp_path (ab_decisions ab)) = Some (Text (to_json (snapshot_overrides s)))"
    using ab'(2) assms(2,3) by (simp add: policy_persist_def save_overrides_def)
  then have "policy_load to_json of_json (dp_path (ab_decisions ab)) d' = (?pol, d')"
    using load_snapshot [of of_json to_json s, OF assms(1) assms(2)] by simp
  then show ?thesis using ab' upd by simp
qed


text \<open>A codec for the settings file.\<close>

fun flag_char :: "bool option \<Rightarrow> char" where
  "flag_char None = CHR ''-''"
| "flag_char (Some b) = (if b then CHR ''1'' else CHR ''0'')"

definition char_flag :: "char \<Rightarrow> bool option" where
  "char_flag c = (if c = CHR ''1'' then Some True else if c = CHR ''0'' then Some False else None)"

definition sample_to_json :: "decision_overrides \<Rightarrow> string" where
  "sample_to_json x = map flag_char [do_enabled x, do_redirect x, do_removeparam x, do_csp x, do_cosmetic x,
     do_scriptlets x, do_runtime x]"

definition sample_of_json :: "string \<Rightarrow> decision_overrides option" where
  "sample_of_json s =
     (case map char_flag s of
        [a, b, c, d, e, f, g] \<Rightarrow> Some \<lparr>do_enabled = a, do_redirect = b, do_removeparam = c, do_csp = d,
          do_cosmetic = e, do_scriptlets = f, do_runtime = g\<rparr>
      | _ \<Rightarrow> None)"

lemma char_flag_char [simp]: "char_flag (flag_char b) = b"
  by (cases b rule: flag_char.cases) (auto simp: char_flag_def)

lemma sample_json_ok: "sample_of_json (sample_to_json x) = Some x"
  by (simp add: sample_of_json_def sample_to_json_def)

theorem decisions_survive_restart_witness:
  "let r = set_decisions sample_to_json (\<lambda>_. Inr (JObject [(''enabled'', JBool False)])) [] (sample_blocker True)
             \<lparr>files = Map.empty, mkdir_fault = Map.empty, write_fault = Map.empty, remove_fault = Map.empty\<rparr>
   in \<not> ds_enabled (dp_settings (fst (policy_load sample_to_json sample_of_json (''d'', ''f'') (snd (snd r)))))"
proof -
  let ?d = "\<lparr>files = Map.empty, mkdir_fault = Map.empty, write_fault = Map.empty, remove_fault = Map.empty\<rparr>"
  let ?r = "set_decisions sample_to_json (\<lambda>_. Inr (JObject [(''enabled'', JBool False)])) [] (sample_blocker True) ?d"
  have "fst ?r = Inr (all_on\<lparr>ds_enabled := False\<rparr>)" by code_simp
  then have r: "?r = (Inr (all_on\<lparr>ds_enabled := False\<rparr>), fst (snd ?r), snd (snd ?r))" by (metis prod.collapse)
  have p: "dp_path (ab_decisions (sample_blocker True)) = (''d'', ''f'')" by (simp add: sample_blocker_def)
  show ?thesis
    using decisions_survive_restart [OF sample_json_ok _ _ r, unfolded p] by (simp add: healthy_def)
qed

end
