(* ===== verification/Stats_Capture.thy ===== *)
theory Stats_Capture
  imports Stats_State
begin

text \<open>
  Captured bodies: how much of a body is stored and in which form (\<open>stats/capture.rs\<close>), how it is put
  on the record (\<open>Exchange::capture_body\<close> of \<open>stats/mod.rs\<close>), and how the stored form is read back
  (\<open>stats/decode.rs\<close>). Base64 and the decompressors are parameters; a decompressor is the sequence of
  what its reads give. Bodies are strings of bytes.
\<close>

section \<open>The stored form\<close>

definition REQ_BODY_CAP :: nat where "REQ_BODY_CAP = 16 * 1024"
definition RESP_BODY_CAP :: nat where "RESP_BODY_CAP = 64 * 1024"

definition label_of :: "string \<Rightarrow> string" where
  "label_of content_encoding =
     (let e = to_ascii_lowercase (last (map trim (split CHR '','' content_encoding))) in
      if e = ''gzip'' \<or> e = ''x-gzip'' then ''gzip''
      else if e = ''deflate'' then ''deflate''
      else if e = ''br'' then ''br''
      else if e = ''zstd'' then ''zstd''
      else ''identity'')"

text \<open>\<open>encode\<close> is base64, \<open>lossy\<close> is \<open>from_utf8_lossy\<close>.\<close>

definition pack :: "(string \<Rightarrow> string) \<Rightarrow> string \<Rightarrow> string \<Rightarrow> string" where
  "pack encode label b = label @ [CHR 0x0A] @ encode b"

definition render :: "(string \<Rightarrow> string) \<Rightarrow> string \<Rightarrow> nat \<Rightarrow> nat \<Rightarrow> string" where
  "render lossy kept len cap =
     (if CHR 0x00 \<in> set kept then ''[binary body '' @ em_dash @ '' '' @ show_nat len @ '' bytes]''
      else lossy kept @
        (if cap < len then [CHR 0x0A] @ ellipsis @ '' [truncated '' @ em_dash @ '' '' @ show_nat len @ '' bytes total]''
         else []))"

definition stored ::
  "(string \<Rightarrow> string) \<Rightarrow> (string \<Rightarrow> string) \<Rightarrow> string \<Rightarrow> nat \<Rightarrow> nat \<Rightarrow> string \<Rightarrow> string \<times> string option" where
  "stored encode lossy prefix len cap content_encoding =
     (let label = label_of content_encoding;
          kept = take (min (length prefix) cap) prefix
      in if label \<noteq> ''identity''
         then (''[compressed body '' @ em_dash @ '' '' @ label @ '', '' @ show_nat len @ '' bytes]'', Some (pack encode label kept))
         else (render lossy kept len cap, if CHR 0x00 \<in> set kept then Some (pack encode label kept) else None))"

section \<open>On the record\<close>

definition is_active :: "exchange \<Rightarrow> bool" where
  "is_active x \<longleftrightarrow> ex_captures x \<noteq> None"

definition response_body_cap :: "exchange \<Rightarrow> nat" where
  "response_body_cap x = (if is_active x then RESP_BODY_CAP else 0)"

record body_codec =
  bc_encode :: "string \<Rightarrow> string"
  bc_decode :: "string \<Rightarrow> string option"
  bc_lossy :: "string \<Rightarrow> string"

definition capture_body ::
  "body_codec \<Rightarrow> capture_slot \<Rightarrow> capture_slot \<Rightarrow> string \<Rightarrow> nat \<Rightarrow> nat \<Rightarrow> string \<Rightarrow> exchange \<Rightarrow> shared_state \<Rightarrow>
   exchange \<times> shared_state" where
  "capture_body B disp raw prefix len cap content_encoding x s =
     (if \<not> is_active x then (x, s)
      else case stored (bc_encode B) (bc_lossy B) prefix len cap content_encoding of
        (body, packed) \<Rightarrow>
          (case attach disp body x s of
             (x1, s1) \<Rightarrow> (case packed of None \<Rightarrow> x1 | Some p \<Rightarrow> attach_quiet raw p x1, s1)))"

definition capture_request_body ::
  "body_codec \<Rightarrow> string \<Rightarrow> nat \<Rightarrow> string \<Rightarrow> exchange \<Rightarrow> shared_state \<Rightarrow> exchange \<times> shared_state" where
  "capture_request_body B prefix len enc = capture_body B ReqBody ReqBodyRaw prefix len REQ_BODY_CAP enc"

definition capture_response_body ::
  "body_codec \<Rightarrow> string \<Rightarrow> nat \<Rightarrow> string \<Rightarrow> exchange \<Rightarrow> shared_state \<Rightarrow> exchange \<times> shared_state" where
  "capture_response_body B prefix len enc = capture_body B RespBody RespBodyRaw prefix len RESP_BODY_CAP enc"

section \<open>Decoding\<close>

definition DECODE_CAP :: nat where "DECODE_CAP = 512 * 1024"

datatype body_decode = DecText string | DecBinary string | NoData | UnknownSlot

text \<open>The n-th read of a decompressor: some bytes, none at the end, or an error (\<open>None\<close>).\<close>

type_synonym reader = "nat \<Rightarrow> string option"

function read_loop :: "reader \<Rightarrow> nat \<Rightarrow> string \<Rightarrow> string" where
  "read_loop r n out =
     (if DECODE_CAP \<le> length out \<or> r n = None \<or> r n = Some [] then out else read_loop r (Suc n) (out @ the (r n)))"
  by pat_completeness auto

termination
proof (relation "measure (\<lambda>(r, n, out). DECODE_CAP - length out)", simp)
  fix r :: reader and n :: nat and out :: string
  assume a: "\<not> (DECODE_CAP \<le> length out \<or> r n = None \<or> r n = Some [])"
  then obtain b where "r n = Some b" "b \<noteq> []" by (cases "r n") auto
  then show "((r, Suc n, out @ the (r n)), r, n, out) \<in> measure (\<lambda>(r, n, out). DECODE_CAP - length out)"
    using a by (cases b) auto
qed

declare read_loop.simps [simp del]

definition read_capped :: "reader \<Rightarrow> string" where
  "read_capped r = take DECODE_CAP (read_loop r 0 [])"

text \<open>The decoders of the compression crates on an input; the one for zstd may refuse its header.\<close>

record decoders =
  gz_decoder :: "string \<Rightarrow> reader"
  zlib_decoder :: "string \<Rightarrow> reader"
  deflate_decoder :: "string \<Rightarrow> reader"
  br_decoder :: "string \<Rightarrow> reader"
  zstd_decoder :: "string \<Rightarrow> reader option"

definition decompress :: "decoders \<Rightarrow> string \<Rightarrow> string \<Rightarrow> string" where
  "decompress D b label =
     (let l = to_ascii_lowercase (trim label) in
      if l = ''gzip'' \<or> l = ''x-gzip'' then read_capped (gz_decoder D b)
      else if l = ''deflate'' then
        (let zlib = read_capped (zlib_decoder D b) in if zlib = [] then read_capped (deflate_decoder D b) else zlib)
      else if l = ''br'' then read_capped (br_decoder D b)
      else if l = ''zstd'' then (case zstd_decoder D b of Some r \<Rightarrow> read_capped r | None \<Rightarrow> [])
      else b)"

definition classify_decoded :: "(string \<Rightarrow> string) \<Rightarrow> string \<Rightarrow> body_decode" where
  "classify_decoded lossy b =
     (if b = [] then DecText (''[nothing decoded '' @ em_dash @ '' the captured prefix was incomplete]'')
      else if CHR 0x00 \<in> set b then DecBinary b
      else DecText (lossy b @
        (if DECODE_CAP \<le> length b
         then [CHR 0x0A] @ ellipsis @ '' [truncated '' @ em_dash @ '' '' @ show_nat DECODE_CAP @ '' bytes decompressed shown]''
         else [])))"

definition decode_captured :: "body_codec \<Rightarrow> decoders \<Rightarrow> string \<Rightarrow> body_decode" where
  "decode_captured B D raw =
     (case split_once CHR 0x0A raw of
        None \<Rightarrow> DecText (''[cannot decode '' @ em_dash @ '' malformed capture]'')
      | Some (label, b64) \<Rightarrow>
          (case bc_decode B (trim b64) of
             None \<Rightarrow> DecText (''[cannot decode '' @ em_dash @ '' bad base64]'')
           | Some compressed \<Rightarrow> classify_decoded (bc_lossy B) (decompress D compressed label)))"

definition decode_captured_body ::
  "codecs \<Rightarrow> body_codec \<Rightarrow> decoders \<Rightarrow> u64 \<Rightarrow> string \<Rightarrow> shared_state \<Rightarrow> body_decode" where
  "decode_captured_body K B D sq slot s =
     (let detail = stored_detail K sq s in
      if slot = ''req'' \<or> slot = ''resp'' then
        (let raw = (if slot = ''req'' then rd_req_body_raw detail else rd_resp_body_raw detail) in
         if raw = [] then NoData else decode_captured B D raw)
      else UnknownSlot)"

section \<open>Reading to the cap\<close>

text \<open>What a decompressor would give without the cap: the bytes of its reads before the first end or
  error, here of the first \<open>k\<close> reads.\<close>

fun bytes_before :: "reader \<Rightarrow> nat \<Rightarrow> nat \<Rightarrow> string" where
  "bytes_before r n 0 = []"
| "bytes_before r n (Suc k) = (case r n of None \<Rightarrow> [] | Some b \<Rightarrow> if b = [] then [] else b @ bytes_before r (Suc n) k)"

lemma read_loop_bytes:
  "\<exists>k. read_loop r n out = out @ bytes_before r n k \<and>
     (DECODE_CAP \<le> length (read_loop r n out) \<or> (\<forall>j \<ge> k. bytes_before r n j = bytes_before r n k))"
proof (induction r n out rule: read_loop.induct)
  case (1 r n out)
  note IH = 1
  consider "DECODE_CAP \<le> length out" | "r n = None \<or> r n = Some []"
    | (go) "\<not> (DECODE_CAP \<le> length out \<or> r n = None \<or> r n = Some [])" by blast
  then show ?case
  proof cases
    case 1
    then have "read_loop r n out = out" by (subst read_loop.simps) simp
    then show ?thesis using 1 by (intro exI [of _ 0]) simp
  next
    case 2
    then have "read_loop r n out = out" by (subst read_loop.simps) simp
    moreover have "bytes_before r n j = []" for j using 2 by (cases j) auto
    ultimately show ?thesis by (intro exI [of _ 0]) simp
  next
    case go
    then obtain b where b: "r n = Some b" "b \<noteq> []" by (cases "r n") auto
    from IH [OF go] obtain k where k: "read_loop r (Suc n) (out @ b) = (out @ b) @ bytes_before r (Suc n) k"
      "DECODE_CAP \<le> length (read_loop r (Suc n) (out @ b)) \<or> (\<forall>j \<ge> k. bytes_before r (Suc n) j = bytes_before r (Suc n) k)"
      unfolding b(1) option.sel by blast
    have step: "read_loop r n out = read_loop r (Suc n) (out @ b)" using go b(1) by (subst read_loop.simps) simp
    have "\<forall>j \<ge> Suc k. bytes_before r n j = bytes_before r n (Suc k)"
      if same: "\<forall>j \<ge> k. bytes_before r (Suc n) j = bytes_before r (Suc n) k"
    proof (intro allI impI)
      fix j assume "Suc k \<le> j"
      then obtain i where "j = Suc i" "k \<le> i" by (cases j) auto
      moreover from this have "bytes_before r (Suc n) i = bytes_before r (Suc n) k" using same by blast
      ultimately show "bytes_before r n j = bytes_before r n (Suc k)" using b by simp
    qed
    then have "DECODE_CAP \<le> length (read_loop r n out) \<or> (\<forall>j \<ge> Suc k. bytes_before r n j = bytes_before r n (Suc k))"
      using k(2) unfolding step by blast
    moreover have "read_loop r n out = out @ bytes_before r n (Suc k)" using step k(1) b by simp
    ultimately show ?thesis by blast
  qed
qed

text \<open>C20: decompression always ends, whatever the decompressor gives: what comes out is the start of the
  decompressed data, cut at 512 KiB.\<close>

theorem decompression_ends:
  "length (read_capped r) \<le> DECODE_CAP \<and>
   (\<exists>k. read_capped r = take DECODE_CAP (bytes_before r 0 k) \<and>
      (length (read_capped r) < DECODE_CAP \<longrightarrow> (\<forall>j \<ge> k. bytes_before r 0 j = read_capped r)))"
proof -
  obtain k where k: "read_loop r 0 [] = bytes_before r 0 k"
    "DECODE_CAP \<le> length (read_loop r 0 []) \<or> (\<forall>j \<ge> k. bytes_before r 0 j = bytes_before r 0 k)"
    using read_loop_bytes [of r 0 "[]"] unfolding append_Nil by blast
  have "\<forall>j \<ge> k. bytes_before r 0 j = read_capped r" if "length (read_capped r) < DECODE_CAP"
  proof -
    have less: "length (read_loop r 0 []) < DECODE_CAP" using that by (simp add: read_capped_def)
    then have "read_capped r = bytes_before r 0 k" using k(1) by (simp add: read_capped_def)
    then show ?thesis using k(2) less by (metis not_less)
  qed
  moreover have "length (read_capped r) \<le> DECODE_CAP" "read_capped r = take DECODE_CAP (bytes_before r 0 k)"
    using k(1) by (simp_all add: read_capped_def)
  ultimately show ?thesis by blast
qed

theorem decompression_ends_witness:
  "\<exists>k. \<forall>j \<ge> k. bytes_before (\<lambda>n. if n < 2 then Some ''ab'' else Some []) 0 j = ''abab''"
proof -
  let ?r = "\<lambda>n :: nat. if n < 2 then Some ''ab'' else Some []"
  have r: "read_capped ?r = ''abab''"
    by (simp add: read_capped_def read_loop.simps DECODE_CAP_def)
  then have "length (read_capped ?r) < DECODE_CAP" by (simp add: DECODE_CAP_def)
  then show ?thesis using decompression_ends [of ?r] unfolding r by blast
qed

section \<open>A captured body is served\<close>

lemma find_appended: "find p (xs @ ys) = (case find p xs of Some x \<Rightarrow> Some x | None \<Rightarrow> find p ys)"
  by (induction xs) auto

lemma find_line_newest: "find_line p g = find p (newest_first g)"
  by (simp add: find_line_def newest_first_def find_appended)

lemma find_written:
  assumes "log_wf g" "printable_line l" "open_ok io" "write_ok io" "rename_ok io" "p l"
  shows "find_line p (write_line io ts l g) = Some l"
  using assms(6) unfolding find_line_newest write_line_newest [OF assms(1-5)] by simp

text \<open>What is relied on of base64: decoding inverts encoding, and an encoded text has visible ASCII
  only.\<close>

definition codec_ok :: "body_codec \<Rightarrow> bool" where
  "codec_ok B \<longleftrightarrow> (\<forall>b. bc_decode B (bc_encode B b) = Some b \<and> list_all graphic (bc_encode B b))"

lemma label_of_cases: "label_of enc \<in> {''gzip'', ''deflate'', ''br'', ''zstd'', ''identity''}"
  by (simp add: label_of_def Let_def)

lemma decode_packed:
  assumes "codec_ok B"
  shows "decode_captured B D (pack (bc_encode B) (label_of enc) b) = classify_decoded (bc_lossy B) (decompress D b (label_of enc))"
proof -
  have "CHR 0x0A \<notin> set (label_of enc)" using label_of_cases [of enc] by auto
  moreover have "bc_decode B (trim (bc_encode B b)) = Some b" using assms by (simp add: codec_ok_def)
  ultimately show ?thesis by (simp add: decode_captured_def pack_def)
qed

text \<open>How the stored form of a body depends on its encoding.\<close>

lemma stored_raw:
  assumes "label_of enc \<noteq> ''identity'' \<or> CHR 0x00 \<in> set (take cap prefix)"
  shows "snd (stored encode lossy prefix len cap enc) = Some (pack encode (label_of enc) (take cap prefix))"
    and "fst (stored encode lossy prefix len cap enc) \<noteq> []"
  using assms by (auto simp: stored_def Let_def render_def min_def)

lemma capture_response_record:
  assumes "ex_captures x = Some r" "label_of enc \<noteq> ''identity'' \<or> CHR 0x00 \<in> set (take RESP_BODY_CAP prefix)"
    and "capture_response_body B prefix len enc x s = (x', s')"
  shows "\<exists>body. body \<noteq> [] \<and> ex_captures x' = Some (r\<lparr>rq_resp_body := body,
      rq_resp_body_raw := pack (bc_encode B) (label_of enc) (take RESP_BODY_CAP prefix)\<rparr>) \<and> detail_log s' = detail_log s"
proof -
  let ?st = "stored (bc_encode B) (bc_lossy B) prefix len RESP_BODY_CAP enc"
  note raw = stored_raw [OF assms(2), of "bc_encode B" "bc_lossy B" len]
  then have "?st = (fst ?st, Some (pack (bc_encode B) (label_of enc) (take RESP_BODY_CAP prefix)))" by (metis prod.collapse)
  then have "(x', s') = (case attach RespBody (fst ?st) x s of (x1, s1) \<Rightarrow>
      (attach_quiet RespBodyRaw (pack (bc_encode B) (label_of enc) (take RESP_BODY_CAP prefix)) x1, s1))"
    using assms(1,3) unfolding capture_response_body_def capture_body_def is_active_def by (auto split: prod.splits)
  then show ?thesis
    using raw(2) assms(1) by (intro exI [of _ "fst ?st"]) (auto simp: attach_def attach_quiet_def ui_send_def)
qed

text \<open>C19: a response body that cannot be shown as text is served again by the decode endpoint: the bytes
  that were kept go through base64, the record, the detail log and its writer, and come back
  decompressed under the encoding they arrived with.\<close>

theorem captured_body_served:
  assumes "codec_ok B" "ex_captures x = Some r"
    and "label_of enc \<noteq> ''identity'' \<or> CHR 0x00 \<in> set (take RESP_BODY_CAP prefix)"
    and "capture_response_body B prefix len enc x s = (x', s')"
    and "detail_log s = Some g" "queue g = []" "log_wf g" "open_ok io" "write_ok io" "rename_ok io"
    and "detail_from_record (the (ex_captures x')) = Some dt" "enc_detail K dt = Some l" "dec_detail K l = Some dt"
    and "printable_line l" "line_seq K l = Some (rq_seq r)"
  shows "decode_captured_body K B D (rq_seq r) ''resp''
      ((drop_exchange K x' s')\<lparr>detail_log := map_option (writer_step io) (detail_log (drop_exchange K x' s'))\<rparr>) =
    classify_decoded (bc_lossy B) (decompress D (take RESP_BODY_CAP prefix) (label_of enc))"
proof -
  let ?p = "pack (bc_encode B) (label_of enc) (take RESP_BODY_CAP prefix)"
  obtain body where body: "body \<noteq> []" "ex_captures x' = Some (r\<lparr>rq_resp_body := body, rq_resp_body_raw := ?p\<rparr>)"
    "detail_log s' = detail_log s" using capture_response_record [OF assms(2-4)] by blast
  then have dt: "rd_resp_body_raw dt = ?p" using assms(11) by (auto simp: detail_from_record_def)
  have dl: "detail_log (drop_exchange K x' s') = Some (append_line (rq_ts_ms r) l g)"
    using body assms(5,11,12) by (simp add: drop_exchange_def append_opt_def)
  have ws: "writer_step io (append_line (rq_ts_ms r) l g) = write_line io (rq_ts_ms r) l g"
    using assms(6) by (cases g) (simp add: writer_step_def append_line_def)
  have "find_line (\<lambda>l. line_seq K l = Some (rq_seq r)) (write_line io (rq_ts_ms r) l g) = Some l"
    by (rule find_written) (use assms(7-10,14,15) in simp_all)
  then have "stored_detail K (rq_seq r)
      ((drop_exchange K x' s')\<lparr>detail_log := map_option (writer_step io) (detail_log (drop_exchange K x' s'))\<rparr>) = dt"
    using assms(13) by (simp add: stored_detail_def dl ws)
  moreover have "?p \<noteq> []" by (simp add: pack_def)
  ultimately show ?thesis using dt decode_packed [OF assms(1)] by (simp add: decode_captured_body_def Let_def)
qed

text \<open>Two letters per byte stand in for base64 here.\<close>

fun unletter :: "string \<Rightarrow> string option" where
  "unletter [] = Some []"
| "unletter [a] = None"
| "unletter (a # b # s) = map_option ((#) (char_of ((code a - 65) * 16 + (code b - 65)))) (unletter s)"

definition letter_codec :: body_codec where
  "letter_codec = \<lparr>bc_encode = (\<lambda>s. concat (map (\<lambda>c. [char_of (65 + code c div 16), char_of (65 + code c mod 16)]) s)),
     bc_decode = unletter, bc_lossy = (\<lambda>s. s)\<rparr>"

lemma letter_bounds: "code c div 16 < 16" "code c mod 16 < 16"
proof -
  have "code c < 256" by (rule nat_of_char_less_256)
  then show "code c div 16 < 16" "code c mod 16 < 16" using less_mult_imp_div_less [of "code c" 16 16] by simp_all
qed

lemma letter_codec_ok: "codec_ok letter_codec"
  unfolding codec_ok_def
proof (intro allI conjI)
  fix s
  note b = letter_bounds
  show "bc_decode letter_codec (bc_encode letter_codec s) = Some s"
  proof (induction s)
    case (Cons c s)
    have "65 + code c div 16 < 256" "65 + code c mod 16 < 256" using b [of c] by simp_all
    then show ?case using Cons by (simp add: letter_codec_def)
  qed (simp add: letter_codec_def)
  show "list_all graphic (bc_encode letter_codec s)"
  proof (induction s)
    case (Cons c s)
    have "graphic (char_of (65 + code c div 16))" "graphic (char_of (65 + code c mod 16))"
      using b [of c] by (simp_all add: graphic_def)
    then show ?case using Cons by (simp add: letter_codec_def)
  qed (simp add: letter_codec_def)
qed

text \<open>A gzip prefix, a decompressor that gives two bytes and ends, and a log that is empty.\<close>

definition capture_decoders :: decoders where
  "capture_decoders = \<lparr>gz_decoder = (\<lambda>_ n. if n = 0 then Some ''ok'' else Some []), zlib_decoder = (\<lambda>_ _. None),
     deflate_decoder = (\<lambda>_ _. None), br_decoder = (\<lambda>_ _. None), zstd_decoder = (\<lambda>_. None)\<rparr>"

definition capture_log :: rotating_log where
  "capture_log = log_open (\<lambda>_. None) None None 24"

definition capture_state :: shared_state where
  "capture_state = (state_new True True)\<lparr>detail_log := Some capture_log, request_log := Some capture_log\<rparr>"

definition capture_codecs :: "request_detail \<Rightarrow> codecs" where
  "capture_codecs dt = \<lparr>enc_request = (\<lambda>_. None), enc_detail = (\<lambda>_. Some ''row''), enc_dns = (\<lambda>_. None), enc_event = (\<lambda>_. None),
     dec_request = (\<lambda>_. None), dec_detail = (\<lambda>_. Some dt), dec_dns = (\<lambda>_. None),
     dec_value = (\<lambda>_. Some (JObject [(''seq'', JPosInt 1)])), enc_settings = (\<lambda>_. []), dec_settings = (\<lambda>_. None)\<rparr>"

definition capture_exchange :: exchange where
  "capture_exchange = fst (record_forwarded (capture_codecs (empty_detail 1)) 5
     \<lparr>f_method = ''GET'', f_type = ''script'', f_url = ''http://h.test/'', f_host = ''h.test''\<rparr> 200 False capture_state)"

theorem captured_body_served_witness:
  "let c = capture_response_body letter_codec ''zz'' 2 ''gzip'' capture_exchange capture_state;
       K = capture_codecs (the (detail_from_record (the (ex_captures (fst c)))));
       s = drop_exchange K (fst c) (snd c)
   in decode_captured_body K letter_codec capture_decoders 1 ''resp''
        (s\<lparr>detail_log := map_option (writer_step \<lparr>rename_ok = True, open_ok = True, write_ok = True\<rparr>) (detail_log s)\<rparr>) =
      classify_decoded (bc_lossy letter_codec) (decompress capture_decoders (take RESP_BODY_CAP ''zz'') (label_of ''gzip''))"
proof -
  let ?c = "capture_response_body letter_codec ''zz'' 2 ''gzip'' capture_exchange capture_state"
  let ?dt = "the (detail_from_record (the (ex_captures (fst ?c))))" and ?io = "\<lparr>rename_ok = True, open_ok = True, write_ok = True\<rparr>"
  obtain r where r: "ex_captures capture_exchange = Some r" "rq_seq r = 1"
    by (simp add: capture_exchange_def record_forwarded_def begin_exchange_def Let_def capture_state_def state_new_def
        capture_codecs_def stats_excluded_def append_opt_def)
  have lbl: "label_of ''gzip'' \<noteq> ''identity'' \<or> CHR 0x00 \<in> set (take RESP_BODY_CAP ''zz'')"
    by (rule disjI1) code_simp
  have c: "?c = (fst ?c, snd ?c)" by simp
  obtain body where "body \<noteq> []" "ex_captures (fst ?c) = Some (r\<lparr>rq_resp_body := body,
      rq_resp_body_raw := pack (bc_encode letter_codec) (label_of ''gzip'') (take RESP_BODY_CAP ''zz'')\<rparr>)"
    using capture_response_record [OF r(1) lbl c] by blast
  then have dt: "detail_from_record (the (ex_captures (fst ?c))) = Some ?dt" by (simp add: detail_from_record_def)
  have log: "detail_log capture_state = Some capture_log" "queue capture_log = []" "log_wf capture_log" "printable_line ''row''"
    by (simp_all add: capture_state_def capture_log_def log_open_def log_wf_def nl_terminated_def printable_line_def)
  have sq: "line_seq (capture_codecs ?dt) ''row'' = Some (rq_seq r)" using r(2) by (simp add: line_seq_def capture_codecs_def) code_simp
  show ?thesis
    using captured_body_served [OF letter_codec_ok r(1) lbl c log(1-3) _ _ _ dt _ _ log(4) sq, of ?io capture_decoders] r(2)
    by (simp add: Let_def capture_codecs_def)
qed

end
