(* ===== verification/Proxy_Server.thy ===== *)
theory Proxy_Server
  imports Proxy_Client Proxy_Control Proxy_Exclusions Adblock_Decide Stats_Capture
begin

text \<open>
  The proxy itself, \<open>proxy/server.rs\<close>, and the capture of streamed responses, \<open>proxy/capture.rs\<close>: what
  happens to one request from the bytes of its body to the response, composed of the plan, the
  decision of the ad blocker, the probe, the upstream and the records of the statistics. The two
  seams of the code, \<open>Upstream\<close> and \<open>Resolver\<close>, are the record \<open>upstream_ops\<close>; the client of
  \<open>Proxy_Client\<close> is an instance. HTTP/1 framing and TLS are the hyper and rustls crates'.
\<close>

section \<open>The seams\<close>

text \<open>A response arrives with the printed version and status, its headers, and a body as the frames of
  data that come, ended early by an error if there is one. An error is the messages of its chain.\<close>

record 'h up_response =
  ur_status :: u16
  ur_head :: string
  ur_headers :: 'h
  ur_frames :: "string list"
  ur_error :: "string option"

type_synonym ('h, 'u) full_request = "('h, 'u) http_request \<times> string"

record ('h, 'u, 't, 's) upstream_ops =
  up_send :: "('h, 'u) full_request \<Rightarrow> string \<Rightarrow> u16 \<Rightarrow> bool \<Rightarrow> 's \<Rightarrow> (string list + ('h up_response \<times> bool)) \<times> 's"
  up_connect :: "string \<Rightarrow> u16 \<Rightarrow> 's \<Rightarrow> (string list + 't) \<times> 's"
  up_blackholed :: "string \<Rightarrow> u16 \<Rightarrow> 's \<Rightarrow> bool \<times> 's"

text \<open>What the proxy is made of, with the library operations it uses and the clocks of one request.\<close>

record ('h, 'u, 'e, 'm, 't, 's) proxy_env =
  pe_headers :: "'h header_ops"
  pe_uris :: "'u uri_ops"
  pe_match :: "('e, 'm) match_ops"
  pe_codec :: body_codec
  pe_proc_js :: string
  pe_no_headers :: 'h
  pe_adblock :: "'e ad_blocker"
  pe_exclusions :: exclusion_store
  pe_up :: "('h, 'u, 't, 's) upstream_ops"
  pe_cert :: "string \<Rightarrow> string option"
  pe_log :: log_env
  pe_now :: nat
  pe_later :: nat

section \<open>Capturing a body\<close>

definition content_encoding :: "'h header_ops \<Rightarrow> 'h \<Rightarrow> string" where
  "content_encoding H headers = unwrap_or (header_str H ''content-encoding'' headers) []"

definition headers_text :: "'h header_ops \<Rightarrow> (string \<Rightarrow> string) \<Rightarrow> 'h \<Rightarrow> string" where
  "headers_text H lossy headers =
     join [CHR 0x0A] (map (\<lambda>(n, v). n @ '': '' @ lossy v) (header_pairs H headers))"

record stream_capture =
  cb_exchange :: exchange
  cb_enc :: string
  cb_cap :: nat
  cb_buf :: string
  cb_total :: nat
  cb_flushed :: bool

definition stream_response :: "exchange \<Rightarrow> string \<Rightarrow> stream_capture" where
  "stream_response x enc =
     \<lparr>cb_exchange = x, cb_enc = enc, cb_cap = response_body_cap x, cb_buf = [], cb_total = 0, cb_flushed = False\<rparr>"

definition flush_capture :: "body_codec \<Rightarrow> stream_capture \<Rightarrow> shared_state \<Rightarrow> stream_capture \<times> shared_state" where
  "flush_capture B cb s =
     (if cb_flushed cb then (cb, s)
      else case capture_response_body B (cb_buf cb) (cb_total cb) (cb_enc cb) (cb_exchange cb) s of
        (x, s') \<Rightarrow> (cb\<lparr>cb_flushed := True, cb_exchange := x\<rparr>, s'))"

text \<open>What polling the wrapped body gives.\<close>

datatype polled = PolledData string | PolledOther | PolledEnd | PolledError

fun poll_frame :: "body_codec \<Rightarrow> polled \<Rightarrow> stream_capture \<times> shared_state \<Rightarrow> stream_capture \<times> shared_state" where
  "poll_frame B (PolledData data) (cb, s) =
     (cb\<lparr>cb_total := cb_total cb + length data,
         cb_buf := (if length (cb_buf cb) < cb_cap cb
                    then cb_buf cb @ take (min (cb_cap cb - length (cb_buf cb)) (length data)) data
                    else cb_buf cb)\<rparr>, s)"
| "poll_frame B PolledEnd (cb, s) = flush_capture B cb s"
| "poll_frame B _ (cb, s) = (cb, s)"

text \<open>Dropping the body flushes it and then drops the exchange.\<close>

definition drop_capture :: "codecs \<Rightarrow> body_codec \<Rightarrow> stream_capture \<times> shared_state \<Rightarrow> shared_state" where
  "drop_capture K B p =
     (case flush_capture B (fst p) (snd p) of (cb, s) \<Rightarrow> drop_exchange K (cb_exchange cb) s)"

section \<open>Requests\<close>

datatype forward_error =
    NoHost
  | NoAuthority
  | RequestBody string
  | BlockedDropped
  | UpstreamError "string list"
  | ResponseBody string

datatype res_body = FullBody string | StreamBody "string list" "string option" stream_capture

record 'h proxy_response =
  pr_status :: u16
  pr_headers :: 'h
  pr_body :: res_body

text \<open>\<open>request_facts\<close> of the code; the name is the record's here.\<close>

definition facts_of :: "request_plan \<Rightarrow> string \<Rightarrow> request_facts" where
  "facts_of plan req_type = \<lparr>f_method = pl_method plan, f_type = req_type, f_url = pl_url plan, f_host = pl_host plan\<rparr>"

definition error_chain :: "string list \<Rightarrow> string" where
  "error_chain e = join '': '' e"

text \<open>The captures that every kind of request record gets.\<close>

definition capture_request ::
  "body_codec \<Rightarrow> string \<Rightarrow> string \<Rightarrow> string \<Rightarrow> exchange \<times> shared_state \<Rightarrow> exchange \<times> shared_state" where
  "capture_request B req_hdrs req_body enc p =
     (case (if req_body \<noteq> [] then capture_request_body B req_body (length req_body) enc (fst p) (snd p) else p) of
        (x, s) \<Rightarrow> attach ReqHeaders req_hdrs x s)"

definition record_block ::
  "('h, 'u, 'e, 'm, 't, 's) proxy_env \<Rightarrow> request_facts \<Rightarrow> string \<Rightarrow> string \<Rightarrow> string \<Rightarrow> string \<Rightarrow> string \<Rightarrow> shared_state \<Rightarrow>
   shared_state" where
  "record_block E facts host reason req_hdrs req_body enc s =
     (let L = pe_log E;
          s1 = count_block (pe_now E) (pe_later E) Blocked host s;
          label = (if f_method facts = ''CONNECT'' then ''CONNECT'' else f_type facts);
          s2 = (if log_actions s1
                then log_event (le_codecs L) (le_io_ok L) (le_ms L) (le_trace L) EvBlocked
                       (label @ ''  '' @ f_url facts @ ''  ['' @ reason @ '']'') s1
                else s1)
      in case capture_request (pe_codec E) req_hdrs req_body enc (record_blocked (le_codecs L) (le_ms L) facts reason s2) of
           (x, s3) \<Rightarrow> drop_exchange (le_codecs L) x s3)"

definition filter_answer ::
  "('h, 'u, 'e, 'm, 't, 's) proxy_env \<Rightarrow> 'h up_response \<Rightarrow> string \<Rightarrow> block_decision \<Rightarrow> exchange \<Rightarrow> shared_state \<Rightarrow>
   (forward_error + 'h proxy_response) \<times> shared_state" where
  "filter_answer E resp url decision x s =
     (let H = pe_headers E; B = pe_codec E; K = le_codecs (pe_log E);
          edited = filter_response H (bc_lossy B) (pe_proc_js E) (pe_match E) (pe_adblock E) url decision (ur_headers resp);
          enc = content_encoding H (ur_headers resp)
      in if \<not> reads_body H decision (unat (ur_status resp)) (ur_headers resp) then
           (Inr \<lparr>pr_status = ur_status resp, pr_headers = snd (edited None),
                 pr_body = StreamBody (ur_frames resp) (ur_error resp) (stream_response x enc)\<rparr>, s)
         else case ur_error resp of
           Some e \<Rightarrow> (Inl (ResponseBody e), drop_exchange K x s)
         | None \<Rightarrow>
             (let collected = concat (ur_frames resp) in
              case capture_response_body B collected (length collected) enc x s of
                (x1, s1) \<Rightarrow>
                  (case edited (Some collected) of
                     (edit, headers) \<Rightarrow>
                       (case (if re_scriptlets edit \<noteq> [] then attach Scriptlets (join '', '' (re_scriptlets edit)) x1 s1 else (x1, s1)) of
                          (x2, s2) \<Rightarrow>
                            (Inr \<lparr>pr_status = ur_status resp, pr_headers = headers,
                                  pr_body = FullBody (unwrap_or (re_body edit) collected)\<rparr>,
                             drop_exchange K x2 s2)))))"

text \<open>The two ends of a blocked request: the connection is dropped when the whole host is blocked and
  there is no stand-in, and answered otherwise.\<close>

definition blocked_end ::
  "('h, 'u, 'e, 'm, 't, 's) proxy_env \<Rightarrow> request_plan \<Rightarrow> block_decision \<Rightarrow> forward_error + 'h proxy_response" where
  "blocked_end E plan decision =
     (if bd_redirect decision = None \<and> bd_blocked (check_host (pe_match E) (pe_adblock E) (pl_scheme plan) (pl_host plan))
      then Inl BlockedDropped
      else let b = Adblock_Decide.blocked_response (pe_headers E) (pe_no_headers E) decision
           in Inr \<lparr>pr_status = of_nat (rp_status b), pr_headers = rp_headers b, pr_body = FullBody (rp_body b)\<rparr>)"

definition record_send_failure ::
  "('h, 'u, 'e, 'm, 't, 's) proxy_env \<Rightarrow> request_facts \<Rightarrow> string \<Rightarrow> string list \<Rightarrow> string \<Rightarrow> string \<Rightarrow> string \<Rightarrow> shared_state \<Rightarrow>
   shared_state" where
  "record_send_failure E facts host e req_hdrs req_body enc s =
     (let L = pe_log E;
          s1 = count (pe_now E) Errors host s;
          cause = ''upstream '' @ host @ '': '' @ error_chain e
      in case capture_request (pe_codec E) req_hdrs req_body enc (record_failed (le_codecs L) (le_ms L) facts cause s1) of
           (x, s2) \<Rightarrow> drop_exchange (le_codecs L) x s2)"

definition record_answer ::
  "('h, 'u, 'e, 'm, 't, 's) proxy_env \<Rightarrow> request_facts \<Rightarrow> 'h up_response \<Rightarrow> bool \<Rightarrow> string \<Rightarrow> string \<Rightarrow> string \<Rightarrow> shared_state \<Rightarrow>
   exchange \<times> shared_state" where
  "record_answer E facts resp ech req_hdrs req_body enc s =
     (let L = pe_log E in
      case capture_request (pe_codec E) req_hdrs req_body enc
             (record_forwarded (le_codecs L) (le_ms L) facts (ur_status resp) ech s) of
        (x, s1) \<Rightarrow>
          attach RespHeaders
            (ur_head resp @ [CHR 0x0A] @ headers_text (pe_headers E) (bc_lossy (pe_codec E)) (ur_headers resp)) x s1)"

definition forward_parts :: "('h, 'u, 'e, 'm, 't, 's) proxy_env \<Rightarrow> ('h, 'u) http_request \<Rightarrow> ('h, 'u) http_request" where
  "forward_parts E req =
     req\<lparr>hr_headers := remove_header (pe_headers E) ''content-length''
           (remove_header (pe_headers E) ''transfer-encoding'' (hr_headers req))\<rparr>"

text \<open>\<open>body\<close> is what collecting the request body gives.\<close>

definition handle_forward ::
  "('h, 'u, 'e, 'm, 't, 's) proxy_env \<Rightarrow> bool \<Rightarrow> ('h, 'u) http_request \<Rightarrow> string + string \<Rightarrow> shared_state \<Rightarrow> 's \<Rightarrow>
   (forward_error + 'h proxy_response) \<times> shared_state \<times> 's" where
  "handle_forward E secure req body s up =
     (case plan_request (pe_headers E) (pe_uris E) req secure of
        None \<Rightarrow> (Inl NoHost, s, up)
      | Some plan \<Rightarrow>
          (let decision = check_request (pe_headers E) (pe_match E) (pe_adblock E) (pl_url plan) req in
           case body of
             Inl e \<Rightarrow> (Inl (RequestBody e), s, up)
           | Inr req_bytes \<Rightarrow>
               (let parts = forward_parts E req;
                    enc = content_encoding (pe_headers E) (hr_headers parts);
                    hdrs = headers_text (pe_headers E) (bc_lossy (pe_codec E)) (hr_headers parts);
                    facts = facts_of plan (bd_req_type decision);
                    host = pl_host plan
                in if bd_blocked decision then
                     (blocked_end E plan decision,
                      record_block E facts host (display (bd_attribution decision)) hdrs req_bytes enc s, up)
                   else case up_blackholed (pe_up E) host (pl_port plan) up of
                     (True, up1) \<Rightarrow>
                       (Inl BlockedDropped, record_block E facts host ''DNS blackhole'' hdrs req_bytes enc s, up1)
                   | (False, up1) \<Rightarrow>
                       (let s1 = count (pe_now E) Requests host s;
                            fwd = (filter_request (pe_headers E) (pe_uris E) decision parts, req_bytes)
                        in case up_send (pe_up E) fwd host (pl_port plan) (pl_scheme plan = ''https'') up1 of
                             (Inl e, up2) \<Rightarrow>
                               (Inl (UpstreamError e), record_send_failure E facts host e hdrs req_bytes enc s1, up2)
                           | (Inr (resp, ech), up2) \<Rightarrow>
                               (case record_answer E facts resp ech hdrs req_bytes enc s1 of
                                  (x, s2) \<Rightarrow>
                                    (case filter_answer E resp (pl_url plan) decision x s2 of (r, s3) \<Rightarrow> (r, s3, up2)))))))"

section \<open>CONNECT\<close>

record tunnel =
  tn_exchange :: exchange
  tn_blind :: bool
  tn_host :: string
  tn_authority :: string

definition connect_plan_of :: "('h, 'u, 'e, 'm, 't, 's) proxy_env \<Rightarrow> string \<Rightarrow> connect_plan" where
  "connect_plan_of E authority =
     plan_connect authority
       (\<lambda>host. let d = check_host (pe_match E) (pe_adblock E) ''https'' host in
          if bd_blocked d then Some (display (bd_attribution d)) else None)
       (px_matching (pe_exclusions E))"

definition handle_connect ::
  "('h, 'u, 'e, 'm, 't, 's) proxy_env \<Rightarrow> ('h, 'u) http_request \<Rightarrow> shared_state \<Rightarrow> (forward_error + tunnel) \<times> shared_state" where
  "handle_connect E req s =
     (case uri_authority (pe_uris E) (hr_uri req) of
        None \<Rightarrow> (Inl NoAuthority, s)
      | Some authority \<Rightarrow>
          (let plan = connect_plan_of E authority;
               facts = (\<lambda>t. \<lparr>f_method = ''CONNECT'', f_type = t, f_url = cp_url plan, f_host = cp_host plan\<rparr>)
           in case cp_verdict plan of
                Deny blocked_by \<Rightarrow>
                  (Inl BlockedDropped,
                   record_block E (facts ''blocked'') (cp_host plan) blocked_by
                     (headers_text (pe_headers E) (bc_lossy (pe_codec E)) (hr_headers req)) [] [] s)
              | _ \<Rightarrow>
                  (case record_tunnel (le_codecs (pe_log E)) (le_ms (pe_log E)) (facts (record_label plan)) (record_tag plan) s of
                     (x, s1) \<Rightarrow>
                       (Inr \<lparr>tn_exchange = x, tn_blind = (case cp_verdict plan of BlindTunnel _ \<Rightarrow> True | _ \<Rightarrow> False), tn_host = cp_host plan,
                             tn_authority = authority\<rparr>, s1))))"

definition blind_tunnel :: "('h, 'u, 'e, 'm, 't, 's) proxy_env \<Rightarrow> string \<Rightarrow> 's \<Rightarrow> (string + 't) \<times> 's" where
  "blind_tunnel E authority up =
     (let (host, port) = target_host_port authority 443 in
      case up_connect (pe_up E) host port up of
        (Inl e, up1) \<Rightarrow> (Inl (''blind tunnel dial: '' @ error_chain (take 1 e)), up1)
      | (Inr t, up1) \<Rightarrow> (Inr t, up1))"

text \<open>The requests of one connection, in order, until the first error, which ends the connection. The
  environment of each request comes with it.\<close>

fun serve_requests ::
  "bool \<Rightarrow> (('h, 'u, 'e, 'm, 't, 's) proxy_env \<times> ('h, 'u) http_request \<times> (string + string)) list \<Rightarrow> shared_state \<Rightarrow> 's \<Rightarrow>
   (forward_error + 'h proxy_response) list \<times> shared_state \<times> 's" where
  "serve_requests secure [] s up = ([], s, up)"
| "serve_requests secure ((E, req, body) # rs) s up =
     (case handle_forward E secure req body s up of
        (r, s1, up1) \<Rightarrow>
          (case r of
             Inl e \<Rightarrow> ([Inl e], s1, up1)
           | Inr a \<Rightarrow> (case serve_requests secure rs s1 up1 of (as, s2, up2) \<Rightarrow> (Inr a # as, s2, up2))))"

definition mitm ::
  "('h, 'u, 'e, 'm, 't, 's) proxy_env \<Rightarrow> string \<Rightarrow> bool \<Rightarrow>
   (('h, 'u, 'e, 'm, 't, 's) proxy_env \<times> ('h, 'u) http_request \<times> (string + string)) list \<Rightarrow> shared_state \<Rightarrow> 's \<Rightarrow>
   (forward_error + 'h proxy_response) list \<times> shared_state \<times> 's" where
  "mitm E host accepted reqs s up =
     (if pe_cert E host \<noteq> None \<or> \<not> accepted then ([], s, up) else serve_requests True reqs s up)"

text \<open>The task behind a tunnel: \<open>upgraded\<close> says whether the client's connection could be taken over,
  \<open>accepted\<close> whether it completed the TLS handshake.\<close>

definition run_tunnel ::
  "('h, 'u, 'e, 'm, 't, 's) proxy_env \<Rightarrow> tunnel \<Rightarrow> bool \<Rightarrow> bool \<Rightarrow>
   (('h, 'u, 'e, 'm, 't, 's) proxy_env \<times> ('h, 'u) http_request \<times> (string + string)) list \<Rightarrow> u64 \<Rightarrow> shared_state \<Rightarrow> 's \<Rightarrow>
   shared_state \<times> 's" where
  "run_tunnel E t upgraded accepted reqs ms s up =
     (let K = le_codecs (pe_log E) in
      if \<not> upgraded then (drop_exchange K (tn_exchange t) s, up)
      else case (if tn_blind t then (s, snd (blind_tunnel E (tn_authority t) up))
                 else snd (mitm E (tn_host t) accepted reqs s up)) of
        (s1, up1) \<Rightarrow> (drop_exchange K (tn_exchange t) (closed ms (tn_exchange t) s1), up1))"

section \<open>Closed connections\<close>

datatype io_kind = BrokenPipe | ConnectionReset | ConnectionAborted | NotConnected | UnexpectedEof | OtherIo

text \<open>A layer of an error: one of the proxy's own, an error of the operating system, or another's.\<close>

datatype error_layer = LProxyError | LBlockedDropped | LIo io_kind | LOther

fun is_blocked_drop :: "error_layer list \<Rightarrow> bool" where
  "is_blocked_drop [] = False"
| "is_blocked_drop (e # es) = (if e = LBlockedDropped then True else is_blocked_drop es)"

fun is_routine_close :: "error_layer list \<Rightarrow> bool" where
  "is_routine_close [] = False"
| "is_routine_close (e # es) =
     (if e = LProxyError \<or> e = LBlockedDropped then True
      else case e of
        LIo k \<Rightarrow> if k \<noteq> OtherIo then True else is_routine_close es
      | _ \<Rightarrow> is_routine_close es)"

lemma blocked_drop_is_routine: "is_blocked_drop es \<Longrightarrow> is_routine_close es"
  by (induction es) (auto split: error_layer.splits if_splits)

section \<open>The client as upstream\<close>

text \<open>The entry point gives the client and the probe one egress policy, so the probe uses the client's;
  \<open>os\<close> is the lookup of the operating system.\<close>

definition http_upstream ::
  "('t, 'c, 'a, 'b, 'd, 'f) client_env \<Rightarrow> ('c, ('h, 'u) full_request, 'h up_response) wire_send \<Rightarrow> (nat \<Rightarrow> 'c \<Rightarrow> bool) \<Rightarrow>
   'u uri_ops \<Rightarrow> (string \<Rightarrow> u16 \<Rightarrow> 'f + socket_addr list) \<Rightarrow>
   ('h, 'u, 't, ('c, 'a, 'b, 'd, ('h, 'u) full_request) client \<times> blackhole_cache) upstream_ops" where
  "http_upstream N W live U os =
     \<lparr>up_send = (\<lambda>(req, body) host port tls (cl, bc).
        case client_send N W live (to_origin_form U req, body) host port tls cl of
          (r, cl') \<Rightarrow> (case r of Inl e \<Rightarrow> Inl [e] | Inr a \<Rightarrow> Inr a, (cl', bc))),
      up_connect = (\<lambda>host port (cl, bc).
        case connect_tcp N 0 host port cl of
          (r, cl') \<Rightarrow> (case r of Inl e \<Rightarrow> Inl [e] | Inr t \<Rightarrow> Inr t, (cl', bc))),
      up_blackholed = (\<lambda>host port (cl, bc).
        case cl_egress cl of
          None \<Rightarrow> (False, (cl, bc))
        | Some eg \<Rightarrow>
            (case is_blackholed (ce_dns N) (ce_addrs N) os (ce_now N) (ce_later N) host port bc eg (cl_dns cl) of
               (b, bc', eg', dns') \<Rightarrow> (b, (cl\<lparr>cl_egress := Some eg', cl_dns := dns'\<rparr>, bc'))))\<rparr>"

section \<open>Invariants of the upstream\<close>

text \<open>What every operation of the upstream keeps, the proxy keeps.\<close>

locale upstream_inv =
  fixes Ops :: "('h, 'u, 't, 's) upstream_ops set" and I :: "'s \<Rightarrow> bool"
  assumes send_keeps: "ops \<in> Ops \<Longrightarrow> I up \<Longrightarrow> I (snd (up_send ops q host port tls up))"
    and connect_keeps: "ops \<in> Ops \<Longrightarrow> I up \<Longrightarrow> I (snd (up_connect ops host port up))"
    and probe_keeps: "ops \<in> Ops \<Longrightarrow> I up \<Longrightarrow> I (snd (up_blackholed ops host port up))"
begin

lemma handle_forward_keeps:
  assumes "pe_up E \<in> Ops" "I up"
  shows "I (snd (snd (handle_forward E secure req body s up)))"
proof -
  have "I up1" if "up_blackholed (pe_up E) host port up = (b, up1)" for host port b up1
    using probe_keeps [OF assms, of host port] that by simp
  moreover have "I up2" if "up_send (pe_up E) q host port tls up1 = (r, up2)" "I up1" for q host port tls up1 r up2
    using send_keeps [OF assms(1) that(2), of q host port tls] that(1) by simp
  ultimately show ?thesis
    using assms(2) by (auto simp: handle_forward_def Let_def split: option.split sum.split prod.split bool.split)
qed

lemma serve_requests_keeps:
  "\<forall>r \<in> set rs. pe_up (fst r) \<in> Ops \<Longrightarrow> I up \<Longrightarrow> I (snd (snd (serve_requests secure rs s up)))"
proof (induction secure rs s up rule: serve_requests.induct)
  case (2 secure E req body rs s up)
  obtain r s1 up1 where h: "handle_forward E secure req body s up = (r, s1, up1)" by (cases "handle_forward E secure req body s up")
  moreover have "I up1" using handle_forward_keeps [of E up secure req body s] 2(2,3) h by simp
  ultimately show ?case using 2(1) [OF h [symmetric] refl] 2(2) by (auto split: sum.splits prod.splits)
qed simp

lemma run_tunnel_keeps:
  assumes "pe_up E \<in> Ops" "\<forall>r \<in> set reqs. pe_up (fst r) \<in> Ops" "I up"
  shows "I (snd (run_tunnel E t upgraded accepted reqs ms s up))"
proof -
  have "I (snd (blind_tunnel E (tn_authority t) up))"
    using connect_keeps [OF assms(1,3)] by (auto simp: blind_tunnel_def Let_def split: prod.split sum.split)
       (metis snd_conv)+
  moreover have "I (snd (snd (mitm E (tn_host t) accepted reqs s up)))"
    using serve_requests_keeps [OF assms(2,3)] assms(3) by (simp add: mitm_def)
  ultimately show ?thesis using assms(3) by (auto simp: run_tunnel_def Let_def split: prod.split)
qed

end

section \<open>The pool stays bounded\<close>

text \<open>The upstreams a proxy may run on: the client, at any moment.\<close>

definition client_upstreams ::
  "('h, 'u, 't, ('c, 'a, 'b, 'd, ('h, 'u) full_request) client \<times> blackhole_cache) upstream_ops set" where
  "client_upstreams = {http_upstream (N :: ('t, 'c, 'a, 'b, 'd, string) client_env) W live U os | N W live U os. True}"

lemma probe_pool:
  "cl_pool (fst (snd (up_blackholed (http_upstream N W live U os) host port up))) = cl_pool (fst up)"
  by (auto simp: http_upstream_def split: prod.split option.split)

lemma connect_pool: "cl_pool (fst (snd (up_connect (http_upstream N W live U os) host port up))) = cl_pool (fst up)"
proof -
  obtain r cl where t: "connect_tcp N 0 host port (fst up) = (r, cl)" by (cases "connect_tcp N 0 host port (fst up)")
  then show ?thesis using connect_tcp_frame(1) [OF t] by (simp add: http_upstream_def case_prod_beta same_conns_def)
qed

lemma send_pool:
  assumes "pool_ok (cl_pool (fst up))"
  shows "pool_ok (cl_pool (fst (snd (up_send (http_upstream N W live U os) q host port tls up))))"
proof -
  let ?q = "(to_origin_form U (fst q), snd q)"
  obtain r cl where c: "client_send N W live ?q host port tls (fst up) = (r, cl)" by (cases "client_send N W live ?q host port tls (fst up)")
  then have "pool_ok (cl_pool cl)" using client_send_pool [OF c] pool_ok_checkout assms by blast
  then show ?thesis by (simp add: http_upstream_def case_prod_beta c)
qed

interpretation http_pool: upstream_inv client_upstreams "\<lambda>up. pool_ok (cl_pool (fst up))"
  by unfold_locales (auto simp: client_upstreams_def probe_pool connect_pool send_pool)

section \<open>What recording leaves alone\<close>

lemma metrics_ui_send [simp]: "metrics (ui_send m s) = metrics s"
  by (simp add: ui_send_def)

lemma metrics_begin [simp]: "metrics (snd (begin_exchange K ms kind f st by ech s)) = metrics s"
  by (simp add: begin_exchange_def Let_def)

lemma metrics_records [simp]:
  "metrics (snd (record_blocked K ms f by s)) = metrics s" "metrics (snd (record_failed K ms f by s)) = metrics s"
  "metrics (snd (record_tunnel K ms f by s)) = metrics s" "metrics (snd (record_forwarded K ms f st ech s)) = metrics s"
  by (simp_all add: record_blocked_def record_failed_def record_tunnel_def record_forwarded_def)

lemma metrics_attach [simp]: "metrics (snd (attach slot t x s)) = metrics s"
  by (simp add: attach_def split: option.split)

lemma metrics_capture_body [simp]: "metrics (snd (capture_body B d r pre len cap enc x s)) = metrics s"
  by (simp add: capture_body_def case_prod_beta)

lemma metrics_captures [simp]:
  "metrics (snd (capture_request_body B pre len enc x s)) = metrics s"
  "metrics (snd (capture_response_body B pre len enc x s)) = metrics s"
  by (simp_all add: capture_request_body_def capture_response_body_def)

lemma metrics_drop [simp]: "metrics (drop_exchange K x s) = metrics s"
  by (simp add: drop_exchange_def split: option.split)

lemma metrics_closed [simp]: "metrics (closed ms x s) = metrics s"
  by (simp add: closed_def)

lemma metrics_capture_request [simp]: "metrics (snd (capture_request B h b enc p)) = metrics (snd p)"
  by (simp add: capture_request_def case_prod_beta)

lemma metrics_record_block:
  "metrics (record_block E f host reason h b enc s) =
     (if stats_excluded s host then metrics s else bump_metric Blocked (bump_metric Requests (metrics s)))"
  by (simp add: record_block_def Let_def metrics_count_block case_prod_beta)

lemma metrics_send_failure:
  "metrics (record_send_failure E f host e h b enc s) =
     (if stats_excluded s host then metrics s else bump_metric Errors (metrics s))"
  by (simp add: record_send_failure_def Let_def metrics_count case_prod_beta)

lemma metrics_record_answer [simp]: "metrics (snd (record_answer E f resp ech h b enc s)) = metrics s"
  by (simp add: record_answer_def Let_def case_prod_beta)

lemma metrics_filter_answer [simp]: "metrics (snd (filter_answer E resp url d x s)) = metrics s"
  by (simp add: filter_answer_def Let_def case_prod_beta split: option.split)

section \<open>A small proxy\<close>

text \<open>URIs are paths, so that the host comes from its header; one host is blocked, one resolves to nowhere,
  one cannot be reached. The state of the upstream lists what it was asked.\<close>

definition sample_uris :: "string uri_ops" where
  "sample_uris = \<lparr>parse_uri = Some, has_authority = (\<lambda>_. False), path_and_query = Some, uri_authority = Some,
     uri_scheme = (\<lambda>_. None), uri_host = (\<lambda>_. None), uri_port = (\<lambda>_. None), origin_form = Some\<rparr>"

definition sample_response :: "(string \<times> string) list up_response" where
  "sample_response = \<lparr>ur_status = 200, ur_head = ''HTTP/1.1 200 OK'', ur_headers = [(''content-type'', ''text/plain'')],
     ur_frames = [''he'', ''llo''], ur_error = None\<rparr>"

definition sample_upstream :: "((string \<times> string) list, string, unit, string list) upstream_ops" where
  "sample_upstream =
     \<lparr>up_send = (\<lambda>q host port tls up.
        (if host = ''down.test'' then Inl [''refused''] else Inr (sample_response, False), up @ [''send '' @ host])),
      up_connect = (\<lambda>host port up. (Inr (), up @ [''connect '' @ host])),
      up_blackholed = (\<lambda>host port up. (host = ''nowhere.test'', up @ [''probe '' @ host]))\<rparr>"

definition sample_rules :: "string list ad_blocker" where
  "sample_rules = (sample_blocker True)\<lparr>ab_engine := [''other http://ads.test/x'', ''document http://ads.test/'',
     ''document https://ads.test/'']\<rparr>"

definition no_stand_in :: "(string list, string) match_ops" where
  "no_stand_in = sample_match\<lparr>check_network_request := (\<lambda>e q. \<lparr>br_matched = q \<in> set e, br_redirect = None,
     br_rewritten_url = None, br_filter = Some q\<rparr>)\<rparr>"

definition sample_proxy ::
  "((string \<times> string) list, string, 't, 's) upstream_ops \<Rightarrow> bool \<Rightarrow>
   ((string \<times> string) list, string, string list, string, 't, 's) proxy_env" where
  "sample_proxy ops on = \<lparr>pe_headers = list_headers, pe_uris = sample_uris, pe_match = no_stand_in, pe_codec = letter_codec,
     pe_proc_js = [], pe_no_headers = [], pe_adblock = (if on then sample_rules else sample_blocker False),
     pe_exclusions = \<lparr>entries = [\<lparr>ex_domain = ''bank.test'', ex_enabled = True\<rparr>], file_path = no_path, file_header = []\<rparr>,
     pe_up = ops, pe_cert = (\<lambda>_. None),
     pe_log = \<lparr>le_codecs = sample_codecs, le_io_ok = True, le_ms = 1, le_trace = None\<rparr>, pe_now = 0, pe_later = 0\<rparr>"

definition sample_get :: "string \<Rightarrow> ((string \<times> string) list, string) http_request" where
  "sample_get host = \<lparr>hr_method = ''GET'', hr_uri = ''/x'', hr_headers = [(''host'', host), (''accept'', ''*/*'')]\<rparr>"

section \<open>A request and its record\<close>

lemma blocked_end_cases: "blocked_end E plan d = Inl BlockedDropped \<or> (\<exists>a. blocked_end E plan d = Inr a)"
  by (simp add: blocked_end_def Let_def)

lemma filter_answer_error: "fst (filter_answer E resp url d x s) \<noteq> Inl (UpstreamError e)"
  by (auto simp: filter_answer_def Let_def case_prod_beta split: option.split)

text \<open>C6: a blocked request never leaves the proxy: the upstream is not asked for anything, not even a
  name. The connection is dropped exactly when the whole host is blocked and there is no stand-in
  to serve; otherwise the answer is the ad blocker's.\<close>

theorem blocked_request_stays_local:
  assumes "plan_request (pe_headers E) (pe_uris E) req secure = Some plan"
    and "d = check_request (pe_headers E) (pe_match E) (pe_adblock E) (pl_url plan) req" "bd_blocked d"
    and "handle_forward E secure req (Inr b) s up = (r, s', up')"
  shows "up' = up \<and>
    (r = Inl BlockedDropped \<longleftrightarrow>
       bd_redirect d = None \<and> bd_blocked (check_host (pe_match E) (pe_adblock E) (pl_scheme plan) (pl_host plan))) \<and>
    (\<forall>a. r = Inr a \<longrightarrow> (let w = Adblock_Decide.blocked_response (pe_headers E) (pe_no_headers E) d in
       pr_status a = of_nat (rp_status w) \<and> pr_headers a = rp_headers w \<and> pr_body a = FullBody (rp_body w)))"
proof -
  have "up' = up" "r = blocked_end E plan d" using assms by (auto simp: handle_forward_def Let_def)
  then show ?thesis by (auto simp: blocked_end_def Let_def split: if_splits)
qed

definition sample_plan :: "string \<Rightarrow> request_plan" where
  "sample_plan host = \<lparr>pl_scheme = ''http'', pl_host = host, pl_port = 80, pl_url = ''http://'' @ host @ ''/x'', pl_method = ''GET''\<rparr>"

lemma sample_plans:
  "plan_request (pe_headers (sample_proxy ops on)) (pe_uris (sample_proxy ops on)) (sample_get ''ads.test'') False = Some (sample_plan ''ads.test'')"
  "plan_request (pe_headers (sample_proxy ops on)) (pe_uris (sample_proxy ops on)) (sample_get ''down.test'') False = Some (sample_plan ''down.test'')"
  by code_simp+

theorem blocked_request_stays_local_witness:
  "snd (snd (handle_forward (sample_proxy sample_upstream True) False (sample_get ''ads.test'') (Inr []) (state_new True True) [])) = [] \<and>
   fst (handle_forward (sample_proxy sample_upstream True) False (sample_get ''ads.test'') (Inr []) (state_new True True) []) = Inl BlockedDropped"
proof -
  let ?E = "sample_proxy sample_upstream True" and ?p = "sample_plan ''ads.test''"
  let ?d = "check_request (pe_headers ?E) (pe_match ?E) (pe_adblock ?E) (pl_url ?p) (sample_get ''ads.test'')"
  let ?r = "handle_forward ?E False (sample_get ''ads.test'') (Inr []) (state_new True True) []"
  have d: "bd_blocked ?d" "bd_redirect ?d = None" "bd_blocked (check_host (pe_match ?E) (pe_adblock ?E) (pl_scheme ?p) (pl_host ?p))"
    by code_simp+
  have "?r = (fst ?r, fst (snd ?r), snd (snd ?r))" by simp
  from blocked_request_stays_local [OF sample_plans(1) refl d(1) this] show ?thesis using d by simp
qed



lemma disabled_decision:
  assumes "\<not> ab_enabled ab"
  obtains t where "check_request H M ab url req = pass\<lparr>bd_req_type := t\<rparr>"
proof -
  have m: "match_request M ab url src t = pass" for src t using assms by (simp add: match_request_def)
  show thesis using that check_request_cases [of H req M ab url] by (auto simp: check_def m)
qed



section \<open>Tunnels\<close>





section \<open>Streamed responses\<close>

fun polled_data :: "polled \<Rightarrow> string" where
  "polled_data (PolledData b) = b"
| "polled_data _ = []"

lemma polls:
  "PolledEnd \<notin> set ps \<Longrightarrow> cb_buf cb = take (cb_cap cb) pre \<Longrightarrow> cb_total cb = length pre \<Longrightarrow>
   fold (poll_frame B) ps (cb, s) =
     (cb\<lparr>cb_buf := take (cb_cap cb) (pre @ concat (map polled_data ps)), cb_total := length (pre @ concat (map polled_data ps))\<rparr>, s)"
proof (induction ps arbitrary: cb pre)
  case (Cons p ps)
  show ?case
  proof (cases p)
    case (PolledData b)
    let ?cb = "cb\<lparr>cb_total := cb_total cb + length b, cb_buf := take (cb_cap cb) (pre @ b)\<rparr>"
    have "poll_frame B p (cb, s) = (?cb, s)" using Cons.prems PolledData by (auto simp: min_def)
    then show ?thesis using Cons.IH [of ?cb "pre @ b"] Cons.prems PolledData by simp
  qed (use Cons in auto)
qed simp

lemma stored_take: "stored encode lossy (take cap b) len cap enc = stored encode lossy b len cap enc"
  by (simp add: stored_def Let_def min_def)

text \<open>C12: capturing a response while it streams stores the same as capturing the whole of it at once,
  however the body is cut into frames and wherever the client stops reading: what is stored is that
  of the part that was delivered.\<close>

theorem streamed_capture_same:
  assumes "is_active x" "PolledEnd \<notin> set ps" "b = concat (map polled_data ps)"
  shows "drop_capture K B (fold (poll_frame B) (ps @ (if ended then [PolledEnd] else [])) (stream_response x enc, s)) =
    (case capture_response_body B b (length b) enc x s of (x', s') \<Rightarrow> drop_exchange K x' s')"
proof -
  let ?cb = "(stream_response x enc)\<lparr>cb_buf := take RESP_BODY_CAP b, cb_total := length b\<rparr>"
  have cap: "cb_cap (stream_response x enc) = RESP_BODY_CAP" using assms(1) by (simp add: stream_response_def response_body_cap_def)
  have "fold (poll_frame B) ps (stream_response x enc, s) = (?cb, s)"
    using polls [OF assms(2), of "stream_response x enc" "[]" B s] cap assms(3) by (simp add: stream_response_def)
  moreover have "capture_response_body B (take RESP_BODY_CAP b) (length b) enc x s = capture_response_body B b (length b) enc x s"
    by (simp add: capture_response_body_def capture_body_def stored_take)
  ultimately show ?thesis
    by (simp add: drop_capture_def flush_capture_def case_prod_beta stream_response_def)
qed

theorem streamed_capture_same_witness:
  "drop_capture sample_codecs letter_codec
     (fold (poll_frame letter_codec) ([PolledData ''he'', PolledOther, PolledData ''llo''] @ (if True then [PolledEnd] else []))
        (stream_response capture_exchange [], capture_state)) =
   (case capture_response_body letter_codec ''hello'' (length ''hello'') [] capture_exchange capture_state of
      (x, s) \<Rightarrow> drop_exchange sample_codecs x s)"
proof -
  have "is_active capture_exchange"
    by (simp add: is_active_def capture_exchange_def record_forwarded_def begin_exchange_def Let_def capture_state_def state_new_def
        capture_codecs_def stats_excluded_def append_opt_def)
  then show ?thesis by (rule streamed_capture_same) simp_all
qed

section \<open>The running proxy\<close>

text \<open>The steps of the proxy over the client: a request on a plain connection, a tunnel from its opening to
  its end, and a connection of the client that becomes idle again. Every request has its own
  surroundings, which is where the clocks and the network come in.\<close>

inductive proxy_steps ::
  "shared_state \<times> ('c, 'a, 'b, 'd, ('h, 'u) full_request) client \<times> blackhole_cache \<Rightarrow>
   ('h, 'u, 'e, 'm, 't, ('c, 'a, 'b, 'd, ('h, 'u) full_request) client \<times> blackhole_cache) proxy_env set \<Rightarrow>
   shared_state \<times> ('c, 'a, 'b, 'd, ('h, 'u) full_request) client \<times> blackhole_cache \<Rightarrow> bool" for st0 Es where
  start: "proxy_steps st0 Es st0"
| forward: "proxy_steps st0 Es (s, up) \<Longrightarrow> E \<in> Es \<Longrightarrow> handle_forward E secure req body s up = (r, s', up') \<Longrightarrow>
    proxy_steps st0 Es (s', up')"
| refuse: "proxy_steps st0 Es (s, up) \<Longrightarrow> E \<in> Es \<Longrightarrow> handle_connect E req s = (Inl e, s') \<Longrightarrow> proxy_steps st0 Es (s', up)"
| tunnel: "proxy_steps st0 Es (s, up) \<Longrightarrow> E \<in> Es \<Longrightarrow> handle_connect E req s = (Inr t, s1) \<Longrightarrow>
    \<forall>q \<in> set reqs. fst q \<in> Es \<Longrightarrow> run_tunnel E t upgraded accepted reqs ms s1 up = (s', up') \<Longrightarrow> proxy_steps st0 Es (s', up')"
| idle: "proxy_steps st0 Es (s, cl, bc) \<Longrightarrow> proxy_steps st0 Es (s, park_when_ready i ready cl, bc)"

lemma proxy_steps_pool:
  assumes "proxy_steps st0 Es st" "\<forall>E \<in> Es. pe_up E \<in> client_upstreams" "pool_ok (cl_pool (fst (snd st0)))"
  shows "pool_ok (cl_pool (fst (snd st)))"
  using assms(1)
proof (induction rule: proxy_steps.induct)
  case start
  then show ?case using assms(3) .
next
  case (forward s up E secure req body r s' up')
  then have "pe_up E \<in> client_upstreams" "pool_ok (cl_pool (fst up))" using assms(2) by simp_all
  from http_pool.handle_forward_keeps [OF this, of secure req body s] show ?case using forward.hyps(3) by simp
next
  case (tunnel s up E req t s1 reqs upgraded accepted ms s' up')
  then have "pe_up E \<in> client_upstreams" "\<forall>q \<in> set reqs. pe_up (fst q) \<in> client_upstreams" "pool_ok (cl_pool (fst up))"
    using assms(2) by simp_all
  from http_pool.run_tunnel_keeps [OF this, of t upgraded accepted ms s1] show ?case using tunnel.hyps(5) by simp
next
  case (idle s cl bc i ready)
  then show ?case by (auto simp: park_when_ready_def pool_ok_park split: prod.split)
qed simp

text \<open>C9: whatever the proxy serves, in whatever order its connections become idle, its client never keeps
  more than eight idle connections to a host.\<close>

theorem proxy_pool_bounded:
  assumes "proxy_steps st0 Es (s, cl, bc)" "\<forall>E \<in> Es. pe_up E \<in> client_upstreams" "cl_pool (fst (snd st0)) = Map.empty"
    and "cl_pool cl key = Some v"
  shows "length v \<le> 8"
proof -
  have "pool_ok (cl_pool (fst (snd st0)))" using assms(3) by (simp add: pool_ok_def)
  from proxy_steps_pool [OF assms(1,2) this] have "pool_ok (cl_pool cl)" by simp
  from pool_okD [OF this assms(4)] show ?thesis by (simp add: MAX_IDLE_PER_HOST_def)
qed

definition fresh_client :: "(nat, ip_addr list ttl_entries, bytes option ttl_entries, unit, 'q) client" where
  "fresh_client = \<lparr>cl_pool = Map.empty, cl_egress = None, cl_dns = (), cl_dialled = [], cl_sent = [], cl_pending = []\<rparr>"

definition sample_http ::
  "((string \<times> string) list, string, nat,
    (nat, ip_addr list ttl_entries, bytes option ttl_entries, unit, ((string \<times> string) list, string) full_request) client \<times> blackhole_cache)
   upstream_ops" where
  "sample_http = http_upstream sample_client_env
     \<lparr>ws_try = (\<lambda>_ _. TrySent sample_response), ws_send = (\<lambda>_ _. Inr sample_response)\<rparr> (\<lambda>_ _. True) sample_uris (\<lambda>_ _. Inl ''none'')"

theorem proxy_pool_bounded_witness:
  "let r = handle_forward (sample_proxy sample_http True) False (sample_get ''h.test'') (Inr []) (state_new True True) (fresh_client, Map.empty)
   in length (the (cl_pool (park_when_ready 0 True (fst (snd (snd r)))) (''h.test'', 80, False))) \<le> 8"
proof -
  let ?E = "sample_proxy sample_http True" and ?st = "(state_new True True, fresh_client, Map.empty :: blackhole_cache)"
  let ?r = "handle_forward ?E False (sample_get ''h.test'') (Inr []) (state_new True True) (fresh_client, Map.empty)"
  let ?cl = "park_when_ready 0 True (fst (snd (snd ?r)))"
  have "?r = (fst ?r, fst (snd ?r), fst (snd (snd ?r)), snd (snd (snd ?r)))" by simp
  from proxy_steps.forward [OF proxy_steps.start _ this, of "{?E}"]
  have "proxy_steps ?st {?E} (fst (snd ?r), fst (snd (snd ?r)), snd (snd (snd ?r)))" by simp
  then have steps: "proxy_steps ?st {?E} (fst (snd ?r), ?cl, snd (snd (snd ?r)))" by (rule proxy_steps.idle)
  have ops: "\<forall>E \<in> {?E}. pe_up E \<in> client_upstreams"
    unfolding client_upstreams_def sample_proxy_def sample_http_def by simp blast
  have none: "cl_pool (fst (snd ?st)) = Map.empty" by (simp add: fresh_client_def)
  have "cl_pool ?cl (''h.test'', 80, False) = Some (the (cl_pool ?cl (''h.test'', 80, False)))" by code_simp
  from proxy_pool_bounded [OF steps ops none this] show ?thesis unfolding Let_def .
qed

end
