(* ===== verification/Proxy_Certs.thy ===== *)
theory Proxy_Certs
  imports Proxy_Control
begin

text \<open>
  The store of signing CAs, \<open>proxy/certs.rs\<close>, with its admin handler in \<open>web/certs.rs\<close>. The directory of
  CAs is the list of its folders; the selection is kept in a settings file of \<open>Proxy_Store\<close>.
  Certificates themselves are the rcgen and x509 crates': the record \<open>cert_lib\<close> says which pairs of
  texts load as a signing CA, what a new CA is and what is shown of a certificate. Folder operations
  may fail, as faults of the store.
\<close>

section \<open>The folders\<close>

record ca_dir =
  cd_cert :: "content option"
  cd_key :: "content option"

record cert_store =
  ca_dirs :: "(string \<times> ca_dir) list"
  ca_config :: ca_dir
  ca_path :: path
  ca_disk :: disk
  ca_mkdir_fault :: "string \<Rightarrow> string option"
  ca_write_fault :: "string \<Rightarrow> bool \<Rightarrow> (string \<times> content option) option"
  ca_remove_fault :: "string \<Rightarrow> string option"

record cert_lib =
  lib_load :: "string \<Rightarrow> string \<Rightarrow> string + unit"
  lib_generate :: "string \<Rightarrow> string + (string \<times> string)"
  lib_info :: "string \<Rightarrow> (string \<times> string \<times> bool) option"
  lib_text :: json_text

datatype cert_error =
    CaNameRequired | NameReserved | NameChars | PairRequired
  | NoSuchCa string | CaExists string | CaCreating string string | CaWriting string | CaRemoving string string
  | CaMissing | CaReading | CaBad string | CaStore store_error | CaRequest string | CaUnknownAction string

definition CONFIG_NAME :: string where "CONFIG_NAME = ''config''"

definition clean_name :: "string \<Rightarrow> cert_error + string" where
  "clean_name name0 =
     (let name = trim name0 in
      if name = [] then Inl CaNameRequired
      else if name = CONFIG_NAME then Inl NameReserved
      else if 64 < length name \<or> \<not> list_all (\<lambda>c. is_ascii_alphanumeric c \<or> c \<in> {CHR ''-'', CHR ''_'', CHR ''.''}) name \<or>
              starts_with ''.'' name
      then Inl NameChars
      else Inr name)"

text \<open>\<open>CertAuthority::load\<close> (\<open>proxy/ca.rs\<close>).\<close>

definition load_ca :: "cert_lib \<Rightarrow> ca_dir \<Rightarrow> cert_error + unit" where
  "load_ca X e =
     (if cd_cert e = None \<or> cd_key e = None then Inl CaMissing
      else case (cd_cert e, cd_key e) of
        (Some (Text c), Some (Text k)) \<Rightarrow> map_err CaBad (lib_load X c k)
      | _ \<Rightarrow> Inl CaReading)"

section \<open>The selection\<close>

definition sel_to_value :: "string option \<Rightarrow> json" where
  "sel_to_value s = JObject [(''active'', opt_json JString s)]"

definition sel_of_fields :: "(string \<times> json) list \<Rightarrow> string option option" where
  "sel_of_fields m = opt_field as_str (map_of m ''active'')"

fun sel_of_value :: "json \<Rightarrow> string option option" where
  "sel_of_value (JObject m) = sel_of_fields m"
| "sel_of_value _ = None"

interpretation selection: settings_group sel_to_value sel_of_value None "{''active''}"
  by unfold_locales (auto simp: sel_to_value_def sel_of_fields_def)

definition active_name :: "cert_lib \<Rightarrow> cert_store \<Rightarrow> string option" where
  "active_name X st = store_load (lib_text X) sel_of_value None (ca_path st) (ca_disk st)"

definition select_ca :: "cert_lib \<Rightarrow> string option \<Rightarrow> cert_store \<Rightarrow> (cert_error + unit) \<times> cert_store" where
  "select_ca X sel st =
     (case store_save (lib_text X) sel_to_value (ca_path st) sel (ca_disk st) of
        (r, d) \<Rightarrow> (map_err CaStore r, st\<lparr>ca_disk := d\<rparr>))"

datatype ca_ref = ConfigCa | StoredCa string

definition has_pair :: "cert_store \<Rightarrow> string \<Rightarrow> bool" where
  "has_pair st name =
     (case map_of (ca_dirs st) name of Some e \<Rightarrow> cd_cert e \<noteq> None \<and> cd_key e \<noteq> None | None \<Rightarrow> False)"

definition active_paths :: "cert_lib \<Rightarrow> cert_store \<Rightarrow> ca_ref" where
  "active_paths X st =
     (case active_name X st of
        Some name \<Rightarrow> if has_pair st name then StoredCa name else ConfigCa
      | None \<Rightarrow> ConfigCa)"

fun ca_files :: "cert_store \<Rightarrow> ca_ref \<Rightarrow> ca_dir" where
  "ca_files st ConfigCa = ca_config st"
| "ca_files st (StoredCa name) = unwrap_or (map_of (ca_dirs st) name) \<lparr>cd_cert = None, cd_key = None\<rparr>"

section \<open>Commands\<close>

definition remove_ca :: "string \<Rightarrow> cert_store \<Rightarrow> cert_store" where
  "remove_ca name st =
     (case ca_remove_fault st name of
        Some _ \<Rightarrow> st
      | None \<Rightarrow> st\<lparr>ca_dirs := filter (\<lambda>(n, _). n \<noteq> name) (ca_dirs st)\<rparr>)"

text \<open>The two writes, the second only after the first.\<close>

definition write_ca_files :: "cert_store \<Rightarrow> string \<Rightarrow> string \<Rightarrow> string \<Rightarrow> (string + unit) \<times> ca_dir" where
  "write_ca_files st name cert key =
     (case ca_write_fault st name False of
        Some (e, wreck) \<Rightarrow> (Inl e, \<lparr>cd_cert = wreck, cd_key = None\<rparr>)
      | None \<Rightarrow>
          (case ca_write_fault st name True of
             Some (e, wreck) \<Rightarrow> (Inl e, \<lparr>cd_cert = Some (Text cert), cd_key = wreck\<rparr>)
           | None \<Rightarrow> (Inr (), \<lparr>cd_cert = Some (Text cert), cd_key = Some (Text key)\<rparr>)))"

definition write_pair :: "cert_lib \<Rightarrow> string \<Rightarrow> string \<Rightarrow> string \<Rightarrow> cert_store \<Rightarrow> (cert_error + unit) \<times> cert_store" where
  "write_pair X name cert key st =
     (if map_of (ca_dirs st) name \<noteq> None then (Inl (CaExists name), st)
      else case ca_mkdir_fault st name of
        Some e \<Rightarrow> (Inl (CaCreating name e), st)
      | None \<Rightarrow>
          (case write_ca_files st name cert key of
             (r, e) \<Rightarrow>
               (let st1 = st\<lparr>ca_dirs := ca_dirs st @ [(name, e)]\<rparr> in
                case r of
                  Inl w \<Rightarrow> (Inl (CaWriting w), remove_ca name st1)
                | Inr _ \<Rightarrow>
                    (case load_ca X e of
                       Inl err \<Rightarrow> (Inl err, remove_ca name st1)
                     | Inr _ \<Rightarrow> (Inr (), st1)))))"

definition add_pem :: "cert_lib \<Rightarrow> string \<Rightarrow> string \<Rightarrow> string \<Rightarrow> cert_store \<Rightarrow> (cert_error + unit) \<times> cert_store" where
  "add_pem X name0 cert key st =
     (case clean_name name0 of
        Inl e \<Rightarrow> (Inl e, st)
      | Inr name \<Rightarrow>
          if trim cert = [] \<or> trim key = [] then (Inl PairRequired, st)
          else write_pair X name cert key st)"

definition generate_ca :: "cert_lib \<Rightarrow> string \<Rightarrow> string \<Rightarrow> cert_store \<Rightarrow> (cert_error + string) \<times> cert_store" where
  "generate_ca X name0 common_name st =
     (case clean_name name0 of
        Inl e \<Rightarrow> (Inl e, st)
      | Inr name \<Rightarrow>
          (let cn = (if trim common_name = [] then name @ '' Root CA'' else trim common_name) in
           case lib_generate X cn of
             Inl e \<Rightarrow> (Inl (CaBad e), st)
           | Inr (cert, key) \<Rightarrow>
               (case write_pair X name cert key st of (r, st1) \<Rightarrow> (and_then r (\<lambda>_. Inr cert), st1))))"

definition activate_ca :: "cert_lib \<Rightarrow> string \<Rightarrow> cert_store \<Rightarrow> (cert_error + unit) \<times> cert_store" where
  "activate_ca X name0 st =
     (if name0 = CONFIG_NAME then select_ca X None st
      else case clean_name name0 of
        Inl e \<Rightarrow> (Inl e, st)
      | Inr name \<Rightarrow> if has_pair st name then select_ca X (Some name) st else (Inl (NoSuchCa name), st))"

definition delete_ca :: "cert_lib \<Rightarrow> string \<Rightarrow> cert_store \<Rightarrow> (cert_error + unit) \<times> cert_store" where
  "delete_ca X name0 st =
     (case clean_name name0 of
        Inl e \<Rightarrow> (Inl e, st)
      | Inr name \<Rightarrow>
          if map_of (ca_dirs st) name = None then (Inl (NoSuchCa name), st)
          else case ca_remove_fault st name of
            Some e \<Rightarrow> (Inl (CaRemoving name e), st)
          | None \<Rightarrow>
              (let st1 = remove_ca name st in
               if active_name X st1 = Some name then select_ca X None st1 else (Inr (), st1)))"

section \<open>Reading\<close>

definition read_text :: "content option \<Rightarrow> cert_error + string" where
  "read_text c = (case c of Some (Text t) \<Rightarrow> Inr t | _ \<Rightarrow> Inl CaReading)"

definition active_cert_pem :: "cert_lib \<Rightarrow> cert_store \<Rightarrow> cert_error + string" where
  "active_cert_pem X st = read_text (cd_cert (ca_files st (active_paths X st)))"

definition cert_pem :: "string \<Rightarrow> cert_store \<Rightarrow> cert_error + string" where
  "cert_pem name0 st =
     (if name0 = CONFIG_NAME then read_text (cd_cert (ca_config st))
      else and_then (clean_name name0) (\<lambda>name. read_text (cd_cert (ca_files st (StoredCa name)))))"

record cert_summary =
  cs_name :: string
  cs_source :: string
  cs_active :: bool
  cs_subject :: string
  cs_not_after :: string
  cs_expired :: bool
  cs_readable :: bool

definition summarize :: "cert_lib \<Rightarrow> string \<Rightarrow> string \<Rightarrow> bool \<Rightarrow> content option \<Rightarrow> cert_summary" where
  "summarize X name src chosen cert =
     (case Option.bind (case cert of Some (Text t) \<Rightarrow> Some t | _ \<Rightarrow> None) (lib_info X) of
        Some (subject, not_after, expired) \<Rightarrow>
          \<lparr>cs_name = name, cs_source = src, cs_active = chosen, cs_subject = subject, cs_not_after = not_after,
           cs_expired = expired, cs_readable = True\<rparr>
      | None \<Rightarrow>
          \<lparr>cs_name = name, cs_source = src, cs_active = chosen, cs_subject = ''<not found or unreadable>'', cs_not_after = [],
           cs_expired = False, cs_readable = False\<rparr>)"

definition stored_names :: "cert_store \<Rightarrow> string list" where
  "stored_names st = map fst (filter (\<lambda>(_, e). cd_cert e \<noteq> None) (ca_dirs st))"

definition list_cas :: "cert_lib \<Rightarrow> cert_store \<Rightarrow> cert_summary list" where
  "list_cas X st =
     (let sel = active_name X st in
      summarize X CONFIG_NAME ''config'' (sel = None) (cd_cert (ca_config st)) #
      map (\<lambda>name. summarize X name ''stored'' (sel = Some name) (cd_cert (ca_files st (StoredCa name)))) (sort (stored_names st)))"

section \<open>The admin command\<close>

datatype cert_command = CertAdd string string string | CertGenerate string string | CertActivate string | CertDelete string

text \<open>The body as the derived decoder reads it.\<close>

record cert_raw =
  raw_action :: string
  raw_name :: string
  raw_cert :: string
  raw_key :: string
  raw_common_name :: string

definition parse_cert_command :: "(bytes \<Rightarrow> string + cert_raw) \<Rightarrow> bytes \<Rightarrow> cert_error + cert_command" where
  "parse_cert_command de body =
     and_then (map_err CaRequest (de body)) (\<lambda>raw.
       if raw_action raw = ''add'' then Inr (CertAdd (raw_name raw) (raw_cert raw) (raw_key raw))
       else if raw_action raw = ''generate'' then Inr (CertGenerate (raw_name raw) (raw_common_name raw))
       else if raw_action raw = ''activate'' then Inr (CertActivate (raw_name raw))
       else if raw_action raw = ''delete'' then Inr (CertDelete (raw_name raw))
       else Inl (CaUnknownAction (raw_action raw)))"

fun cert_action :: "cert_command \<Rightarrow> string" where
  "cert_action (CertAdd _ _ _) = ''add''"
| "cert_action (CertGenerate _ _) = ''generate''"
| "cert_action (CertActivate _) = ''activate''"
| "cert_action (CertDelete _) = ''delete''"

fun cert_name :: "cert_command \<Rightarrow> string" where
  "cert_name (CertAdd n _ _) = n"
| "cert_name (CertGenerate n _) = n"
| "cert_name (CertActivate n) = n"
| "cert_name (CertDelete n) = n"

fun run_cert :: "cert_lib \<Rightarrow> cert_command \<Rightarrow> cert_store \<Rightarrow> (cert_error + string option) \<times> cert_store" where
  "run_cert X (CertAdd n c k) st = (case add_pem X n c k st of (r, st') \<Rightarrow> (and_then r (\<lambda>_. Inr None), st'))"
| "run_cert X (CertGenerate n cn) st = (case generate_ca X n cn st of (r, st') \<Rightarrow> (and_then r (\<lambda>pem. Inr (Some pem)), st'))"
| "run_cert X (CertActivate n) st = (case activate_ca X n st of (r, st') \<Rightarrow> (and_then r (\<lambda>_. Inr None), st'))"
| "run_cert X (CertDelete n) st = (case delete_ca X n st of (r, st') \<Rightarrow> (and_then r (\<lambda>_. Inr None), st'))"

definition edit_certs ::
  "cert_lib \<Rightarrow> log_env \<Rightarrow> (bytes \<Rightarrow> string + cert_raw) \<Rightarrow> bytes \<Rightarrow> cert_store \<Rightarrow> shared_state \<Rightarrow>
   (cert_error + string option) \<times> cert_store \<times> shared_state" where
  "edit_certs X L de body st s =
     (case parse_cert_command de body of
        Inl e \<Rightarrow> (Inl e, st, s)
      | Inr c \<Rightarrow>
          (case run_cert X c st of
             (Inl e, st') \<Rightarrow> (Inl e, st', s)
           | (Inr v, st') \<Rightarrow>
               (Inr v, st', log_event (le_codecs L) (le_io_ok L) (le_ms L) (le_trace L) EvInfo
                  (''certificate '' @ cert_action c @ '' '' @ cert_name c) s)))"

section \<open>Names\<close>

lemma clean_name_again: "clean_name n = Inr m \<Longrightarrow> clean_name m = Inr m"
  by (auto simp: clean_name_def Let_def split: if_splits)

text \<open>C40: a name that is accepted is one component of a path: it is not empty, at most 64 bytes, holds no
  separator and does not start with a dot, so that no command reaches outside the folder of CAs; and
  cleaning it again changes nothing.\<close>

theorem clean_name_safe:
  assumes "clean_name n = Inr m"
  shows "m \<noteq> [] \<and> length m \<le> 64 \<and> CHR ''/'' \<notin> set m \<and> CHR 0x5C \<notin> set m \<and> hd m \<noteq> CHR ''.'' \<and> m \<noteq> CONFIG_NAME \<and>
    clean_name m = Inr m"
proof -
  have m: "m = trim n" "m \<noteq> []" "m \<noteq> CONFIG_NAME" "length m \<le> 64" "\<not> starts_with ''.'' m"
    "list_all (\<lambda>c. is_ascii_alphanumeric c \<or> c \<in> {CHR ''-'', CHR ''_'', CHR ''.''}) m"
    using assms by (auto simp: clean_name_def Let_def split: if_splits)
  have "CHR ''/'' \<notin> set m" "CHR 0x5C \<notin> set m" using m(6) by (auto simp: list_all_iff is_ascii_alphanumeric_def is_ascii_digit_def
      is_ascii_upper_def is_ascii_lower_def)
  moreover have "hd m \<noteq> CHR ''.''" using m(2,5) by (cases m) (auto simp: starts_with_iff)
  ultimately show ?thesis using m clean_name_again [OF assms] by simp
qed

theorem clean_name_safe_witness: "clean_name '' lab-1 '' = Inr ''lab-1'' \<and> clean_name ''lab-1'' = Inr ''lab-1''"
proof -
  have "clean_name '' lab-1 '' = Inr ''lab-1''" by code_simp
  then show ?thesis using clean_name_safe by blast
qed

section \<open>What the store holds\<close>

text \<open>Every folder has a clean name and a pair of files that load, as long as removing a folder works.\<close>

definition pair_ok :: "cert_lib \<Rightarrow> ca_dir \<Rightarrow> bool" where
  "pair_ok X e \<longleftrightarrow> load_ca X e = Inr ()"

definition cas_ok :: "cert_lib \<Rightarrow> cert_store \<Rightarrow> bool" where
  "cas_ok X st \<longleftrightarrow> distinct (map fst (ca_dirs st)) \<and> (\<forall>(n, e) \<in> set (ca_dirs st). clean_name n = Inr n \<and> pair_ok X e) \<and>
     pair_ok X (ca_config st) \<and> (\<forall>n. ca_remove_fault st n = None)"

lemma select_ca_frame:
  "ca_dirs (snd (select_ca X sel st)) = ca_dirs st" "ca_config (snd (select_ca X sel st)) = ca_config st"
  "ca_remove_fault (snd (select_ca X sel st)) = ca_remove_fault st" "ca_path (snd (select_ca X sel st)) = ca_path st"
  by (simp_all add: select_ca_def case_prod_beta)

lemma cas_ok_select [simp]: "cas_ok X (snd (select_ca X sel st)) = cas_ok X st"
  by (simp add: cas_ok_def select_ca_frame)

lemma cas_ok_selected: "select_ca X sel st = (r, st') \<Longrightarrow> cas_ok X st \<Longrightarrow> cas_ok X st'"
  using cas_ok_select [of X sel st] by simp

lemma cas_ok_remove: "cas_ok X st \<Longrightarrow> cas_ok X (remove_ca n st)"
  by (auto simp: cas_ok_def remove_ca_def distinct_map_filter split: option.split)

lemma remove_added:
  assumes "map_of (ca_dirs st) n = None" "ca_remove_fault st n = None"
  shows "remove_ca n (st\<lparr>ca_dirs := ca_dirs st @ [(n, e)]\<rparr>) = st"
proof -
  have "filter (\<lambda>(m, _). m \<noteq> n) (ca_dirs st) = ca_dirs st"
    using assms(1) by (force simp: map_of_eq_None_iff intro!: filter_True)
  then show ?thesis using assms(2) by (simp add: remove_ca_def)
qed

text \<open>A pair that is refused leaves nothing behind; one that is kept loads.\<close>

lemma write_pair_cases:
  assumes "write_pair X n c k st = (r, st')" "\<forall>n. ca_remove_fault st n = None"
  shows "(\<exists>e. r = Inl e) \<and> st' = st \<or>
    r = Inr () \<and> map_of (ca_dirs st) n = None \<and> lib_load X c k = Inr () \<and>
      st' = st\<lparr>ca_dirs := ca_dirs st @ [(n, \<lparr>cd_cert = Some (Text c), cd_key = Some (Text k)\<rparr>)]\<rparr>"
  using assms remove_added [of st n]
  by (auto simp: write_pair_def Let_def write_ca_files_def load_ca_def map_err_def split: if_splits option.splits sum.splits prod.splits)

lemma pair_ok_new: "lib_load X c k = Inr () \<Longrightarrow> pair_ok X \<lparr>cd_cert = Some (Text c), cd_key = Some (Text k)\<rparr>"
  by (simp add: pair_ok_def load_ca_def map_err_def)

lemma cas_ok_write:
  assumes "write_pair X n c k st = (r, st')" "cas_ok X st" "clean_name n = Inr n"
  shows "cas_ok X st'"
proof -
  have "\<forall>n. ca_remove_fault st n = None" using assms(2) by (simp add: cas_ok_def)
  from write_pair_cases [OF assms(1) this] show ?thesis
    using assms(2,3) pair_ok_new by (auto simp: cas_ok_def map_of_eq_None_iff)
qed

lemma cas_ok_add: "add_pem X n c k st = (r, st') \<Longrightarrow> cas_ok X st \<Longrightarrow> cas_ok X st'"
  using cas_ok_write clean_name_again by (auto simp: add_pem_def split: sum.splits if_splits)

lemma cas_ok_generate: "generate_ca X n cn st = (r, st') \<Longrightarrow> cas_ok X st \<Longrightarrow> cas_ok X st'"
  using cas_ok_write clean_name_again by (fastforce simp: generate_ca_def Let_def split: sum.splits prod.splits if_splits)

lemma cas_ok_activate: "activate_ca X n st = (r, st') \<Longrightarrow> cas_ok X st \<Longrightarrow> cas_ok X st'"
  by (auto simp: activate_ca_def dest: cas_ok_selected split: sum.splits if_splits)

lemma cas_ok_delete: "delete_ca X n st = (r, st') \<Longrightarrow> cas_ok X st \<Longrightarrow> cas_ok X st'"
proof -
  assume d: "delete_ca X n st = (r, st')" and ok: "cas_ok X st"
  consider "st' = st" | name where "st' = remove_ca name st" | name where "st' = snd (select_ca X None (remove_ca name st))"
    using d by (auto simp: delete_ca_def Let_def split: sum.splits if_splits option.splits) (metis snd_conv)+
  then show "cas_ok X st'" using ok cas_ok_remove by cases simp_all
qed

lemma cas_ok_run: "run_cert X cmd st = (r, st') \<Longrightarrow> cas_ok X st \<Longrightarrow> cas_ok X st'"
  by (cases cmd) (auto split: prod.splits dest: cas_ok_add cas_ok_generate cas_ok_activate cas_ok_delete)

text \<open>Any sequence of commands.\<close>

inductive cert_runs :: "cert_lib \<Rightarrow> cert_store \<Rightarrow> cert_store \<Rightarrow> bool" for X st0 where
  start: "cert_runs X st0 st0"
| command: "cert_runs X st0 st \<Longrightarrow> run_cert X cmd st = (r, st') \<Longrightarrow> cert_runs X st0 st'"

lemma cert_runs_ok: "cert_runs X st0 st \<Longrightarrow> cas_ok X st0 \<Longrightarrow> cas_ok X st"
  by (induction rule: cert_runs.induct) (auto dest: cas_ok_run)

lemma cas_ok_active_loads:
  assumes ok: "cas_ok X st"
  shows "load_ca X (ca_files st (active_paths X st)) = Inr ()"
proof (cases "active_paths X st")
  case ConfigCa
  then show ?thesis using ok by (simp add: cas_ok_def pair_ok_def)
next
  case (StoredCa n)
  then have "has_pair st n" by (auto simp: active_paths_def split: option.splits if_splits)
  then obtain e where "map_of (ca_dirs st) n = Some e" by (auto simp: has_pair_def split: option.splits)
  then show ?thesis using ok StoredCa map_of_SomeD by (fastforce simp: cas_ok_def pair_ok_def)
qed

text \<open>whatever commands are given, with whatever failures of writing, the CA that the next start
  selects loads: a pair that does not is never kept, and a selection whose folder is gone falls
  back to the configured CA. (Removing a folder is assumed to work.)\<close>

theorem active_ca_loads:
  assumes "cert_runs X st0 st" "cas_ok X st0"
  shows "load_ca X (ca_files st (active_paths X st)) = Inr ()"
  by (rule cas_ok_active_loads [OF cert_runs_ok [OF assms]])

definition sample_certs :: cert_lib where
  "sample_certs = \<lparr>lib_load = (\<lambda>c k. if c = k then Inr () else Inl ''mismatch''), lib_generate = (\<lambda>cn. Inr (cn, cn)),
     lib_info = (\<lambda>c. Some (c, ''2030'', False)),
     lib_text = \<lparr>jt_parse = (\<lambda>t. if t = ''lab'' then Some (sel_to_value (Some ''lab'')) else None),
       jt_print = (\<lambda>v. if v = sel_to_value (Some ''lab'') then Inr ''lab'' else Inl ''unprintable'')\<rparr>\<rparr>"

definition sample_cert_store :: cert_store where
  "sample_cert_store = \<lparr>ca_dirs = [], ca_config = \<lparr>cd_cert = Some (Text ''c''), cd_key = Some (Text ''c'')\<rparr>,
     ca_path = (''d'', ''f''), ca_disk = empty_disk, ca_mkdir_fault = (\<lambda>_. None), ca_write_fault = (\<lambda>_ _. None),
     ca_remove_fault = (\<lambda>_. None)\<rparr>"

lemma sample_cas_ok: "cas_ok sample_certs sample_cert_store"
  by (simp add: cas_ok_def sample_certs_def sample_cert_store_def pair_ok_def load_ca_def map_err_def)

theorem active_ca_loads_witness:
  "let st = snd (run_cert sample_certs (CertAdd ''lab'' ''x'' ''y'') sample_cert_store)
   in load_ca sample_certs (ca_files st (active_paths sample_certs st)) = Inr ()"
proof -
  have "cert_runs sample_certs sample_cert_store (snd (run_cert sample_certs (CertAdd ''lab'' ''x'' ''y'') sample_cert_store))"
    by (rule cert_runs.command [OF cert_runs.start prod.collapse [symmetric]])
  from active_ca_loads [OF this sample_cas_ok] show ?thesis unfolding Let_def .
qed

section \<open>Adding, choosing and deleting\<close>

lemma select_ca_active:
  assumes "json_text_ok (lib_text X)" "ca_path st \<noteq> no_path" "select_ca X sel st = (Inr (), st')"
  shows "active_name X st' = sel"
proof -
  obtain d where d: "store_save (lib_text X) sel_to_value (ca_path st) sel (ca_disk st) = (Inr (), d)" "st' = st\<lparr>ca_disk := d\<rparr>"
    using assms(3) by (auto simp: select_ca_def map_err_def split: prod.splits sum.splits)
  have "Option.bind (store_read (ca_path st) d) (jt_parse (lib_text X)) =
      Some (json_merge (store_raw (lib_text X) (ca_path st) (ca_disk st)) (sel_to_value sel))"
    using store_write_reads [OF d(1) [unfolded store_save_def] assms(2)] assms(1) by (auto simp: json_text_ok_def)
  then show ?thesis using selection.of_merge_own by (simp add: active_name_def store_load_def d(2))
qed

lemma run_cert_Inr:
  "run_cert X (CertAdd n c k) st = (Inr v, st') \<Longrightarrow> add_pem X n c k st = (Inr (), st')"
  "run_cert X (CertActivate n) st = (Inr v, st') \<Longrightarrow> activate_ca X n st = (Inr (), st')"
  "run_cert X (CertDelete n) st = (Inr v, st') \<Longrightarrow> delete_ca X n st = (Inr (), st')"
  by (auto simp: and_then_Inr split: prod.splits)

text \<open>C39: a pair that was added and chosen is what the next start loads and what is offered for download;
  once it is deleted, the next start loads the configured CA again.\<close>

theorem chosen_ca_serves:
  assumes "json_text_ok (lib_text X)" "ca_path st \<noteq> no_path" "cas_ok X st"
    and "run_cert X (CertAdd n c k) st = (Inr v, st1)" "run_cert X (CertActivate n) st1 = (Inr v', st2)"
  shows "ca_files st2 (active_paths X st2) = \<lparr>cd_cert = Some (Text c), cd_key = Some (Text k)\<rparr> \<and>
    active_cert_pem X st2 = Inr c \<and>
    (\<forall>w st3. run_cert X (CertDelete n) st2 = (Inr w, st3) \<longrightarrow> active_paths X st3 = ConfigCa)"
proof -
  note add = run_cert_Inr(1) [OF assms(4)] and act = run_cert_Inr(2) [OF assms(5)]
  obtain m where m: "clean_name n = Inr m" "write_pair X m c k st = (Inr (), st1)"
    using add by (auto simp: add_pem_def split: sum.splits if_splits)
  have rm: "\<forall>n. ca_remove_fault st n = None" using assms(3) by (simp add: cas_ok_def)
  have st1: "st1 = st\<lparr>ca_dirs := ca_dirs st @ [(m, \<lparr>cd_cert = Some (Text c), cd_key = Some (Text k)\<rparr>)]\<rparr>" "map_of (ca_dirs st) m = None"
    using write_pair_cases [OF m(2) rm] by auto
  have "clean_name CONFIG_NAME = Inl NameReserved" by code_simp
  then have "n \<noteq> CONFIG_NAME" using m(1) by auto
  then have sel: "select_ca X (Some m) st1 = (Inr (), st2)"
    using act m(1) by (auto simp: activate_ca_def split: if_splits)
  have nm: "active_name X st2 = Some m" using select_ca_active [OF assms(1) _ sel] assms(2) st1 by simp
  have dirs: "map_of (ca_dirs st2) m = Some \<lparr>cd_cert = Some (Text c), cd_key = Some (Text k)\<rparr>" "ca_path st2 = ca_path st"
    using select_ca_frame [of X "Some m" st1] sel st1 by (auto simp: map_add_def)
  have "active_paths X st2 = StoredCa m" using nm dirs by (simp add: active_paths_def has_pair_def)
  moreover have "active_paths X st3 = ConfigCa" if d: "run_cert X (CertDelete n) st2 = (Inr w, st3)" for w st3
  proof -
    have "active_name X (remove_ca m st2) = Some m" using nm by (simp add: active_name_def remove_ca_def split: option.split)
    then have "select_ca X None (remove_ca m st2) = (Inr (), st3)"
      using run_cert_Inr(3) [OF d] m(1) dirs by (auto simp: delete_ca_def Let_def split: option.splits)
    moreover have "ca_path (remove_ca m st2) \<noteq> no_path" using assms(2) dirs by (simp add: remove_ca_def split: option.split)
    ultimately have "active_name X st3 = None" by (intro select_ca_active [OF assms(1)])
    then show ?thesis by (simp add: active_paths_def)
  qed
  ultimately show ?thesis using dirs by (simp add: active_cert_pem_def read_text_def)
qed

theorem chosen_ca_serves_witness:
  "let st2 = snd (run_cert sample_certs (CertActivate ''lab'') (snd (run_cert sample_certs (CertAdd ''lab'' ''x'' ''x'') sample_cert_store)))
   in active_cert_pem sample_certs st2 = Inr ''x''"
proof -
  let ?r1 = "run_cert sample_certs (CertAdd ''lab'' ''x'' ''x'') sample_cert_store"
  let ?r2 = "run_cert sample_certs (CertActivate ''lab'') (snd ?r1)"
  have j: "json_text_ok (lib_text sample_certs)"
    by (auto simp: json_text_ok_def sample_certs_def sel_to_value_def split: if_splits)
  have p: "ca_path sample_cert_store \<noteq> no_path" by (simp add: sample_cert_store_def)
  have "fst ?r1 = Inr None" "fst ?r2 = Inr None" by code_simp+
  then have r: "?r1 = (Inr None, snd ?r1)" "?r2 = (Inr None, snd ?r2)" by (metis prod.collapse)+
  from chosen_ca_serves [OF j p sample_cas_ok r] show ?thesis unfolding Let_def by blast
qed

end
