(* ===== verification/Web_Query.thy ===== *)
theory Web_Query
  imports Proxy_Certs Stats_Capture
begin

text \<open>
  The read side of the admin server: query strings (\<open>web/respond.rs\<close>), the pages and details of the logs
  (\<open>web/logs.rs\<close>) and the download of a certificate (\<open>web/certs.rs\<close>). The replacement of bytes that are
  not UTF-8 and the check for a header value are parameters. A reply is the value it renders; the JSON
  text is not modelled.
\<close>

section \<open>Query strings\<close>

definition query_pair :: "string \<Rightarrow> string \<Rightarrow> string option" where
  "query_pair key kv = (case split_once CHR ''='' kv of Some (k, v) \<Rightarrow> if k = key then Some v else None | None \<Rightarrow> None)"

definition parse_query :: "string \<Rightarrow> string \<Rightarrow> string option" where
  "parse_query query key =
     (case List.map_filter (query_pair key) (split CHR ''&'' query) of v # _ \<Rightarrow> Some v | [] \<Rightarrow> None)"

fun percent_bytes :: "string \<Rightarrow> string" where
  "percent_bytes [] = []"
| "percent_bytes (c # s) =
     (if c = CHR ''+'' then CHR '' '' # percent_bytes s
      else if c = CHR ''%'' then
        (case s of
           h # l # rest \<Rightarrow>
             (case (to_digit 16 h, to_digit 16 l) of
                (Some a, Some b) \<Rightarrow> char_of (a * 16 + b) # percent_bytes rest
              | _ \<Rightarrow> CHR ''%'' # percent_bytes s)
         | _ \<Rightarrow> CHR ''%'' # percent_bytes s)
      else c # percent_bytes s)"

definition percent_decode :: "(string \<Rightarrow> string) \<Rightarrow> string \<Rightarrow> string" where
  "percent_decode lossy s = lossy (percent_bytes s)"

section \<open>Logs\<close>

definition DEFAULT_PAGE :: nat where "DEFAULT_PAGE = 100"
definition MAX_PAGE :: nat where "MAX_PAGE = 500"

definition cursor :: "string \<Rightarrow> u64 option" where
  "cursor query = Option.bind (parse_query query ''before'') parse_u64"

definition page_size :: "string \<Rightarrow> nat" where
  "page_size query =
     max 1 (min MAX_PAGE (unwrap_or (Option.bind (parse_query query ''limit'') (parse_uint 18446744073709551615)) DEFAULT_PAGE))"

text \<open>The records of a page and whether the client stops paging.\<close>

definition requests_page :: "codecs \<Rightarrow> string \<Rightarrow> shared_state \<Rightarrow> request_record list \<times> bool" where
  "requests_page K query s =
     (let limit = page_size query; records = request_page K (cursor query) limit s in (records, length records < limit))"

definition queries_page :: "codecs \<Rightarrow> string \<Rightarrow> shared_state \<Rightarrow> dns_record list \<times> bool" where
  "queries_page K query s =
     (let limit = page_size query; records = query_page K (cursor query) limit s in (records, length records < limit))"

definition seq_of_query :: "string \<Rightarrow> u64 option" where
  "seq_of_query query = Option.bind (parse_query query ''seq'') parse_u64"

text \<open>\<open>None\<close> is the answer to a request without a number.\<close>

definition detail_reply :: "codecs \<Rightarrow> string \<Rightarrow> shared_state \<Rightarrow> request_detail option" where
  "detail_reply K query s = map_option (\<lambda>sq. request_detail_of K sq s) (seq_of_query query)"

definition body_decode_reply :: "codecs \<Rightarrow> body_codec \<Rightarrow> decoders \<Rightarrow> string \<Rightarrow> shared_state \<Rightarrow> body_decode option" where
  "body_decode_reply K B D query s =
     map_option (\<lambda>sq. decode_captured_body K B D sq (unwrap_or (parse_query query ''slot'') []) s) (seq_of_query query)"

fun body_status :: "body_decode option \<Rightarrow> nat" where
  "body_status None = 400"
| "body_status (Some (DecText _)) = 200"
| "body_status (Some (DecBinary _)) = 200"
| "body_status (Some NoData) = 404"
| "body_status (Some UnknownSlot) = 400"

section \<open>Certificates\<close>

text \<open>The file with its name, an error, or the panic of building a response with an invalid header.\<close>

datatype cert_reply = CertFile string string | CertError cert_error | CertPanic

definition cert_download :: "(string \<Rightarrow> string) \<Rightarrow> (string \<Rightarrow> bool) \<Rightarrow> cert_lib \<Rightarrow> string \<Rightarrow> cert_store \<Rightarrow> cert_reply" where
  "cert_download lossy header_ok X query st =
     (let (pem, filename) =
        (case map_option (percent_decode lossy) (parse_query query ''name'') of
           None \<Rightarrow> (active_cert_pem X st, ''proxy-ca.pem'')
         | Some n \<Rightarrow> if n = [] then (active_cert_pem X st, ''proxy-ca.pem'') else (cert_pem n st, n @ ''.pem''))
      in case pem of
           Inl e \<Rightarrow> CertError e
         | Inr t \<Rightarrow>
             if header_ok (''attachment; filename='' @ [CHR 0x22] @ filename @ [CHR 0x22]) then CertFile t filename else CertPanic)"

section \<open>Encoding and decoding\<close>

text \<open>What the dashboard sends: \<open>encodeURIComponent\<close>.\<close>

definition hex_upper :: "nat \<Rightarrow> char" where
  "hex_upper d = (if d < 10 then char_of (48 + d) else char_of (55 + d))"

definition uri_plain :: "char \<Rightarrow> bool" where
  "uri_plain c \<longleftrightarrow> is_ascii_alphanumeric c \<or> c \<in> set [CHR ''-'', CHR ''_'', CHR ''.'', CHR ''!'', CHR ''~'', CHR ''*'', CHR 0x27, CHR ''('', CHR '')'']"

definition percent_encode :: "string \<Rightarrow> string" where
  "percent_encode s =
     concat (map (\<lambda>c. if uri_plain c then [c] else [CHR ''%'', hex_upper (code c div 16), hex_upper (code c mod 16)]) s)"

lemma hex_upper_digit: "d < 16 \<Longrightarrow> to_digit 16 (hex_upper d) = Some d"
  by (auto simp: hex_upper_def to_digit_def is_ascii_digit_def is_ascii_lower_def is_ascii_upper_def)

lemma hex_upper_plain: "d < 16 \<Longrightarrow> hex_upper d \<notin> {CHR ''&'', CHR ''='', CHR ''+''}"
  by (auto simp: hex_upper_def dest: arg_cong [of _ _ code])

lemma percent_round: "percent_bytes (percent_encode s) = s"
proof (induction s)
  case (Cons c s)
  have "\<not> uri_plain CHR ''+''" "\<not> uri_plain CHR ''%''" by code_simp+
  then have p: "uri_plain c \<Longrightarrow> c \<noteq> CHR ''+'' \<and> c \<noteq> CHR ''%''" by auto
  have "code c < 256" by simp
  then have "code c div 16 < 16" "code c mod 16 < 16" by (simp_all add: less_mult_imp_div_less)
  moreover have "char_of (code c div 16 * 16 + code c mod 16) = c" by simp
  ultimately show ?case using Cons p by (auto simp: percent_encode_def hex_upper_digit)
qed (simp add: percent_encode_def)

lemma percent_encode_safe: "CHR ''&'' \<notin> set (percent_encode s)"
proof (induction s)
  case (Cons c s)
  have "\<not> uri_plain CHR ''&''" by code_simp
  moreover have "code c < 256" by simp
  then have "code c div 16 < 16" "code c mod 16 < 16" by (simp_all add: less_mult_imp_div_less)
  ultimately show ?case using Cons hex_upper_plain [of "code c div 16"] hex_upper_plain [of "code c mod 16"]
    by (auto simp: percent_encode_def)
qed (simp add: percent_encode_def)

lemma query_value:
  assumes "CHR ''&'' \<notin> set key" "CHR ''='' \<notin> set key" "lossy s = s"
  shows "map_option (percent_decode lossy) (parse_query (key @ ''='' @ percent_encode s) key) = Some s"
proof -
  have "split CHR ''&'' (key @ ''='' @ percent_encode s) = [key @ ''='' @ percent_encode s]"
    using assms(1) percent_encode_safe by (intro split_no_sep) auto
  moreover have "query_pair key (key @ ''='' @ percent_encode s) = Some (percent_encode s)"
    using assms(2) by (simp add: query_pair_def)
  ultimately have "parse_query (key @ ''='' @ percent_encode s) key = Some (percent_encode s)"
    by (simp add: parse_query_def List.map_filter_simps)
  then show ?thesis using assms(3) by (simp add: percent_decode_def percent_round)
qed

text \<open>C18: a name sent by the dashboard, percent-encoded as a query parameter, arrives unchanged, whatever it
  contains.\<close>

theorem query_name_roundtrip:
  assumes "CHR ''&'' \<notin> set key" "CHR ''='' \<notin> set key" "lossy s = s"
  shows "map_option (percent_decode lossy) (parse_query (key @ ''='' @ percent_encode s) key) = Some s"
  by (rule query_value) (rule assms)+

theorem query_name_roundtrip_witness:
  "map_option (percent_decode (\<lambda>s. s)) (parse_query (''name='' @ percent_encode ''a&b=c%+ d'') ''name'') = Some ''a&b=c%+ d''"
  using query_name_roundtrip [of "''name''" "\<lambda>s. s" "''a&b=c%+ d''"] by simp

text \<open>a page has between one and 500 rows; when the reader is told to stop and every numbered row of the log
  decodes, the page holds all the rows below the cursor.\<close>

theorem page_end_reached:
  assumes "requests_page K query s = (records, stop)" "request_log s = Some g"
    and "\<forall>l \<in> set (newest_first g). line_seq K l \<noteq> None \<longrightarrow> dec_request K l \<noteq> None"
  shows "length records \<le> 500 \<and> 1 \<le> page_size query \<and>
    (stop \<longrightarrow> records = List.map_filter (dec_request K) (filter (row_below (line_seq K) (cursor query)) (newest_first g)))"
proof -
  let ?rows = "filter (row_below (line_seq K) (cursor query)) (newest_first g)"
  have r: "records = List.map_filter (dec_request K) (take (page_size query) ?rows)" "stop = (length records < page_size query)"
    using assms(1,2) by (auto simp: requests_page_def Let_def request_page_def page_eq)
  have "\<forall>l \<in> set ?rows. dec_request K l \<noteq> None"
    using assms(3) by (auto simp: row_below_def split: option.splits)
  then have "\<forall>l \<in> set (take (page_size query) ?rows). dec_request K l \<noteq> None" using in_set_takeD by fast
  then have len: "length records = min (length ?rows) (page_size query)"
    unfolding r(1) List.map_filter_def by (simp add: o_def)
  have "1 \<le> page_size query" "page_size query \<le> 500" by (auto simp: page_size_def MAX_PAGE_def)
  moreover have "stop \<Longrightarrow> take (page_size query) ?rows = ?rows" using len r(2) by simp
  ultimately show ?thesis using len r(1) by auto
qed

definition row_codecs :: codecs where
  "row_codecs = (capture_codecs (empty_detail 1))\<lparr>dec_request := (\<lambda>_. ex_captures capture_exchange)\<rparr>"

definition row_state :: shared_state where
  "row_state = capture_state\<lparr>request_log := Some (capture_log\<lparr>cur_text := ''row'' @ [CHR 0x0A]\<rparr>)\<rparr>"

theorem page_end_reached_witness:
  "snd (requests_page row_codecs ''limit=5'' row_state) \<and>
   fst (requests_page row_codecs ''limit=5'' row_state) = List.map_filter (dec_request row_codecs)
     (filter (row_below (line_seq row_codecs) (cursor ''limit=5'')) (newest_first (capture_log\<lparr>cur_text := ''row'' @ [CHR 0x0A]\<rparr>)))"
proof -
  let ?p = "requests_page row_codecs ''limit=5'' row_state"
  have d: "dec_request row_codecs l \<noteq> None" for l
  proof -
    have "ex_captures capture_exchange \<noteq> None" by code_simp
    then show ?thesis by (simp add: row_codecs_def)
  qed
  have "?p = (fst ?p, snd ?p)" "request_log row_state = Some (capture_log\<lparr>cur_text := ''row'' @ [CHR 0x0A]\<rparr>)"
    by (simp_all add: row_state_def)
  note e = page_end_reached [OF this]
  have "snd ?p" by code_simp
  then show ?thesis using e d by blast
qed

text \<open>C17: a certificate asked for under its name with a newline around it makes the handler panic: the
  store trims the name, the header takes it as it came.\<close>

theorem cert_download_panics:
  assumes "lossy ([CHR 0x0A] @ n) = [CHR 0x0A] @ n" "\<forall>v. CHR 0x0A \<in> set v \<longrightarrow> \<not> header_ok v"
    and "clean_name ([CHR 0x0A] @ n) = Inr m" "cert_pem m st = Inr pem"
  shows "cert_download lossy header_ok X (''name='' @ percent_encode ([CHR 0x0A] @ n)) st = CertPanic"
proof -
  have q: "map_option (percent_decode lossy) (parse_query (''name='' @ percent_encode ([CHR 0x0A] @ n)) ''name'') = Some ([CHR 0x0A] @ n)"
    using query_value [of "''name''" lossy "[CHR 0x0A] @ n"] assms(1) by simp
  have "[CHR 0x0A] @ n \<noteq> CONFIG_NAME" by (simp add: CONFIG_NAME_def)
  moreover have "m \<noteq> CONFIG_NAME" using assms(3) by (auto simp: clean_name_def Let_def split: if_splits)
  ultimately have c: "cert_pem ([CHR 0x0A] @ n) st = Inr pem"
    using assms(3,4) clean_name_again [OF assms(3)] by (simp add: cert_pem_def)
  show ?thesis unfolding cert_download_def q using assms(2) c by simp
qed

definition visible :: "string \<Rightarrow> bool" where
  "visible v = list_all (\<lambda>c. 32 \<le> code c) v"

theorem cert_download_panics_witness:
  "cert_download (\<lambda>s. s) visible sample_certs (''name='' @ percent_encode ([CHR 0x0A] @ ''lab''))
     (snd (run_cert sample_certs (CertAdd ''lab'' ''x'' ''x'') sample_cert_store)) = CertPanic"
proof -
  have v: "\<forall>v. CHR 0x0A \<in> set v \<longrightarrow> \<not> visible v" by (auto simp: visible_def list_all_iff intro!: bexI [of _ "CHR 0x0A"])
  have n: "clean_name ([CHR 0x0A] @ ''lab'') = Inr ''lab''" by code_simp
  have p: "cert_pem ''lab'' (snd (run_cert sample_certs (CertAdd ''lab'' ''x'' ''x'') sample_cert_store)) = Inr ''x''" by code_simp
  show ?thesis by (rule cert_download_panics) (use v n p in simp_all)
qed

end
