(* ===== verification/Adblock_Admin.thy ===== *)
theory Adblock_Admin
  imports Adblock_Curation Adblock_Decide Dns_Control Proxy_Route
begin

text \<open>
  What reaches the ad blocker from outside: the parsers of its admin commands (\<open>adblock/commands.rs\<close>),
  downloads (\<open>adblock/fetch.rs\<close>), the installation of downloaded lists and the periodic update
  (\<open>adblock/maintenance.rs\<close>, \<open>adblock/updater.rs\<close>), and the admin handler for lists
  (\<open>web/blocklists.rs\<close>). One HTTP exchange of a download, the JSON parser, and the converter of the scriptlet
  sources with its file are parameters.
\<close>

section \<open>Commands\<close>

datatype blocklist_command =
    BlDelete string
  | BlSetEnabled string bool
  | BlAddUrl string
  | BlApply "string option" string rules_update

datatype blocklist_error = BlBadJson string | BlDeleteName | BlEnableName | BlExpected

definition named :: "json \<Rightarrow> string option" where
  "named v = Option.bind (get_str ''name'' v) (\<lambda>n. if trim n \<noteq> [] then Some n else None)"

definition parse_blocklist_command :: "(bytes \<Rightarrow> string + json) \<Rightarrow> bytes \<Rightarrow> blocklist_error + blocklist_command" where
  "parse_blocklist_command parse_json body =
     and_then (map_err BlBadJson (parse_json body)) (\<lambda>v.
       if get_bool ''delete'' v = Some True then ok_or (map_option BlDelete (named v)) BlDeleteName
       else case get_bool ''enabled'' v of
         Some enabled \<Rightarrow> ok_or (map_option (\<lambda>n. BlSetEnabled n enabled) (named v)) BlEnableName
       | None \<Rightarrow>
           (case get_str ''url'' v of
              Some url \<Rightarrow> Inr (BlAddUrl (trim url))
            | None \<Rightarrow>
                (case get_str ''rules'' v of
                   None \<Rightarrow> Inl BlExpected
                 | Some rules \<Rightarrow>
                     Inr (BlApply (get_str ''name'' v) rules
                       (if get_bool ''replace'' v = Some True then ReplaceRules else AppendRules)))))"

definition normalize_test_url :: "string \<Rightarrow> string" where
  "normalize_test_url input =
     (let s = trim input in
      if starts_with ''http://'' s \<or> starts_with ''https://'' s then s
      else case strip_prefix ''//'' s of
        Some rest \<Rightarrow> ''https://'' @ rest
      | None \<Rightarrow> if starts_with ''/'' s then ''https://any-host.invalid'' @ s else ''https://'' @ s)"

record rule_test =
  rt_url :: string
  rt_type :: string
  rt_source :: string

datatype query_error = QueryBadJson string | MissingUrl | MissingDomain

definition parse_rule_test :: "(bytes \<Rightarrow> string + json) \<Rightarrow> bytes \<Rightarrow> query_error + rule_test" where
  "parse_rule_test parse_json body =
     and_then (map_err QueryBadJson (parse_json body)) (\<lambda>v.
       case get_str ''url'' v of
         Some u \<Rightarrow>
           if trim u \<noteq> [] then
             Inr \<lparr>rt_url = normalize_test_url u, rt_type = unwrap_or (get_str ''type'' v) ''other'',
                  rt_source = unwrap_or (get_str ''source'' v) []\<rparr>
           else Inl MissingUrl
       | None \<Rightarrow> Inl MissingUrl)"

record cosmetic_query =
  cq_url :: string
  cq_classes :: "string list"
  cq_ids :: "string list"

definition MAX_COSMETIC_NAMES :: nat where "MAX_COSMETIC_NAMES = 1000"

definition query_names :: "string \<Rightarrow> json \<Rightarrow> string list" where
  "query_names k v =
     (case Option.bind (jget k v) as_array of
        Some a \<Rightarrow> take MAX_COSMETIC_NAMES (filter (\<lambda>s. s \<noteq> []) (List.map_filter as_str a))
      | None \<Rightarrow> [])"

definition parse_cosmetic_query :: "(bytes \<Rightarrow> string + json) \<Rightarrow> bytes \<Rightarrow> query_error + cosmetic_query" where
  "parse_cosmetic_query parse_json body =
     and_then (map_err QueryBadJson (parse_json body)) (\<lambda>v.
       case get_str ''url'' v of
         Some u \<Rightarrow>
           if trim u \<noteq> [] then Inr \<lparr>cq_url = trim u, cq_classes = query_names ''classes'' v, cq_ids = query_names ''ids'' v\<rparr>
           else Inl MissingUrl
       | None \<Rightarrow> Inl MissingUrl)"

definition parse_dns_rule_test :: "(bytes \<Rightarrow> string + json) \<Rightarrow> bytes \<Rightarrow> query_error + string" where
  "parse_dns_rule_test parse_json body =
     and_then (map_err QueryBadJson (parse_json body)) (\<lambda>v.
       let domain = unwrap_or (map_option (\<lambda>d. to_ascii_lowercase (trim_end_matches CHR ''.'' (trim d))) (get_str ''domain'' v)) []
       in if domain = [] then Inl MissingDomain else Inr domain)"

section \<open>Downloads\<close>

text \<open>One exchange: the status, the location header when it is readable, and the body when it could be
  read. \<open>get\<close> is \<open>HttpClient::get\<close>, which connects, sends and receives; the network is its state.\<close>

record fetched =
  ft_status :: nat
  ft_location :: "string option"
  ft_body :: "string + string"

datatype fetch_error =
    BadTarget target_error
  | GetFailed string u16 string
  | NoLocation
  | HttpStatus nat
  | BodyFailed string
  | TooLarge nat
  | TooManyRedirects
  | NotUtf8

definition MAX_REDIRECTS :: nat where "MAX_REDIRECTS = 5"

definition redirect_to :: "http_target \<Rightarrow> string \<Rightarrow> string" where
  "redirect_to t loc = (if starts_with ''http'' loc then loc else tg_scheme t @ ''://'' @ tg_host t @ loc)"

text \<open>The loop; the number is how many turns are left.\<close>

fun fetch_loop ::
  "'u uri_ops \<Rightarrow> (http_target \<Rightarrow> 'n \<Rightarrow> (string + fetched) \<times> 'n) \<Rightarrow> nat \<Rightarrow> nat \<Rightarrow> string \<Rightarrow> 'n \<Rightarrow> (fetch_error + string) \<times> 'n" where
  "fetch_loop U get max_bytes 0 url s = (Inl TooManyRedirects, s)"
| "fetch_loop U get max_bytes (Suc n) url s =
     (case parse_target U url of
        Inl e \<Rightarrow> (Inl (BadTarget e), s)
      | Inr t \<Rightarrow>
          (case get t s of
             (Inl e, s1) \<Rightarrow> (Inl (GetFailed (tg_host t) (tg_port t) e), s1)
           | (Inr r, s1) \<Rightarrow>
               if 300 \<le> ft_status r \<and> ft_status r < 400 then
                 (case ft_location r of
                    None \<Rightarrow> (Inl NoLocation, s1)
                  | Some loc \<Rightarrow> fetch_loop U get max_bytes n (redirect_to t loc) s1)
               else if \<not> (200 \<le> ft_status r \<and> ft_status r < 300) then (Inl (HttpStatus (ft_status r)), s1)
               else (case ft_body r of
                       Inl e \<Rightarrow> (Inl (BodyFailed e), s1)
                     | Inr b \<Rightarrow> if max_bytes < length b then (Inl (TooLarge max_bytes), s1) else (Inr b, s1))))"

definition get_bytes ::
  "'u uri_ops \<Rightarrow> (http_target \<Rightarrow> 'n \<Rightarrow> (string + fetched) \<times> 'n) \<Rightarrow> string \<Rightarrow> nat \<Rightarrow> 'n \<Rightarrow> (fetch_error + string) \<times> 'n" where
  "get_bytes U get url max_bytes s = fetch_loop U get max_bytes (Suc MAX_REDIRECTS) url s"

definition LIST_MAX_BYTES :: nat where "LIST_MAX_BYTES = 20 * 1024 * 1024"

text \<open>\<open>utf8\<close> says whether bytes are UTF-8.\<close>

definition get_text ::
  "'u uri_ops \<Rightarrow> (http_target \<Rightarrow> 'n \<Rightarrow> (string + fetched) \<times> 'n) \<Rightarrow> (string \<Rightarrow> bool) \<Rightarrow> string \<Rightarrow> 'n \<Rightarrow> (fetch_error + string) \<times> 'n" where
  "get_text U get utf8 url s =
     (case get_bytes U get url LIST_MAX_BYTES s of
        (r, s1) \<Rightarrow> (and_then r (\<lambda>b. if utf8 b then Inr b else Inl NotUtf8), s1))"

section \<open>Installing and updating lists\<close>

text \<open>What the admin and the updater share: the lists, the statistics with the event log, and the network.\<close>

record ('e, 'r, 's, 'n) list_admin =
  la_cur :: "('e, 'r, 's) curation"
  la_state :: shared_state
  la_net :: 'n

definition list_event :: "log_env \<Rightarrow> event_kind \<Rightarrow> string \<Rightarrow> ('e, 'r, 's, 'n) list_admin \<Rightarrow> ('e, 'r, 's, 'n) list_admin" where
  "list_event L kind msg w =
     w\<lparr>la_state := log_event (le_codecs L) (le_io_ok L) (le_ms L) (le_trace L) kind msg (la_state w)\<rparr>"

definition event_list_change :: "log_env \<Rightarrow> list_entry \<Rightarrow> string \<Rightarrow> ('e, 'r, 's, 'n) list_admin \<Rightarrow> ('e, 'r, 's, 'n) list_admin" where
  "event_list_change L entry verb =
     list_event L EvInfo
       (''blocklist '' @ verb @ '': '' @ le_name entry @ '' ('' @ show_nat (le_rules entry) @ '' rules) from '' @ le_source entry)"

definition event_scriptlets :: "log_env \<Rightarrow> nat \<Rightarrow> string \<Rightarrow> ('e, 'r, 's, 'n) list_admin \<Rightarrow> ('e, 'r, 's, 'n) list_admin" where
  "event_scriptlets L n verb = list_event L EvInfo (''scriptlet library '' @ verb @ '': '' @ show_nat n @ '' resources'')"

text \<open>The variant \<open>Internal\<close>, a panic of the blocking task, does not arise: the operations of the lists are
  total.\<close>

datatype 'f refresh_error = FetchFailed string 'f | InstallFailed curation_error

text \<open>\<open>fetch_text\<close> is the \<open>Downloader\<close>; with the HTTP client it is \<open>get_text\<close>.\<close>

definition install_from_url ::
  "(string \<Rightarrow> string) \<Rightarrow> ('e, 'r) engine_ops \<Rightarrow> 's store_ops \<Rightarrow> log_env \<Rightarrow> (string \<Rightarrow> 'n \<Rightarrow> ('f + string) \<times> 'n) \<Rightarrow> string \<Rightarrow> string \<Rightarrow>
   ('e, 'r, 's, 'n) list_admin \<Rightarrow> ('f refresh_error + list_entry) \<times> ('e, 'r, 's, 'n) list_admin" where
  "install_from_url uni E S L fetch_text given verb w =
     (let url = normalize_list_url given in
      case fetch_text url (la_net w) of
        (Inl e, n) \<Rightarrow> (Inl (FetchFailed url e), w\<lparr>la_net := n\<rparr>)
      | (Inr txt, n) \<Rightarrow>
          (case install_downloaded uni E S given url txt (la_cur w) of
             (Inl e, c) \<Rightarrow> (Inl (InstallFailed e), w\<lparr>la_net := n, la_cur := c\<rparr>)
           | (Inr entry, c) \<Rightarrow> (Inr entry, event_list_change L entry verb (w\<lparr>la_net := n, la_cur := c\<rparr>))))"

text \<open>The scriptlet library: \<open>sr_source\<close> is \<open>ScriptletSource::fetch\<close>, \<open>sr_write\<close> the error of writing the file,
  \<open>sr_load\<close> what reading it back gives, \<open>sr_age\<close> its age when it can be told.\<close>

record 'r scriptlet_refresh =
  sr_path :: string
  sr_source :: "string + bytes"
  sr_write :: "string option"
  sr_load :: "string + 'r list"
  sr_age :: "duration option"

definition file_stale :: "'r scriptlet_refresh \<Rightarrow> duration \<Rightarrow> bool" where
  "file_stale R max_age \<longleftrightarrow> sr_path R \<noteq> [] \<and> (case sr_age R of Some age \<Rightarrow> max_age < age | None \<Rightarrow> False)"

datatype scriptlet_error =
    NotConfigured | SourceFailed string | TooSmall nat | FileWrite string string | ReloadFailed curation_error

definition refresh_scriptlets ::
  "('e, 'r) engine_ops \<Rightarrow> 's store_ops \<Rightarrow> 'r scriptlet_refresh \<Rightarrow> ('e, 'r, 's) curation \<Rightarrow>
   (scriptlet_error + nat) \<times> ('e, 'r, 's) curation" where
  "refresh_scriptlets E S R c =
     (if sr_path R = [] then (Inl NotConfigured, c)
      else case sr_source R of
        Inl e \<Rightarrow> (Inl (SourceFailed e), c)
      | Inr b \<Rightarrow>
          if length b < 10000 then (Inl (TooSmall (length b)), c)
          else case sr_write R of
            Some e \<Rightarrow> (Inl (FileWrite (sr_path R) e), c)
          | None \<Rightarrow> (case reload_resources E S (sr_load R) c of (r, c') \<Rightarrow> (map_err ReloadFailed r, c')))"

text \<open>One turn of the updater: the stale lists, as they were when the turn began, then the scriptlets.
  \<open>shw\<close> and \<open>shs\<close> print the errors.\<close>

definition update_one ::
  "(string \<Rightarrow> string) \<Rightarrow> ('e, 'r) engine_ops \<Rightarrow> 's store_ops \<Rightarrow> log_env \<Rightarrow> (string \<Rightarrow> 'n \<Rightarrow> ('f + string) \<times> 'n) \<Rightarrow>
   ('f refresh_error \<Rightarrow> string) \<Rightarrow> string \<times> string \<Rightarrow> ('e, 'r, 's, 'n) list_admin \<Rightarrow> ('e, 'r, 's, 'n) list_admin" where
  "update_one uni E S L fetch_text shw nu w =
     (case install_from_url uni E S L fetch_text (snd nu) ''auto-updated'' w of
        (Inr _, w') \<Rightarrow> w'
      | (Inl e, w') \<Rightarrow> list_event L EvError (''blocklist auto-update '' @ fst nu @ '': '' @ shw e) w')"

definition update_scriptlets_turn ::
  "('e, 'r) engine_ops \<Rightarrow> 's store_ops \<Rightarrow> log_env \<Rightarrow> (scriptlet_error \<Rightarrow> string) \<Rightarrow> 'r scriptlet_refresh \<Rightarrow> duration \<Rightarrow>
   ('e, 'r, 's, 'n) list_admin \<Rightarrow> ('e, 'r, 's, 'n) list_admin" where
  "update_scriptlets_turn E S L shs R max_age w =
     (if \<not> file_stale R max_age then w
      else case refresh_scriptlets E S R (la_cur w) of
        (Inr n, c) \<Rightarrow> event_scriptlets L n ''auto-updated from uBO master'' (w\<lparr>la_cur := c\<rparr>)
      | (Inl e, c) \<Rightarrow> list_event L EvError (''scriptlet library auto-update: '' @ shs e) (w\<lparr>la_cur := c\<rparr>))"

definition update_turn ::
  "(string \<Rightarrow> string) \<Rightarrow> ('e, 'r) engine_ops \<Rightarrow> 's store_ops \<Rightarrow> log_env \<Rightarrow> (string \<Rightarrow> 'n \<Rightarrow> ('f + string) \<times> 'n) \<Rightarrow>
   ('f refresh_error \<Rightarrow> string) \<Rightarrow> (scriptlet_error \<Rightarrow> string) \<Rightarrow> 'r scriptlet_refresh \<Rightarrow> duration \<Rightarrow>
   ('e, 'r, 's, 'n) list_admin \<Rightarrow> ('e, 'r, 's, 'n) list_admin" where
  "update_turn uni E S L fetch_text shw shs R max_age w =
     update_scriptlets_turn E S L shs R max_age
       (fold (update_one uni E S L fetch_text shw) (stale_url_lists uni S max_age (la_cur w)) w)"

section \<open>The admin handlers\<close>

definition update_scriptlets ::
  "('e, 'r) engine_ops \<Rightarrow> 's store_ops \<Rightarrow> log_env \<Rightarrow> (scriptlet_error \<Rightarrow> string) \<Rightarrow> 'r scriptlet_refresh \<Rightarrow>
   ('e, 'r, 's, 'n) list_admin \<Rightarrow> (scriptlet_error + nat) \<times> ('e, 'r, 's, 'n) list_admin" where
  "update_scriptlets E S L shs R w =
     (case refresh_scriptlets E S R (la_cur w) of
        (Inr n, c) \<Rightarrow> (Inr n, event_scriptlets L n ''updated from uBO master'' (w\<lparr>la_cur := c\<rparr>))
      | (Inl e, c) \<Rightarrow> (Inl e, list_event L EvError (''scriptlet library update: '' @ shs e) (w\<lparr>la_cur := c\<rparr>)))"

datatype 'f list_reply =
    ListsShown "list_entry list" | NoListNamed string | ListRefused curation_error | BadGateway string 'f | BadCommand blocklist_error

fun run_blocklist ::
  "(string \<Rightarrow> string) \<Rightarrow> ('e, 'r) engine_ops \<Rightarrow> 's store_ops \<Rightarrow> log_env \<Rightarrow> (string \<Rightarrow> 'n \<Rightarrow> ('f + string) \<times> 'n) \<Rightarrow> blocklist_command \<Rightarrow>
   ('e, 'r, 's, 'n) list_admin \<Rightarrow> 'f list_reply \<times> ('e, 'r, 's, 'n) list_admin" where
  "run_blocklist uni E S L fetch_text (BlDelete n) w =
     (case remove_list uni E S n (la_cur w) of
        (removed, c) \<Rightarrow>
          if removed then (ListsShown (cu_lists c), list_event L EvInfo (''blocklist removed: '' @ n) (w\<lparr>la_cur := c\<rparr>))
          else (NoListNamed n, w\<lparr>la_cur := c\<rparr>))"
| "run_blocklist uni E S L fetch_text (BlSetEnabled n b) w =
     (case set_list_enabled uni E S n b (la_cur w) of
        (Inl e, c) \<Rightarrow> (ListRefused e, w\<lparr>la_cur := c\<rparr>)
      | (Inr done, c) \<Rightarrow>
          if done then
            (ListsShown (cu_lists c), list_event L EvInfo
               (''blocklist '' @ (if b then ''enabled'' else ''disabled'') @ '': '' @ n @ '' (engine rebuilt)'') (w\<lparr>la_cur := c\<rparr>))
          else (NoListNamed n, w\<lparr>la_cur := c\<rparr>))"
| "run_blocklist uni E S L fetch_text (BlAddUrl url) w =
     (case install_from_url uni E S L fetch_text url ''added'' w of
        (Inr _, w') \<Rightarrow> (ListsShown (cu_lists (la_cur w')), w')
      | (Inl (FetchFailed u e), w') \<Rightarrow> (BadGateway u e, w')
      | (Inl (InstallFailed e), w') \<Rightarrow> (ListRefused e, w'))"
| "run_blocklist uni E S L fetch_text (BlApply n rules u) w =
     (case apply_rules uni E S n rules u (la_cur w) of
        (Inl e, c) \<Rightarrow> (ListRefused e, w\<lparr>la_cur := c\<rparr>)
      | (Inr entry, c) \<Rightarrow> (ListsShown (cu_lists c), event_list_change L entry ''added'' (w\<lparr>la_cur := c\<rparr>)))"

definition add_blocklist ::
  "(bytes \<Rightarrow> string + json) \<Rightarrow> (string \<Rightarrow> string) \<Rightarrow> ('e, 'r) engine_ops \<Rightarrow> 's store_ops \<Rightarrow> log_env \<Rightarrow>
   (string \<Rightarrow> 'n \<Rightarrow> ('f + string) \<times> 'n) \<Rightarrow> bytes \<Rightarrow> ('e, 'r, 's, 'n) list_admin \<Rightarrow> 'f list_reply \<times> ('e, 'r, 's, 'n) list_admin" where
  "add_blocklist parse_json uni E S L fetch_text body w =
     (case parse_blocklist_command parse_json body of
        Inl e \<Rightarrow> (BadCommand e, w)
      | Inr cmd \<Rightarrow> run_blocklist uni E S L fetch_text cmd w)"

section \<open>Downloads end and are bounded\<close>

definition counted :: "(http_target \<Rightarrow> 'n \<Rightarrow> (string + fetched) \<times> 'n) \<Rightarrow> http_target \<Rightarrow> 'n \<times> nat \<Rightarrow> (string + fetched) \<times> 'n \<times> nat" where
  "counted get t p = (fst (get t (fst p)), snd (get t (fst p)), Suc (snd p))"

definition redirected :: "fetched \<Rightarrow> string option option" where
  "redirected r = (if 300 \<le> ft_status r \<and> ft_status r < 400 then Some (ft_location r) else None)"

definition final_body :: "nat \<Rightarrow> fetched \<Rightarrow> fetch_error + string" where
  "final_body m r =
     (if \<not> (200 \<le> ft_status r \<and> ft_status r < 300) then Inl (HttpStatus (ft_status r))
      else case ft_body r of
        Inl e \<Rightarrow> Inl (BodyFailed e)
      | Inr b \<Rightarrow> if m < length b then Inl (TooLarge m) else Inr b)"

lemma fetch_loop_Suc:
  "fetch_loop U get m (Suc n) url s =
     (case parse_target U url of
        Inl e \<Rightarrow> (Inl (BadTarget e), s)
      | Inr t \<Rightarrow>
          (case get t s of
             (Inl e, s1) \<Rightarrow> (Inl (GetFailed (tg_host t) (tg_port t) e), s1)
           | (Inr r, s1) \<Rightarrow>
               (case redirected r of
                  Some None \<Rightarrow> (Inl NoLocation, s1)
                | Some (Some loc) \<Rightarrow> fetch_loop U get m n (redirect_to t loc) s1
                | None \<Rightarrow> (final_body m r, s1))))"
  by (simp add: redirected_def final_body_def split: sum.split prod.split option.split)

lemma final_body_size: "final_body m r = Inr b \<Longrightarrow> length b \<le> m"
  by (simp add: final_body_def split: if_splits sum.splits)

lemma fetch_loop_counted:
  "fetch_loop U (counted get) m n url (s, k) = (r, s', k') \<Longrightarrow> fetch_loop U get m n url s = (r, s') \<and> k' \<le> k + n"
proof (induction n arbitrary: url s k)
  case (Suc n)
  show ?case
  proof (cases "parse_target U url")
    case (Inl e)
    then show ?thesis using Suc.prems by (simp add: fetch_loop_Suc del: fetch_loop.simps)
  next
    case t: (Inr t)
    obtain x s1 where g: "get t s = (x, s1)" "counted get t (s, k) = (x, s1, Suc k)"
      by (cases "get t s") (simp add: counted_def)
    show ?thesis
    proof (cases x)
      case (Inl e)
      then show ?thesis using Suc.prems t g by (simp add: fetch_loop_Suc del: fetch_loop.simps)
    next
      case (Inr a)
      then show ?thesis using Suc.prems t g
        by (auto simp add: fetch_loop_Suc simp del: fetch_loop.simps split: option.splits dest: Suc.IH)
    qed
  qed
qed simp

lemma fetch_loop_size: "fetch_loop U get m n url s = (Inr b, s') \<Longrightarrow> length b \<le> m"
proof (induction n arbitrary: url s)
  case (Suc n)
  then show ?case
    by (auto simp add: fetch_loop_Suc final_body_size simp del: fetch_loop.simps split: sum.splits prod.splits option.splits)
qed simp

text \<open>C15: a download makes at most six exchanges, however the servers redirect, and what it returns is at
  most 20 MiB of UTF-8. (\<open>counted\<close> only counts the exchanges.)\<close>

theorem download_bounded:
  assumes "get_text U (counted get) utf8 url (s, 0) = (r, s', k)"
  shows "get_text U get utf8 url s = (r, s') \<and> k \<le> 6 \<and> (\<forall>b. r = Inr b \<longrightarrow> length b \<le> 20971520 \<and> utf8 b)"
proof -
  obtain r0 where r0: "fetch_loop U (counted get) LIST_MAX_BYTES 6 url (s, 0) = (r0, s', k)"
    "r = and_then r0 (\<lambda>b. if utf8 b then Inr b else Inl NotUtf8)"
    using assms by (auto simp: get_text_def get_bytes_def MAX_REDIRECTS_def split: prod.splits)
  note c = fetch_loop_counted [OF r0(1)]
  have "length b \<le> 20971520 \<and> utf8 b" if "r = Inr b" for b
  proof -
    have "r0 = Inr b \<and> utf8 b" using that r0(2) by (auto simp: and_then_Inr split: if_splits)
    then show ?thesis using fetch_loop_size c by (fastforce simp: LIST_MAX_BYTES_def)
  qed
  then show ?thesis using c r0(2) by (simp add: get_text_def get_bytes_def MAX_REDIRECTS_def)
qed

section \<open>The engine follows the lists\<close>

lemma list_event_fields [simp]:
  "la_cur (list_event L k m w) = la_cur w" "la_net (list_event L k m w) = la_net w"
  "la_cur (event_list_change L e v w) = la_cur w" "la_cur (event_scriptlets L n v w) = la_cur w"
  by (simp_all add: list_event_def event_list_change_def event_scriptlets_def)

lemma install_from_url_cur:
  "la_cur (snd (install_from_url uni E S L fetch given verb w)) =
     (case fetch (normalize_list_url given) (la_net w) of
        (Inl _, _) \<Rightarrow> la_cur w
      | (Inr txt, _) \<Rightarrow> curation_step uni E S (OpInstall given (normalize_list_url given) txt) (la_cur w))"
  by (auto simp: install_from_url_def Let_def split: prod.split sum.split)

lemma install_from_url_reach:
  "curation_reach uni E S (la_cur w) \<Longrightarrow> curation_reach uni E S (la_cur (snd (install_from_url uni E S L fetch given verb w)))"
  unfolding install_from_url_cur by (auto intro: curation_reach.stepped simp del: curation_step.simps split: prod.split sum.split)

lemma refresh_cur:
  "snd (refresh_scriptlets E S R c) \<in> {c, curation_step uni E S (OpReload (sr_load R)) c}"
  by (simp add: refresh_scriptlets_def case_prod_beta split: sum.split option.split)

lemma refresh_reach:
  "curation_reach uni E S c \<Longrightarrow> curation_reach uni E S (snd (refresh_scriptlets E S R c))"
  using refresh_cur [of E S R c uni] curation_reach.stepped [of uni E S c "OpReload (sr_load R)"] by auto

lemma run_blocklist_cur:
  "la_cur (snd (run_blocklist uni E S L fetch (BlDelete n) w)) = curation_step uni E S (OpRemove n) (la_cur w)"
  "la_cur (snd (run_blocklist uni E S L fetch (BlSetEnabled n b) w)) = curation_step uni E S (OpEnable n b) (la_cur w)"
  "la_cur (snd (run_blocklist uni E S L fetch (BlAddUrl u) w)) = la_cur (snd (install_from_url uni E S L fetch u ''added'' w))"
  "la_cur (snd (run_blocklist uni E S L fetch (BlApply m r upd) w)) = curation_step uni E S (OpApply m r upd) (la_cur w)"
  by (simp_all add: case_prod_beta split: sum.split refresh_error.split)

lemma run_blocklist_reach:
  "curation_reach uni E S (la_cur w) \<Longrightarrow> curation_reach uni E S (la_cur (snd (run_blocklist uni E S L fetch cmd w)))"
  by (cases cmd) (simp_all only: run_blocklist_cur curation_reach.stepped install_from_url_reach)

lemma update_one_cur:
  "la_cur (update_one uni E S L fetch shw nu w) = la_cur (snd (install_from_url uni E S L fetch (snd nu) ''auto-updated'' w))"
  by (auto simp: update_one_def split: prod.split sum.split)

lemma update_fold_reach:
  "curation_reach uni E S (la_cur w) \<Longrightarrow> curation_reach uni E S (la_cur (fold (update_one uni E S L fetch shw) nus w))"
  by (induction nus arbitrary: w) (simp_all add: update_one_cur install_from_url_reach)

lemma update_turn_reach:
  "curation_reach uni E S (la_cur w) \<Longrightarrow> curation_reach uni E S (la_cur (update_turn uni E S L fetch shw shs R age w))"
  using refresh_reach [OF update_fold_reach]
  by (auto simp: update_turn_def update_scriptlets_turn_def update_fold_reach case_prod_beta split: sum.split)

text \<open>Requests of any content, turns of the updater and updates of the scriptlets, in any order; every
  step has its own clock, parser result and network answers.\<close>

inductive list_admin_steps ::
  "(string \<Rightarrow> string) \<Rightarrow> ('e, 'r) engine_ops \<Rightarrow> 's store_ops \<Rightarrow> (string \<Rightarrow> 'n \<Rightarrow> ('f + string) \<times> 'n) \<Rightarrow> (bytes \<Rightarrow> string + json) \<Rightarrow>
   ('f refresh_error \<Rightarrow> string) \<Rightarrow> (scriptlet_error \<Rightarrow> string) \<Rightarrow> ('e, 'r, 's, 'n) list_admin \<Rightarrow> ('e, 'r, 's, 'n) list_admin \<Rightarrow> bool"
  for uni E S fetch parse_json shw shs w0 where
  start: "list_admin_steps uni E S fetch parse_json shw shs w0 w0"
| request: "list_admin_steps uni E S fetch parse_json shw shs w0 w \<Longrightarrow>
    list_admin_steps uni E S fetch parse_json shw shs w0 (snd (add_blocklist parse_json uni E S L fetch body w))"
| turn: "list_admin_steps uni E S fetch parse_json shw shs w0 w \<Longrightarrow>
    list_admin_steps uni E S fetch parse_json shw shs w0 (update_turn uni E S L fetch shw shs R age w)"
| scriptlets: "list_admin_steps uni E S fetch parse_json shw shs w0 w \<Longrightarrow>
    list_admin_steps uni E S fetch parse_json shw shs w0 (snd (update_scriptlets E S L shs R w))"

lemma list_admin_reach:
  "list_admin_steps uni E S fetch parse_json shw shs w0 w \<Longrightarrow> curation_reach uni E S (la_cur w0) \<Longrightarrow>
   curation_reach uni E S (la_cur w)"
proof (induction rule: list_admin_steps.induct)
  case (request w L body)
  then show ?case by (auto simp: add_blocklist_def run_blocklist_reach split: sum.split)
next
  case (scriptlets w L R)
  then show ?case using refresh_reach [of uni E S "la_cur w" R] by (auto simp: update_scriptlets_def case_prod_beta split: sum.split)
qed (simp_all add: update_turn_reach)

text \<open>C13: whatever requests are sent to the admin and whatever the downloads answer, with the updater running
  in between, the engine is the one compiled from the enabled lists with the resources in force, up
  to a cache file of other rules with the same 64-bit key.\<close>

theorem admin_keeps_engine:
  assumes "engine E" "curation_reach uni E S (la_cur w0)" "list_admin_steps uni E S fetch parse_json shw shs w0 w"
  shows "\<exists>R. en_hash E R = en_hash E (rules_of (cu_lists (la_cur w))) \<and>
    cu_engine (la_cur w) = with_resources E (cu_resources (la_cur w)) (en_compile E (map snd R))"
  using engine.reach_ok [OF assms(1) list_admin_reach [OF assms(3,2)]] unfolding engine.engine_ok_def [OF assms(1)] by metis

section \<open>What a download does to the lists\<close>

lemma remove_list_lists [simp]: "cu_lists (snd (remove_list uni E S n c)) = filter (\<lambda>l. le_name l \<noteq> n) (cu_lists c)"
  by (auto simp: remove_list_def Let_def list_ex_iff filter_id_conv intro!: sym [of _ "cu_lists c"])

lemma remove_lists_lists:
  "cu_lists (fold (\<lambda>old c. snd (remove_list uni E S old c)) ns c) = filter (\<lambda>l. le_name l \<notin> set ns) (cu_lists c)"
  by (induction ns arbitrary: c) (auto intro: filter_cong)

lemma add_list_lists:
  assumes "add_list uni E S name src txt c = (r, c')"
  shows "(\<exists>err. r = Inl err \<and> cu_lists c' = cu_lists c) \<or>
    (\<exists>e. r = Inr e \<and> le_name e = sanitize_name name \<and> le_source e = src \<and> le_text e = txt \<and>
      le_enabled e = (case find_list (sanitize_name name) (cu_lists c) of None \<Rightarrow> True | Some l \<Rightarrow> le_enabled l) \<and>
      cu_lists c' = replace_list e (cu_lists c))"
  using assms by (auto simp: add_list_def Let_def split: if_splits prod.splits sum.splits)

definition download_name :: "string \<Rightarrow> string \<Rightarrow> string" where
  "download_name url txt = sanitize_name (case list_title txt of Some t \<Rightarrow> t | None \<Rightarrow> name_from_url url)"

lemma install_downloaded_lists:
  assumes "install_downloaded uni E S given url txt c = (r, c')" "\<not> starts_with ''<'' (trim_start txt)" "count_rules txt \<noteq> 0"
  defines "nm \<equiv> download_name url txt"
  defines "stale \<equiv> {le_name l | l. l \<in> set (cu_lists c) \<and> (le_source l = url \<or> le_source l = given) \<and> le_name l \<noteq> nm}"
  defines "kept \<equiv> filter (\<lambda>l. le_name l \<notin> stale) (cu_lists c)"
  shows "(\<exists>err. r = Inl err \<and> cu_lists c' = kept) \<or>
    (\<exists>e. r = Inr e \<and> le_name e = nm \<and> le_source e = url \<and> le_text e = txt \<and>
      le_enabled e = (case find_list nm kept of None \<Rightarrow> True | Some l \<Rightarrow> le_enabled l) \<and> cu_lists c' = replace_list e kept)"
proof -
  define ns where "ns = map le_name (filter (\<lambda>l. (le_source l = url \<or> le_source l = given) \<and> le_name l \<noteq> nm) (cu_lists c))"
  have "set ns = stale" by (auto simp: ns_def stale_def)
  then have k: "cu_lists (fold (\<lambda>old c. snd (remove_list uni E S old c)) ns c) = kept"
    by (simp add: remove_lists_lists kept_def)
  have "add_list uni E S (case list_title txt of Some t \<Rightarrow> t | None \<Rightarrow> name_from_url url) url txt
      (fold (\<lambda>old c. snd (remove_list uni E S old c)) ns c) = (r, c')"
    using assms(1-3) by (simp add: install_downloaded_def Let_def ns_def nm_def download_name_def)
  from add_list_lists [OF this] show ?thesis unfolding k nm_def download_name_def .
qed

lemma install_from_url_fetched:
  assumes "install_from_url uni E S L fetch given verb w = (r, w')" "fetch (normalize_list_url given) (la_net w) = (Inr txt, n)"
  obtains r0 where "install_downloaded uni E S given (normalize_list_url given) txt (la_cur w) = (r0, la_cur w')"
    "r = map_err InstallFailed r0"
  using assms by (cases "install_downloaded uni E S given (normalize_list_url given) txt (la_cur w)")
    (auto simp: install_from_url_def Let_def map_err_def split: sum.splits)

text \<open>C14: when a list comes back from its URL under a new title, the entry of the old title is gone, even if
  writing the new one fails, and the new entry is switched on although the old one was switched off.\<close>

theorem retitled_update_reenables:
  assumes "old \<in> set (cu_lists (la_cur w))" "le_source old = given" "\<not> le_enabled old"
    and "fetch (normalize_list_url given) (la_net w) = (Inr txt, n)" "\<not> starts_with ''<'' (trim_start txt)" "count_rules txt \<noteq> 0"
    and "download_name (normalize_list_url given) txt \<notin> le_name ` set (cu_lists (la_cur w))"
    and "install_from_url uni E S L fetch given verb w = (r, w')"
  shows "le_name old \<notin> le_name ` set (cu_lists (la_cur w')) \<and>
    ((\<exists>err. r = Inl (InstallFailed err)) \<or> (\<exists>e. r = Inr e \<and> e \<in> set (cu_lists (la_cur w')) \<and> le_enabled e))"
proof -
  let ?nm = "download_name (normalize_list_url given) txt"
  obtain r0 where r0: "install_downloaded uni E S given (normalize_list_url given) txt (la_cur w) = (r0, la_cur w')"
    "r = map_err InstallFailed r0" using install_from_url_fetched [OF assms(8,4)] .
  have ne: "le_name old \<noteq> ?nm" using assms(1,7) by (metis imageI)
  have none: "find_list ?nm (filter P (cu_lists (la_cur w))) = None" for P
    using assms(7) by (auto simp: find_list_def find_None_iff) (metis imageI)
  show ?thesis using install_downloaded_lists [OF r0(1) assms(5,6)]
  proof (elim disjE exE conjE, goal_cases)
    case (1 err)
    then show ?thesis using r0(2) assms(1,2) ne by (auto simp: map_err_def)
  next
    case (2 e)
    then show ?thesis using r0(2) assms(1,2) ne by (auto simp: map_err_def none replace_list_def)
  qed
qed

text \<open>a downloaded list takes the place of whatever list has the name in its title, the user's own rules
  included: afterwards that name holds the downloaded text and no other list has it.\<close>

theorem download_replaces_namesake:
  assumes "fetch (normalize_list_url given) (la_net w) = (Inr txt, n)"
    and "install_from_url uni E S L fetch given verb w = (Inr e, w')"
  shows "filter (\<lambda>l. le_name l = download_name (normalize_list_url given) txt) (cu_lists (la_cur w')) = [e] \<and>
    le_text e = txt \<and> le_source e = normalize_list_url given"
proof -
  have i: "install_downloaded uni E S given (normalize_list_url given) txt (la_cur w) = (Inr e, la_cur w')"
    using assms by (auto simp: install_from_url_def Let_def split: prod.splits sum.splits)
  have "\<not> starts_with ''<'' (trim_start txt)" "count_rules txt \<noteq> 0"
    using i by (auto simp: install_downloaded_def split: if_splits)
  from install_downloaded_lists [OF i this] show ?thesis
    by (auto simp: replace_list_def filter_empty_conv)
qed

text \<open>a query for cosmetic rules, which any page can send, names at most a thousand classes and a thousand
  ids, none of them empty.\<close>

theorem cosmetic_query_bounded:
  assumes "parse_cosmetic_query parse_json body = Inr q"
  shows "length (cq_classes q) \<le> 1000 \<and> length (cq_ids q) \<le> 1000 \<and> [] \<notin> set (cq_classes q @ cq_ids q) \<and> cq_url q \<noteq> []"
proof -
  have "length (query_names k v) \<le> 1000 \<and> [] \<notin> set (query_names k v)" for k v
    by (auto simp: query_names_def MAX_COSMETIC_NAMES_def dest: in_set_takeD split: option.split)
  then show ?thesis using assms by (auto simp: parse_cosmetic_query_def and_then_Inr split: option.splits if_splits)
qed

section \<open>Examples\<close>

definition sample_lists :: "(string list \<times> nat list, nat, memory_lists, nat) list_admin" where
  "sample_lists = \<lparr>la_cur = curation_step id text_engine memory_store (OpEnable ''Ads'' False)
       (curation_step id text_engine memory_store (OpAdd ''Ads'' ''http://h/l'' ''||a^'')
         (with_store id text_engine memory_store [''||c^''] [] None [])),
     la_state = sample_state, la_net = 0\<rparr>"

definition sample_fetch :: "string \<Rightarrow> string \<Rightarrow> nat \<Rightarrow> (unit + string) \<times> nat" where
  "sample_fetch txt url n = (Inr txt, Suc n)"

abbreviation retitled_text :: string where "retitled_text \<equiv> ''! Title: New'' @ [CHR 0x0A] @ ''||b^''"

abbreviation custom_text :: string where "custom_text \<equiv> ''! Title: custom'' @ [CHR 0x0A] @ ''||b^''"

theorem retitled_update_reenables_witness:
  "let w' = snd (install_from_url id text_engine memory_store sample_log_env (sample_fetch retitled_text) ''http://h/l'' ''auto-updated'' sample_lists)
   in ''Ads'' \<notin> le_name ` set (cu_lists (la_cur w'))"
proof -
  let ?r = "install_from_url id text_engine memory_store sample_log_env (sample_fetch retitled_text) ''http://h/l'' ''auto-updated'' sample_lists"
  let ?old = "\<lparr>le_name = ''Ads'', le_source = ''http://h/l'', le_rules = 1, le_enabled = False, le_text = ''||a^''\<rparr>"
  have l: "?old \<in> set (cu_lists (la_cur sample_lists))" by code_simp
  have u: "normalize_list_url ''http://h/l'' = ''http://h/l''" by code_simp
  have f: "sample_fetch retitled_text (normalize_list_url ''http://h/l'') (la_net sample_lists) = (Inr retitled_text, 1)"
    by (simp add: sample_fetch_def sample_lists_def)
  have t: "\<not> starts_with ''<'' (trim_start retitled_text)" "count_rules retitled_text \<noteq> 0" by code_simp+
  have d: "download_name (normalize_list_url ''http://h/l'') retitled_text \<notin> le_name ` set (cu_lists (la_cur sample_lists))"
    by code_simp
  have "?r = (fst ?r, snd ?r)" by simp
  from retitled_update_reenables [OF l _ _ f t d this] show ?thesis by (simp add: Let_def)
qed

theorem download_replaces_namesake_witness:
  "let r = install_from_url id text_engine memory_store sample_log_env (sample_fetch custom_text) ''http://h/l'' ''added'' sample_lists
   in map le_text (filter (\<lambda>l. le_name l = CUSTOM_LIST) (cu_lists (la_cur sample_lists))) = [''||c^''] \<and>
      map le_text (filter (\<lambda>l. le_name l = CUSTOM_LIST) (cu_lists (la_cur (snd r)))) = [custom_text]"
proof -
  let ?r = "install_from_url id text_engine memory_store sample_log_env (sample_fetch custom_text) ''http://h/l'' ''added'' sample_lists"
  have f: "sample_fetch custom_text (normalize_list_url ''http://h/l'') (la_net sample_lists) = (Inr custom_text, 1)"
    by (simp add: sample_fetch_def sample_lists_def)
  have o: "map le_text (filter (\<lambda>l. le_name l = CUSTOM_LIST) (cu_lists (la_cur sample_lists))) = [''||c^'']" by code_simp
  have n: "download_name (normalize_list_url ''http://h/l'') custom_text = CUSTOM_LIST" by code_simp
  have "isl (fst ?r) = False" by code_simp
  then obtain e where "?r = (Inr e, snd ?r)" by (metis prod.collapse sum.collapse(2))
  from download_replaces_namesake [OF f this] show ?thesis unfolding Let_def n using o by simp
qed

theorem cosmetic_query_bounded_witness:
  "length (cq_ids (projr (parse_cosmetic_query (\<lambda>_. Inr (JObject [(''url'', JString ''u''), (''ids'', JArray [JString ''a''])])) []))) \<le> 1000"
proof -
  let ?p = "parse_cosmetic_query (\<lambda>_. Inr (JObject [(''url'', JString ''u''), (''ids'', JArray [JString ''a''])])) []"
  have "?p = Inr (projr ?p)" by code_simp
  from cosmetic_query_bounded [OF this] show ?thesis by simp
qed

text \<open>A server that always redirects.\<close>

definition loop_uris :: "string uri_ops" where
  "loop_uris = \<lparr>parse_uri = Some, has_authority = (\<lambda>_. True), path_and_query = (\<lambda>_. Some ''/''), uri_authority = (\<lambda>_. Some ''h''),
     uri_scheme = (\<lambda>_. Some ''http''), uri_host = (\<lambda>_. Some ''h''), uri_port = (\<lambda>_. None), origin_form = Some\<rparr>"

definition loop_get :: "http_target \<Rightarrow> nat \<Rightarrow> (string + fetched) \<times> nat" where
  "loop_get t n = (Inr \<lparr>ft_status = 302, ft_location = Some ''http://h/'', ft_body = Inr []\<rparr>, n)"

theorem download_bounded_witness:
  "let (r, s', k) = get_text loop_uris (counted loop_get) (\<lambda>_. True) ''http://h/'' (0, 0)
   in r = Inl TooManyRedirects \<and> k \<le> 6 \<and> get_text loop_uris loop_get (\<lambda>_. True) ''http://h/'' 0 = (r, s')"
proof -
  let ?g = "get_text loop_uris (counted loop_get) (\<lambda>_. True) ''http://h/'' (0, 0)"
  have "?g = (fst ?g, fst (snd ?g), snd (snd ?g))" by simp
  note b = download_bounded [OF this]
  have "fst ?g = Inl TooManyRedirects" by code_simp
  then show ?thesis using b by (simp add: case_prod_beta Let_def)
qed

lemma sample_lists_reach: "curation_reach id text_engine memory_store (la_cur sample_lists)"
  unfolding sample_lists_def list_admin.simps by (intro curation_reach.intros)

theorem admin_keeps_engine_witness:
  "let w = update_turn id text_engine memory_store sample_log_env (sample_fetch retitled_text) (\<lambda>_. []) (\<lambda>_. [])
     \<lparr>sr_path = [], sr_source = Inl [], sr_write = None, sr_load = Inl [], sr_age = None\<rparr> 0 sample_lists
   in \<exists>R. en_hash text_engine R = en_hash text_engine (rules_of (cu_lists (la_cur w))) \<and>
     cu_engine (la_cur w) = with_resources text_engine (cu_resources (la_cur w)) (en_compile text_engine (map snd R))"
  unfolding Let_def
  by (rule admin_keeps_engine [OF texts_only.engine_axioms sample_lists_reach list_admin_steps.turn [OF list_admin_steps.start,
      where parse_json = "\<lambda>_. Inl []"]])

end
