(* ===== verification/Tester.thy ===== *)
theory Tester
  imports Proxy_Store
begin

text \<open>
  The rule-type tester, \<open>tester/mod.rs\<close>: its switch with the file behind it, the record of which test
  assets arrived, and its routes. The files it includes and the check for a header value are parameters
  (\<open>tester_env\<close>).
\<close>

section \<open>The record of arrivals\<close>

record hit =
  hit_method :: string
  hit_url :: string

definition MAX_RUNS :: nat where "MAX_RUNS = 8"

definition record_hit :: "string \<Rightarrow> string \<Rightarrow> string \<Rightarrow> (string \<times> hit list) list \<Rightarrow> (string \<times> hit list) list" where
  "record_hit run method url hits =
     (let kept = (if MAX_RUNS < length hits \<and> map_of hits run = None then [] else hits)
      in AList.update run (unwrap_or (map_of kept run) [] @ [\<lparr>hit_method = method, hit_url = url\<rparr>]) kept)"

section \<open>The switch\<close>

record tester =
  te_enabled :: bool
  te_path :: path
  te_hits :: "(string \<times> hit list) list"

definition tester_persist :: "json_text \<Rightarrow> tester \<Rightarrow> disk \<Rightarrow> (store_error + unit) \<times> disk" where
  "tester_persist T te d = store_write T (te_path te) (JObject [(''enabled'', JBool (te_enabled te))]) d"

text \<open>The record of arrivals belongs to the process: a start finds it empty.\<close>

definition tester_load :: "json_text \<Rightarrow> string \<Rightarrow> disk \<Rightarrow> tester \<times> disk" where
  "tester_load T data_dir d =
     (let p = (data_dir @ ''/settings'', ''tester.json'');
          saved = Option.bind (Option.bind (read_to_string d p) (jt_parse T)) (get_bool ''enabled'');
          te = \<lparr>te_enabled = unwrap_or saved True, te_path = p, te_hits = []\<rparr>
      in (te, if path_exists d p then d else snd (tester_persist T te d)))"

datatype tester_error = TesterBadJson string | TesterNoFlag | TesterStore store_error

definition tester_set_enabled ::
  "json_text \<Rightarrow> (bytes \<Rightarrow> string + json) \<Rightarrow> bytes \<Rightarrow> tester \<Rightarrow> disk \<Rightarrow> (tester_error + bool) \<times> tester \<times> disk" where
  "tester_set_enabled T parse_json body te d =
     (case parse_json body of
        Inl e \<Rightarrow> (Inl (TesterBadJson e), te, d)
      | Inr v \<Rightarrow>
          (case get_bool ''enabled'' v of
             None \<Rightarrow> (Inl TesterNoFlag, te, d)
           | Some on \<Rightarrow>
               (let te1 = te\<lparr>te_enabled := on\<rparr> in
                case tester_persist T te1 d of
                  (Inl e, d1) \<Rightarrow> (Inl (TesterStore e), te1, d1)
                | (Inr _, d1) \<Rightarrow> (Inr on, te1, d1))))"

section \<open>Routes\<close>

text \<open>\<open>str::replace\<close>, for a pattern that is not empty.\<close>

function replace_str :: "string \<Rightarrow> string \<Rightarrow> string \<Rightarrow> string" where
  "replace_str p r s =
     (if p = [] \<or> s = [] then s
      else case strip_prefix p s of
        Some rest \<Rightarrow> r @ (if length rest < length s then replace_str p r rest else rest)
      | None \<Rightarrow> hd s # replace_str p r (tl s))"
  by pat_completeness auto
termination
  by (relation "measure (\<lambda>(p, r, s). length s)") auto

declare replace_str.simps [simp del]

record tester_env =
  tx_page :: string
  tx_rules :: string
  tx_frame :: string
  tx_others :: string
  tx_gif :: string
  tx_header_ok :: "string \<Rightarrow> bool"

datatype tester_response =
    Served string string "string option"
  | ServedHits string "hit list"
  | TesterNotFound

definition hostname_of :: "string \<Rightarrow> string" where
  "hostname_of host = (case rsplit_once CHR '':'' host of Some (h, _) \<Rightarrow> h | None \<Rightarrow> host)"

definition third_party_host :: "string \<Rightarrow> string" where
  "third_party_host host =
     (if host = ''localhost'' then ''127.0.0.1'' else if host = ''127.0.0.1'' then ''localhost'' else ''thirdparty.test'')"

definition stem :: "string \<Rightarrow> string" where
  "stem name = (case rsplit_once CHR ''.'' name of Some (s, _) \<Rightarrow> s | None \<Rightarrow> name)"

definition html_page :: "string \<Rightarrow> tester_response" where
  "html_page body = Served ''text/html; charset=utf-8'' body None"

definition hits_run :: "string \<Rightarrow> string" where
  "hits_run query = (case List.map_filter (strip_prefix ''run='') (split CHR ''&'' query) of r # _ \<Rightarrow> r | [] \<Rightarrow> [])"

definition hits_json :: "string \<Rightarrow> tester \<Rightarrow> tester_response" where
  "hits_json query te = (let run = hits_run query in ServedHits run (unwrap_or (map_of (te_hits te) run) []))"

definition frame_page :: "tester_env \<Rightarrow> string \<Rightarrow> string \<Rightarrow> string" where
  "frame_page X run name = replace_str ''{{NAME}}'' (stem name) (replace_str ''{{RUN}}'' run (tx_frame X))"

definition asset_body :: "tester_env \<Rightarrow> string \<Rightarrow> string \<Rightarrow> tester_response" where
  "asset_body X run name =
     (if name = ''others.html'' then html_page (tx_others X)
      else if name = ''respheader.html'' then
        (let cookie = ''t'' @ run @ ''=1; Path=/test'' in
         Served ''text/html; charset=utf-8'' (frame_page X run name) (if tx_header_ok X cookie then Some cookie else None))
      else let ext = (case rsplit_once CHR ''.'' name of Some (_, e) \<Rightarrow> e | None \<Rightarrow> []) in
        if ext = ''html'' then html_page (frame_page X run name)
        else if ext = ''js'' then Served ''application/javascript'' (''/* tester stand-in */'' @ [CHR 0x0A]) None
        else if ext = ''css'' then Served ''text/css'' (''/* tester stand-in */'' @ [CHR 0x0A]) None
        else if ext = ''json'' then
          Served ''application/json''
            (''{'' @ [CHR 0x22] @ ''ok'' @ [CHR 0x22] @ '':true,'' @ [CHR 0x22] @ ''marker'' @ [CHR 0x22] @ '':'' @ [CHR 0x22] @ ''NEEDLE'' @ [CHR 0x22] @ ''}'') None
        else if ext = ''vtt'' then Served ''text/vtt'' (''WEBVTT'' @ [CHR 0x0A]) None
        else if ext = ''txt'' then Served ''text/plain'' (''tester'' @ [CHR 0x0A]) None
        else if ext = ''gif'' then Served ''image/gif'' (tx_gif X) None
        else if ext = ''woff2'' then Served ''font/woff2'' [] None
        else if ext = ''mp4'' then Served ''video/mp4'' [] None
        else if ext = ''swf'' then Served ''application/x-shockwave-flash'' [] None
        else if ext = ''ws'' then Served ''text/plain'' (''not a websocket server'' @ [CHR 0x0A]) None
        else Served ''application/octet-stream'' [] None)"

definition asset :: "tester_env \<Rightarrow> string \<Rightarrow> string \<Rightarrow> string \<Rightarrow> tester \<Rightarrow> tester_response \<times> tester" where
  "asset X method tail query te =
     (case split_once CHR ''/'' tail of
        None \<Rightarrow> (TesterNotFound, te)
      | Some (run, name) \<Rightarrow>
          (let url = (if query = [] then ''/test/a/'' @ tail else ''/test/a/'' @ tail @ ''?'' @ query)
           in (asset_body X run name, te\<lparr>te_hits := record_hit run method url (te_hits te)\<rparr>)))"

definition tester_route ::
  "tester_env \<Rightarrow> string \<Rightarrow> string \<Rightarrow> string \<Rightarrow> string \<Rightarrow> tester \<Rightarrow> tester_response option \<times> tester" where
  "tester_route X method pth query host te =
     (case strip_prefix ''/test'' pth of
        None \<Rightarrow> (None, te)
      | Some rest \<Rightarrow>
          if \<not> te_enabled te then (None, te)
          else if rest = [] \<or> rest = ''/'' then (Some (html_page (tx_page X)), te)
          else if rest = ''/rules.txt'' then
            (Some (Served ''text/plain; charset=utf-8''
               (replace_str ''{{TP}}'' (third_party_host (hostname_of host)) (replace_str ''{{H}}'' (hostname_of host) (tx_rules X))) None), te)
          else if rest = ''/hits'' then (Some (hits_json query te), te)
          else case strip_prefix ''/a/'' rest of
            Some tail \<Rightarrow> (case asset X method tail query te of (r, te') \<Rightarrow> (Some r, te'))
          | None \<Rightarrow> (Some TesterNotFound, te))"

section \<open>Properties\<close>

lemma record_hit_len: "length hits \<le> Suc MAX_RUNS \<Longrightarrow> length (record_hit run m u hits) \<le> Suc MAX_RUNS"
proof -
  assume h: "length hits \<le> Suc MAX_RUNS"
  have len: "length (AList.update run v hs) = (if map_of hs run = None then Suc (length hs) else length hs)" for v hs
    by (induction hs) auto
  show ?thesis using h by (auto simp: record_hit_def Let_def len)
qed

lemma record_hit_own:
  "\<exists>before. map_of (record_hit run m u hits) run = Some (before @ [\<lparr>hit_method = m, hit_url = u\<rparr>])"
  by (auto simp: record_hit_def Let_def update_conv')

text \<open>Any sequence of requests.\<close>

inductive tester_runs :: "tester_env \<Rightarrow> tester \<Rightarrow> tester \<Rightarrow> bool" for X te0 where
  start: "tester_runs X te0 te0"
| request: "tester_runs X te0 te \<Longrightarrow> tester_runs X te0 (snd (tester_route X m p q h te))"

lemma tester_route_hits:
  "te_hits (snd (tester_route X m p q h te)) = te_hits te \<or>
   (\<exists>run u. te_hits (snd (tester_route X m p q h te)) = record_hit run m u (te_hits te))"
  by (auto simp: tester_route_def asset_def Let_def split: option.split prod.split)

text \<open>however many page loads send requests, the tester remembers at most nine of them.\<close>

theorem tester_memory_bounded:
  assumes "tester_runs X te0 te" "te_hits te0 = []"
  shows "length (te_hits te) \<le> 9"
proof -
  from assms(1) have "length (te_hits te) \<le> Suc MAX_RUNS"
  proof induction
    case (request te m p q h)
    then show ?case using tester_route_hits [of X m p q h te] record_hit_len by fastforce
  qed (simp add: assms(2))
  then show ?thesis by (simp add: MAX_RUNS_def)
qed

text \<open>a test asset that is served is at once listed, with its address, among the arrivals of its own run;
  with the tester switched off no request is answered or recorded.\<close>

theorem tester_arrival_listed:
  assumes "CHR ''/'' \<notin> set run" "CHR ''&'' \<notin> set run"
  shows "let r = tester_route X m (''/test/a/'' @ run @ ''/'' @ name) [] h te in
    if te_enabled te then
      fst r = Some (asset_body X run name) \<and>
      (\<exists>before. fst (tester_route X m' ''/test/hits'' (''run='' @ run) h' (snd r)) =
         Some (ServedHits run (before @ [\<lparr>hit_method = m, hit_url = ''/test/a/'' @ run @ ''/'' @ name\<rparr>])))
    else r = (None, te)"
proof -
  have s: "split CHR ''&'' (''run='' @ run) = [''run='' @ run]" using assms(2) by (intro split_no_sep) simp
  have sp: "split_once CHR ''/'' (run @ ''/'' @ name) = Some (run, name)" using assms(1) by simp
  have r: "hits_run (''run='' @ run) = run" unfolding hits_run_def s by (simp add: List.map_filter_simps)
  obtain before where b: "map_of (record_hit run m (''/test/a/'' @ run @ ''/'' @ name) (te_hits te)) run =
      Some (before @ [\<lparr>hit_method = m, hit_url = ''/test/a/'' @ run @ ''/'' @ name\<rparr>])"
    using record_hit_own by blast
  show ?thesis
    using sp b by (simp add: tester_route_def asset_def hits_json_def r [simplified] Let_def)
qed

text \<open>a change of the switch that is reported as made is in force and survives a restart; one that cannot be
  saved is reported as an error but is in force all the same, until the restart.\<close>

theorem tester_switch_saved:
  assumes "json_text_ok T" "te_path te = (dir @ ''/settings'', ''tester.json'')"
    and "tester_set_enabled T parse_json body te d = (r, te', d')"
  shows "(\<forall>on. r = Inr on \<longrightarrow> te_enabled te' = on \<and> te_enabled (fst (tester_load T dir d')) = on) \<and>
    (\<forall>e. r = Inl (TesterStore e) \<longrightarrow> (\<exists>v. parse_json body = Inr v \<and> get_bool ''enabled'' v = Some (te_enabled te')))"
proof -
  have "te_enabled (fst (tester_load T dir d')) = on \<and> te_enabled te' = on" if "r = Inr on" for on
  proof -
    have p: "tester_persist T (te\<lparr>te_enabled := on\<rparr>) d = (Inr (), d')" "te' = te\<lparr>te_enabled := on\<rparr>"
      using assms(3) that by (auto simp: tester_set_enabled_def Let_def split: sum.splits option.splits prod.splits)
    have "Option.bind (store_read (te_path te) d') (jt_parse T) = Some (JObject [(''enabled'', JBool on)])"
      by (rule store_write_reads [of T _ _ d]) (use p(1) assms(1,2) in \<open>auto simp: tester_persist_def json_text_ok_def\<close>)
    then show ?thesis using p(2) assms(2) by (auto simp: tester_load_def Let_def store_read_def get_bool_def bind_eq_Some_conv)
  qed
  then show ?thesis using assms(3)
    by (auto simp: tester_set_enabled_def Let_def split: sum.splits option.splits prod.splits)
qed

section \<open>Examples\<close>

definition sample_tester_env :: tester_env where
  "sample_tester_env = \<lparr>tx_page = ''page'', tx_rules = ''||{{TP}}^'', tx_frame = ''{{RUN}}/{{NAME}}'', tx_others = ''others'',
     tx_gif = ''GIF'', tx_header_ok = (\<lambda>_. True)\<rparr>"

definition sample_tester :: tester where
  "sample_tester = \<lparr>te_enabled = True, te_path = (''data/settings'', ''tester.json''), te_hits = []\<rparr>"

definition blank_disk :: disk where
  "blank_disk = \<lparr>files = (\<lambda>_. None), mkdir_fault = (\<lambda>_. None), write_fault = (\<lambda>_. None), remove_fault = (\<lambda>_. None)\<rparr>"

definition sample_tester_text :: json_text where
  "sample_tester_text = \<lparr>jt_parse = (\<lambda>t. if t = ''off'' then Some (JObject [(''enabled'', JBool False)]) else None),
     jt_print = (\<lambda>v. if v = JObject [(''enabled'', JBool False)] then Inr ''off'' else Inl ''unprintable'')\<rparr>"

theorem tester_memory_bounded_witness:
  "length (te_hits (snd (tester_route sample_tester_env ''GET'' ''/test/a/r/x.gif'' [] ''localhost'' sample_tester))) \<le> 9"
  by (rule tester_memory_bounded [OF tester_runs.request [OF tester_runs.start]]) (simp add: sample_tester_def)

theorem tester_arrival_listed_witness:
  "let r = tester_route sample_tester_env ''GET'' ''/test/a/r/x.html'' [] ''localhost'' sample_tester in
   fst r = Some (html_page ''r/x'') \<and>
   (\<exists>before. fst (tester_route sample_tester_env ''GET'' ''/test/hits'' ''run=r'' ''localhost'' (snd r)) =
      Some (ServedHits ''r'' (before @ [\<lparr>hit_method = ''GET'', hit_url = ''/test/a/r/x.html''\<rparr>])))"
proof -
  have b: "asset_body sample_tester_env ''r'' ''x.html'' = html_page ''r/x''" by code_simp
  show ?thesis
    using tester_arrival_listed [of "''r''" sample_tester_env "''GET''" "''x.html''" "''localhost''" sample_tester "''GET''" "''localhost''"] b
    by (simp add: Let_def sample_tester_def)
qed

theorem tester_switch_saved_witness:
  "let (r, te', d') = tester_set_enabled sample_tester_text (\<lambda>_. Inr (JObject [(''enabled'', JBool False)])) [] sample_tester blank_disk
   in r = Inr False \<and> \<not> te_enabled (fst (tester_load sample_tester_text ''data'' d'))"
proof -
  let ?r = "tester_set_enabled sample_tester_text (\<lambda>_. Inr (JObject [(''enabled'', JBool False)])) [] sample_tester blank_disk"
  have j: "json_text_ok sample_tester_text" by (auto simp: json_text_ok_def sample_tester_text_def split: if_splits)
  have p: "te_path sample_tester = (''data'' @ ''/settings'', ''tester.json'')" by (simp add: sample_tester_def)
  have "?r = (fst ?r, fst (snd ?r), snd (snd ?r))" by simp
  note s = tester_switch_saved [OF j p this, THEN conjunct1, rule_format, of False]
  have "fst ?r = Inr False"
    by (simp add: tester_set_enabled_def get_bool_def tester_persist_def store_write_def create_parent_def write_file_def
        sample_tester_def sample_tester_text_def map_err_def Let_def blank_disk_def)
  then show ?thesis using s by (simp add: case_prod_beta)
qed

end
