(* ===== verification/Web_Admin.thy ===== *)
theory Web_Admin
  imports Web_Query Adblock_Admin Proxy_Exclusions Proxy_Egress Tester
begin

text \<open>
  The admin server, \<open>web/mod.rs\<close> with the handlers of \<open>web/stats.rs\<close>, \<open>web/server.rs\<close>, \<open>web/dns.rs\<close>,
  \<open>web/exclusions.rs\<close>, \<open>web/meta.rs\<close> and \<open>web/blocklists.rs\<close>: one state with every component behind the
  server, and \<open>execute\<close>, which sends each POST to its component. A reply is its status; the JSON it
  renders is not modelled. The statistics are shared by all components: \<open>ad_state\<close> holds them, and the
  runtimes of the proxy and of DNS are run on them.
\<close>

section \<open>State and environment\<close>

abbreviation OK :: nat where "OK \<equiv> 200"
abbreviation BAD_REQUEST :: nat where "BAD_REQUEST \<equiv> 400"
abbreviation NOT_FOUND :: nat where "NOT_FOUND \<equiv> 404"
abbreviation BAD_GATEWAY :: nat where "BAD_GATEWAY \<equiv> 502"

record ('e, 'r, 's, 'n, 'c, 'a, 'b) admin =
  ad_state :: shared_state
  ad_disk :: disk
  ad_lists :: "('e, 'r, 's) curation"
  ad_net :: 'n
  ad_blocker :: "'e ad_blocker"
  ad_exclusions :: exclusion_store
  ad_proxy :: proxy_runtime
  ad_dns :: "'c dns_runtime"
  ad_egress :: "('a, 'b) egress"
  ad_certs :: cert_store
  ad_tester :: tester

text \<open>What the components need from outside: parsers and printers, engines, sockets, the network.\<close>

record ('e, 'r, 's, 'n, 'f, 'c, 'm, 'a, 'b, 'q) web_env =
  we_log :: log_env
  we_json :: "bytes \<Rightarrow> string + json"
  we_uni :: "string \<Rightarrow> string"
  we_text :: json_text
  we_engine :: "('e, 'r) engine_ops"
  we_store :: "'s store_ops"
  we_fetch :: "string \<Rightarrow> 'n \<Rightarrow> ('f + string) \<times> 'n"
  we_scriptlets :: "'r scriptlet_refresh"
  we_library :: "'r list \<Rightarrow> scriptlets"
  we_show_scriptlets :: "scriptlet_error \<Rightarrow> string"
  we_match :: "('e, 'q) match_ops"
  we_decisions :: "decision_overrides \<Rightarrow> string"
  we_deps :: "('c, 'm) dns_deps"
  we_dns_to :: "dns_overrides \<Rightarrow> string"
  we_dns_of :: "string \<Rightarrow> dns_overrides option"
  we_ask :: "socket_addr \<Rightarrow> 'm boot_reply"
  we_probe :: "string \<Rightarrow> u16 option"
  we_attempts :: "nat \<Rightarrow> 'm attempt"
  we_mode :: "json \<Rightarrow> upstream_mode option"
  we_listen_to :: "server_overrides \<Rightarrow> string"
  we_dns_os :: "proto \<Rightarrow> socket_addr \<Rightarrow> string option"
  we_proxy_os :: "socket_addr \<Rightarrow> string option"
  we_addrs :: "'a addr_lru"
  we_echs :: "'b ech_lru"
  we_certs :: cert_lib
  we_cert_raw :: "bytes \<Rightarrow> string + cert_raw"
  we_stats :: "bytes \<Rightarrow> string + stats_overrides"
  we_bodies :: body_codec
  we_decoders :: decoders
  we_lossy :: "string \<Rightarrow> string"
  we_header_ok :: "string \<Rightarrow> bool"
  we_tester :: tester_env

definition web_event where
  "web_event W kind msg ad =
     ad\<lparr>ad_state := log_event (le_codecs (we_log W)) (le_io_ok (we_log W)) (le_ms (we_log W)) (le_trace (we_log W)) kind msg (ad_state ad)\<rparr>"

definition ok_status :: "'x + 'y \<Rightarrow> nat" where
  "ok_status r = (case r of Inl _ \<Rightarrow> BAD_REQUEST | Inr _ \<Rightarrow> OK)"

section \<open>Lists and decisions\<close>

text \<open>The lists and the blocker share one core: what the lists become, the blocker sees.\<close>

definition with_lists where
  "with_lists W c ad =
     ad\<lparr>ad_lists := c, ad_blocker := (ad_blocker ad)\<lparr>ab_engine := cu_engine c, ab_lists := cu_lists c,
          ab_scriptlets := we_library W (cu_resources c)\<rparr>\<rparr>"

definition from_lists where
  "from_lists W w ad = (with_lists W (la_cur w) ad)\<lparr>ad_state := la_state w, ad_net := la_net w\<rparr>"

definition to_lists where
  "to_lists ad = \<lparr>la_cur = ad_lists ad, la_state = ad_state ad, la_net = ad_net ad\<rparr>"

fun list_status :: "'f list_reply \<Rightarrow> nat" where
  "list_status (ListsShown _) = OK"
| "list_status (NoListNamed _) = NOT_FOUND"
| "list_status (ListRefused _) = BAD_REQUEST"
| "list_status (BadGateway _ _) = BAD_GATEWAY"
| "list_status (BadCommand _) = BAD_REQUEST"

definition post_blocklists where
  "post_blocklists W body ad =
     (case add_blocklist (we_json W) (we_uni W) (we_engine W) (we_store W) (we_log W) (we_fetch W) body (to_lists ad) of
        (r, w) \<Rightarrow> (list_status r, from_lists W w ad))"

definition post_scriptlets where
  "post_scriptlets W ad =
     (case update_scriptlets (we_engine W) (we_store W) (we_log W) (we_show_scriptlets W) (we_scriptlets W) (to_lists ad) of
        (r, w) \<Rightarrow> (case r of Inl _ \<Rightarrow> BAD_GATEWAY | Inr _ \<Rightarrow> OK, from_lists W w ad))"

definition show_bool :: "bool \<Rightarrow> string" where
  "show_bool b = (if b then ''true'' else ''false'')"

definition edit_adblock_config where
  "edit_adblock_config W body ad =
     (case set_decisions (we_decisions W) (we_json W) body (ad_blocker ad) (ad_disk ad) of
        (Inl _, ab, d) \<Rightarrow> (BAD_REQUEST, ad\<lparr>ad_blocker := ab, ad_disk := d\<rparr>)
      | (Inr s, ab, d) \<Rightarrow>
          (OK, web_event W EvInfo
             (''adblock: redirect='' @ show_bool (ds_redirect s) @ '' removeparam='' @ show_bool (ds_removeparam s) @
              '' csp='' @ show_bool (ds_csp s) @ ''; page injection: cosmetic='' @ show_bool (ds_cosmetic s) @
              '' scriptlets='' @ show_bool (ds_scriptlets s) @ '' runtime='' @ show_bool (ds_runtime s))
             (ad\<lparr>ad_blocker := ab, ad_disk := d\<rparr>)))"

text \<open>The queries: the decision shown, or a refusal.\<close>

definition check_rule where
  "check_rule W body ad =
     and_then (parse_rule_test (we_json W) body) (\<lambda>t. Inr (check (we_match W) (ad_blocker ad) (rt_url t) (rt_source t) (rt_type t)))"

definition check_dns_rule where
  "check_dns_rule W body ad = and_then (parse_dns_rule_test (we_json W) body) (\<lambda>dm. Inr (check_dns (we_match W) (ad_blocker ad) dm))"

definition cosmetic_for_page where
  "cosmetic_for_page W body ad =
     and_then (parse_cosmetic_query (we_json W) body) (\<lambda>q.
       Inr (cosmetic_css_for_names (we_match W) (ad_blocker ad) (cq_url q) (cq_classes q) (cq_ids q)))"

section \<open>Statistics\<close>

definition stats_config where
  "stats_config W body ad =
     (case we_stats W body of
        Inl _ \<Rightarrow> (BAD_REQUEST, ad)
      | Inr change \<Rightarrow>
          (case apply_stats_settings (le_codecs (we_log W)) change (ad_state ad) (ad_disk ad) of
             (Inl _, s, d) \<Rightarrow> (BAD_REQUEST, ad\<lparr>ad_state := s, ad_disk := d\<rparr>)
           | (Inr _, s, d) \<Rightarrow>
               (OK, web_event W EvInfo
                  (''stats settings: retention '' @ show_nat (unat (unwrap_or (so_retention (stats_settings s)) 0)) @
                   '' h, log rotation '' @ show_nat (unat (unwrap_or (so_rotate (stats_settings s)) 0)) @ '' h'')
                  (ad\<lparr>ad_state := s, ad_disk := d\<rparr>))))"

definition with_stats_exclusions where
  "with_stats_exclusions x d ad = ad\<lparr>ad_state := (ad_state ad)\<lparr>exclusions := Some x\<rparr>, ad_disk := d\<rparr>"

definition edit_stats_exclusions where
  "edit_stats_exclusions W body ad =
     (case parse_se_command (we_json W) body of
        Inl _ \<Rightarrow> (BAD_REQUEST, ad)
      | Inr cmd \<Rightarrow>
          (case exclusions (ad_state ad) of
             None \<Rightarrow> (BAD_REQUEST, ad)
           | Some store \<Rightarrow>
               (case cmd of
                  SeDelete dm \<Rightarrow>
                    (case se_remove (we_uni W) dm store (ad_disk ad) of
                       (Inl _, x, d) \<Rightarrow> (BAD_REQUEST, with_stats_exclusions x d ad)
                     | (Inr removed, x, d) \<Rightarrow>
                         (OK, if removed then web_event W EvInfo (''stats exclusion removed: '' @ dm) (with_stats_exclusions x d ad)
                               else with_stats_exclusions x d ad))
                | SeAdd dm \<Rightarrow>
                    (case se_add (we_uni W) dm store (ad_disk ad) of
                       (Inl _, x, d) \<Rightarrow> (BAD_REQUEST, with_stats_exclusions x d ad)
                     | (Inr _, x, d) \<Rightarrow> (OK, web_event W EvInfo (''stats exclusion added: '' @ dm) (with_stats_exclusions x d ad))))))"

definition with_service where
  "with_service sv ad = ad\<lparr>ad_dns := (ad_dns ad)\<lparr>rt_service := sv\<rparr>\<rparr>"

definition stats_reset where
  "stats_reset W ad =
     (OK, web_event W EvInfo ''statistics reset''
        (with_service (reset_upstream_stats (rt_service (ad_dns ad))) (ad\<lparr>ad_state := reset_all (ad_state ad)\<rparr>)))"

definition clear_errors where
  "clear_errors W ad =
     (OK, ad\<lparr>ad_state := (ad_state ad)\<lparr>errors := snd (error_log_clear (le_io_ok (we_log W)) (errors (ad_state ad)))\<rparr>\<rparr>)"

section \<open>Listeners and egress\<close>

definition apply_proxy where
  "apply_proxy W body ad =
     (case proxy_apply_raw (we_text W) (we_json W) (we_proxy_os W) (we_log W) body ((ad_proxy ad)\<lparr>pr_state := ad_state ad\<rparr>) (ad_disk ad) of
        (r, rt, d) \<Rightarrow> (r, ad\<lparr>ad_proxy := rt, ad_state := pr_state rt, ad_disk := d\<rparr>))"

definition apply_dns where
  "apply_dns W body ad =
     (case apply_raw (we_listen_to W) (we_json W) (we_dns_os W) (we_log W) body ((ad_dns ad)\<lparr>rt_state := ad_state ad\<rparr>) (ad_disk ad) of
        (r, rt, d) \<Rightarrow> (r, ad\<lparr>ad_dns := rt, ad_state := rt_state rt, ad_disk := d\<rparr>))"

text \<open>The proxy takes its keys first; DNS is asked only when the proxy accepted.\<close>

definition edit_server_config where
  "edit_server_config W body ad =
     (case apply_proxy W body ad of
        (Inl _, ad1) \<Rightarrow> (BAD_REQUEST, ad1)
      | (Inr _, ad1) \<Rightarrow> (case apply_dns W body ad1 of (r, ad2) \<Rightarrow> (ok_status r, ad2)))"

definition edit_proxy_config where
  "edit_proxy_config W body ad =
     (case parse_egress (we_json W) body of
        Inl _ \<Rightarrow> (BAD_REQUEST, ad)
      | Inr upd \<Rightarrow>
          (case egress_apply (we_text W) (we_addrs W) (we_echs W) upd (ad_egress ad) (ad_disk ad) of
             (s, eg, d) \<Rightarrow>
               (OK, web_event W EvInfo
                  (''proxy egress: resolver-only='' @ show_bool (es_resolver_only s) @ '' disable-ipv6='' @ show_bool (es_disable_ipv6 s))
                  (ad\<lparr>ad_egress := eg, ad_disk := d\<rparr>))))"

definition post_exclusions where
  "post_exclusions W body ad =
     (case parse_exclusion_command (we_json W) body of
        Inl _ \<Rightarrow> (BAD_REQUEST, ad)
      | Inr cmd \<Rightarrow>
          (case run_exclusion (we_uni W) cmd (ad_exclusions ad) (ad_disk ad) of
             (Inl _, x, d) \<Rightarrow> (BAD_REQUEST, ad\<lparr>ad_exclusions := x, ad_disk := d\<rparr>)
           | (Inr None, x, d) \<Rightarrow> (OK, ad\<lparr>ad_exclusions := x, ad_disk := d\<rparr>)
           | (Inr (Some msg), x, d) \<Rightarrow> (OK, web_event W EvInfo msg (ad\<lparr>ad_exclusions := x, ad_disk := d\<rparr>))))"

definition post_certs where
  "post_certs W body ad =
     (case edit_certs (we_certs W) (we_log W) (we_cert_raw W) body (ad_certs ad) (ad_state ad) of
        (r, st, s) \<Rightarrow> (ok_status r, ad\<lparr>ad_certs := st, ad_state := s\<rparr>))"

definition set_tester_enabled where
  "set_tester_enabled W body ad =
     (case tester_set_enabled (we_text W) (we_json W) body (ad_tester ad) (ad_disk ad) of
        (Inl _, te, d) \<Rightarrow> (BAD_REQUEST, ad\<lparr>ad_tester := te, ad_disk := d\<rparr>)
      | (Inr on, te, d) \<Rightarrow>
          (OK, web_event W EvInfo (''rule-type tester '' @ (if on then ''enabled'' else ''disabled'')) (ad\<lparr>ad_tester := te, ad_disk := d\<rparr>)))"

section \<open>DNS\<close>

definition arrow :: string where "arrow = '' '' @ [CHR 0xE2, CHR 0x86, CHR 0x92] @ '' ''"

definition with_rewrites where
  "with_rewrites rw d ad = (with_service ((rt_service (ad_dns ad))\<lparr>sv_rewrites := rw\<rparr>) ad)\<lparr>ad_disk := d\<rparr>"

fun run_rewrite_web where
  "run_rewrite_web W (DeleteRewrite dm an) ad =
     (case remove_rewrite dm an (sv_rewrites (rt_service (ad_dns ad))) (ad_disk ad) of
        (Inl _, rw, d) \<Rightarrow> (BAD_REQUEST, with_rewrites rw d ad)
      | (Inr removed, rw, d) \<Rightarrow>
          (OK, if removed then web_event W EvInfo (''dns rewrite removed: '' @ dm @ arrow @ an) (with_rewrites rw d ad)
                else with_rewrites rw d ad))"
| "run_rewrite_web W (AddRewrite dm an) ad =
     (case add_rewrite dm an (sv_rewrites (rt_service (ad_dns ad))) (ad_disk ad) of
        (Inl _, rw, d) \<Rightarrow> (BAD_REQUEST, with_rewrites rw d ad)
      | (Inr _, rw, d) \<Rightarrow> (OK, web_event W EvInfo (''dns rewrite added: '' @ dm @ arrow @ an) (with_rewrites rw d ad)))"
| "run_rewrite_web W (SetEnabledRewrite dm an en) ad =
     (case set_enabled_rewrite dm an en (sv_rewrites (rt_service (ad_dns ad))) (ad_disk ad) of
        (Inl _, rw, d) \<Rightarrow> (BAD_REQUEST, with_rewrites rw d ad)
      | (Inr found, rw, d) \<Rightarrow>
          (OK, if found then web_event W EvInfo (''dns rewrite '' @ (if en then ''enabled'' else ''disabled'') @ '': '' @ dm @ arrow @ an) (with_rewrites rw d ad)
                else with_rewrites rw d ad))"

definition edit_rewrites where
  "edit_rewrites W body ad =
     (case parse_rewrite_command (we_json W) body of Inl _ \<Rightarrow> (BAD_REQUEST, ad) | Inr cmd \<Rightarrow> run_rewrite_web W cmd ad)"

definition edit_dns_upstreams where
  "edit_dns_upstreams W body ad =
     (case parse_upstream_command (we_json W) (we_uni W) body of
        Inl _ \<Rightarrow> (BAD_REQUEST, ad)
      | Inr cmd \<Rightarrow>
          (case edit_upstreams (we_deps W) (we_dns_to W) (we_dns_of W) (we_ask W) (we_probe W) (we_attempts W) cmd
                  (rt_service (ad_dns ad)) (ad_disk ad) of
             (Inl _, sv, d) \<Rightarrow> (BAD_REQUEST, (with_service sv ad)\<lparr>ad_disk := d\<rparr>)
           | (Inr msg, sv, d) \<Rightarrow> (OK, web_event W EvInfo msg ((with_service sv ad)\<lparr>ad_disk := d\<rparr>))))"

definition post_probe_ech where
  "post_probe_ech W ad =
     (case probe_ech_now (we_probe W) (we_attempts W) (rt_service (ad_dns ad)) of (r, sv) \<Rightarrow> (ok_status r, with_service sv ad))"

definition run_dns_config where
  "run_dns_config W cmd ad =
     (case cmd of
        ResetDns \<Rightarrow> reset_settings (dd_lru (we_deps W)) (rt_service (ad_dns ad)) (ad_disk ad)
      | ApplyDns upd \<Rightarrow> apply_settings (dd_lru (we_deps W)) (we_dns_to W) (we_dns_of W) upd (rt_service (ad_dns ad)) (ad_disk ad))"

definition edit_dns_config where
  "edit_dns_config W body ad =
     (case parse_dns_config_command (we_json W) (we_mode W) body of
        Inl _ \<Rightarrow> (BAD_REQUEST, ad)
      | Inr cmd \<Rightarrow>
          (case run_dns_config W cmd ad of
             (Inl _, sv, d) \<Rightarrow> (BAD_REQUEST, (with_service sv ad)\<lparr>ad_disk := d\<rparr>)
           | (Inr _, sv, d) \<Rightarrow>
               (OK, web_event W EvInfo
                  (case cmd of ResetDns \<Rightarrow> ''dns settings reset to base config'' | ApplyDns _ \<Rightarrow> ''dns settings updated'')
                  ((with_service sv ad)\<lparr>ad_disk := d\<rparr>))))"

definition post_flush where
  "post_flush W ad =
     (case flush_cache (dd_lru (we_deps W)) (le_codecs (we_log W)) (le_io_ok (we_log W)) (le_ms (we_log W))
             (rt_service (ad_dns ad)) (ad_state ad) of
        (n, sv, s) \<Rightarrow> (OK, (with_service sv ad)\<lparr>ad_state := s\<rparr>))"

section \<open>Dispatch\<close>

definition execute where
  "execute W pth body ad =
     (if pth = ''/api/scriptlets/update'' then post_scriptlets W ad
      else if pth = ''/api/stats/reset'' then stats_reset W ad
      else if pth = ''/api/stats/config'' then stats_config W body ad
      else if pth = ''/api/stats/exclusions'' then edit_stats_exclusions W body ad
      else if pth = ''/api/errors/clear'' then clear_errors W ad
      else if pth = ''/api/server/config'' then edit_server_config W body ad
      else if pth = ''/api/proxy/config'' then edit_proxy_config W body ad
      else if pth = ''/api/certs'' then post_certs W body ad
      else if pth = ''/api/blocklists'' then post_blocklists W body ad
      else if pth = ''/api/exclusions'' then post_exclusions W body ad
      else if pth = ''/api/adblock/config'' then edit_adblock_config W body ad
      else if pth = ''/api/tester/config'' then set_tester_enabled W body ad
      else if pth = ''/api/check'' then (ok_status (check_rule W body ad), ad)
      else if pth = ''/api/cosmetic'' then (ok_status (cosmetic_for_page W body ad), ad)
      else if pth = ''/api/dns/flush'' then post_flush W ad
      else if pth = ''/api/dns/test'' then (ok_status (check_dns_rule W body ad), ad)
      else if pth = ''/api/dns/rewrites'' then edit_rewrites W body ad
      else if pth = ''/api/dns/config'' then edit_dns_config W body ad
      else if pth = ''/api/dns/upstreams'' then edit_dns_upstreams W body ad
      else if pth = ''/api/dns/ech-probe'' then post_probe_ech W ad
      else (NOT_FOUND, ad))"

text \<open>A read: its status, or none when the handler panics.\<close>

fun cert_status :: "cert_reply \<Rightarrow> nat option" where
  "cert_status (CertFile _ _) = Some OK"
| "cert_status (CertError _) = Some NOT_FOUND"
| "cert_status CertPanic = None"

definition plain_reads :: "string list" where
  "plain_reads = [''/'', ''/api/stream'', ''/api/requests'', ''/api/queries'', ''/api/stats'', ''/api/errors'', ''/api/scriptlets'', ''/api/scriptlet'',
     ''/api/adblock'', ''/api/blocklists'', ''/api/blocklist'', ''/api/exclusions'', ''/api/stats/exclusions'', ''/api/server'', ''/api/proxy'',
     ''/api/dns'', ''/api/dns/rewrites'', ''/api/certs'', ''/api/tester'']"

definition read_status where
  "read_status W pth query ad =
     (if pth \<in> set plain_reads then Some OK
      else if pth = ''/api/request'' then
        Some (case detail_reply (le_codecs (we_log W)) query (ad_state ad) of None \<Rightarrow> BAD_REQUEST | Some _ \<Rightarrow> OK)
      else if pth = ''/api/request/body'' then
        Some (body_status (body_decode_reply (le_codecs (we_log W)) (we_bodies W) (we_decoders W) query (ad_state ad)))
      else if pth = ''/api/cert'' then cert_status (cert_download (we_lossy W) (we_header_ok W) (we_certs W) query (ad_certs ad))
      else if pth = ''/ca-cert.pem'' then cert_status (cert_download (we_lossy W) (we_header_ok W) (we_certs W) [] (ad_certs ad))
      else Some NOT_FOUND)"

fun tester_status :: "tester_response \<Rightarrow> nat" where
  "tester_status TesterNotFound = NOT_FOUND"
| "tester_status _ = OK"

text \<open>The body is \<open>None\<close> when it cannot be read. The stream of live updates connects a listener.\<close>

definition route where
  "route W method pth query host body ad =
     (case tester_route (we_tester W) method pth query host (ad_tester ad) of
        (Some r, te) \<Rightarrow> (Some (tester_status r), ad\<lparr>ad_tester := te\<rparr>)
      | (None, te) \<Rightarrow>
          if method = ''GET'' then
            (read_status W pth query ad,
             if pth = ''/api/stream'' then ad\<lparr>ad_tester := te, ad_state := (ad_state ad)\<lparr>ui_connected := True\<rparr>\<rparr>
             else ad\<lparr>ad_tester := te\<rparr>)
          else if method = ''POST'' then
            (case body of
               None \<Rightarrow> (Some BAD_REQUEST, ad\<lparr>ad_tester := te\<rparr>)
             | Some b \<Rightarrow> (case execute W pth b (ad\<lparr>ad_tester := te\<rparr>) of (st, ad') \<Rightarrow> (Some st, ad')))
          else (Some NOT_FOUND, ad\<lparr>ad_tester := te\<rparr>))"

section \<open>Every component stays in order\<close>


definition admin_ok where
  "admin_ok uni E S X ad \<longleftrightarrow>
     runtime_inv (ad_dns ad) \<and> service_inv (rt_service (ad_dns ad)) \<and> proxy_inv (ad_proxy ad) \<and>
     curation_reach uni E S (ad_lists ad) \<and> cas_ok X (ad_certs ad) \<and> length (te_hits (ad_tester ad)) \<le> 9 \<and>
     ab_engine (ad_blocker ad) = cu_engine (ad_lists ad) \<and> ab_lists (ad_blocker ad) = cu_lists (ad_lists ad)"

lemma web_event_fields [simp]:
  "ad_dns (web_event W k m ad) = ad_dns ad" "ad_proxy (web_event W k m ad) = ad_proxy ad"
  "ad_lists (web_event W k m ad) = ad_lists ad" "ad_certs (web_event W k m ad) = ad_certs ad"
  "ad_tester (web_event W k m ad) = ad_tester ad" "ad_blocker (web_event W k m ad) = ad_blocker ad"
  by (simp_all add: web_event_def)

lemma web_event_ok [simp]: "admin_ok uni E S X (web_event W k m ad) = admin_ok uni E S X ad"
  by (simp add: admin_ok_def)

lemma admin_ok_frame [simp]:
  "admin_ok uni E S X (ad\<lparr>ad_state := s\<rparr>) = admin_ok uni E S X ad"
  "admin_ok uni E S X (ad\<lparr>ad_disk := d\<rparr>) = admin_ok uni E S X ad"
  "admin_ok uni E S X (ad\<lparr>ad_net := n\<rparr>) = admin_ok uni E S X ad"
  "admin_ok uni E S X (ad\<lparr>ad_exclusions := x\<rparr>) = admin_ok uni E S X ad"
  "admin_ok uni E S X (ad\<lparr>ad_egress := eg\<rparr>) = admin_ok uni E S X ad"
  by (simp_all add: admin_ok_def)

text \<open>The operations of the DNS service keep its address.\<close>

lemma with_service_ok:
  "admin_ok uni E S X ad \<Longrightarrow> service_inv sv \<Longrightarrow> sv_listen sv = sv_listen (rt_service (ad_dns ad)) \<Longrightarrow>
   admin_ok uni E S X (with_service sv ad)"
  by (auto simp: admin_ok_def with_service_def runtime_inv_def split: option.splits)

lemma realize_listen: "realize L eff save sv d = (r, sv', d') \<Longrightarrow> sv_listen sv' = sv_listen sv"
  by (auto simp: realize_def split: sum.splits prod.splits)

lemma apply_listen: "apply_settings L tj oj upd sv d = (r, sv', d') \<Longrightarrow> sv_listen sv' = sv_listen sv"
  by (auto simp: apply_settings_def dest: realize_listen)

lemma reset_listen: "reset_settings L sv d = (r, sv', d') \<Longrightarrow> sv_listen sv' = sv_listen sv"
  by (auto simp: reset_settings_def dest: realize_listen)

lemma edit_listen: "edit_upstreams D tj oj ask probe att cmd sv d = (r, sv', d') \<Longrightarrow> sv_listen sv' = sv_listen sv"
  by (auto simp: edit_upstreams_def Let_def split: sum.splits prod.splits option.splits if_splits dest!: apply_listen)

lemma admin_ok_service: "admin_ok uni E S X ad \<Longrightarrow> service_inv (rt_service (ad_dns ad))"
  by (simp add: admin_ok_def)

lemma dns_config_ok:
  assumes "admin_ok uni E S X ad"
  shows "admin_ok uni E S X (snd (edit_dns_config W body ad))"
proof (cases "parse_dns_config_command (we_json W) (we_mode W) body")
  case (Inr cmd)
  obtain r sv d where r: "run_dns_config W cmd ad = (r, sv, d)" by (cases "run_dns_config W cmd ad")
  have "service_inv sv" "sv_listen sv = sv_listen (rt_service (ad_dns ad))"
    using r admin_ok_service [OF assms]
    by (auto simp: run_dns_config_def dest: reset_inv apply_inv reset_listen apply_listen split: dns_config_command.splits)
  then have "admin_ok uni E S X (with_service sv ad)" by (rule with_service_ok [OF assms])
  then show ?thesis by (simp add: edit_dns_config_def Inr r split: sum.split)
qed (simp add: edit_dns_config_def assms)

lemma dns_upstreams_ok:
  assumes "admin_ok uni E S X ad"
  shows "admin_ok uni E S X (snd (edit_dns_upstreams W body ad))"
proof (cases "parse_upstream_command (we_json W) (we_uni W) body")
  case (Inr cmd)
  obtain r sv d where r: "edit_upstreams (we_deps W) (we_dns_to W) (we_dns_of W) (we_ask W) (we_probe W) (we_attempts W) cmd
      (rt_service (ad_dns ad)) (ad_disk ad) = (r, sv, d)" by (metis prod_cases3)
  have "admin_ok uni E S X (with_service sv ad)"
    by (rule with_service_ok [OF assms edit_inv [OF r admin_ok_service [OF assms]] edit_listen [OF r]])
  then show ?thesis by (simp add: edit_dns_upstreams_def Inr r split: sum.split)
qed (simp add: edit_dns_upstreams_def assms)

lemma probe_ok:
  assumes "admin_ok uni E S X ad"
  shows "admin_ok uni E S X (snd (post_probe_ech W ad))"
proof -
  let ?sv = "snd (probe_ech_now (we_probe W) (we_attempts W) (rt_service (ad_dns ad)))"
  have "service_inv ?sv" "sv_listen ?sv = sv_listen (rt_service (ad_dns ad))"
    using admin_ok_service [OF assms] resolver_matches_probe
    by (auto simp: probe_ech_now_def case_prod_beta service_inv_def service_ok_def)
  then show ?thesis using with_service_ok [OF assms] by (simp add: post_probe_ech_def case_prod_beta)
qed

lemma reset_stats_ok:
  assumes "admin_ok uni E S X ad"
  shows "admin_ok uni E S X (snd (stats_reset W ad))"
  using assms by (auto simp: stats_reset_def reset_upstream_stats_def admin_ok_def with_service_def runtime_inv_def
      service_inv_def service_ok_def resolver_matches_reset split: option.splits)

lemma flush_web_ok:
  assumes "admin_ok uni E S X ad"
  shows "admin_ok uni E S X (snd (post_flush W ad))"
proof -
  let ?f = "flush_cache (dd_lru (we_deps W)) (le_codecs (we_log W)) (le_io_ok (we_log W)) (le_ms (we_log W))
      (rt_service (ad_dns ad)) (ad_state ad)"
  have "service_ok (rt_service (ad_dns ad))" using admin_ok_service [OF assms] by (simp add: service_inv_def)
  then have "service_ok (fst (snd ?f))" by (rule flush_ok)
  then have "service_inv (fst (snd ?f))" "sv_listen (fst (snd ?f)) = sv_listen (rt_service (ad_dns ad))"
    using admin_ok_service [OF assms] by (auto simp: flush_cache_def service_inv_def case_prod_beta)
  then show ?thesis using with_service_ok [OF assms] by (simp add: post_flush_def case_prod_beta)
qed

lemma with_rewrites_ok: "admin_ok uni E S X ad \<Longrightarrow> admin_ok uni E S X (with_rewrites rw d ad)"
  by (auto simp: with_rewrites_def with_service_def admin_ok_def runtime_inv_def service_inv_def service_ok_def split: option.splits)

lemma rewrites_ok: "admin_ok uni E S X ad \<Longrightarrow> admin_ok uni E S X (snd (edit_rewrites W body ad))"
proof -
  assume ok: "admin_ok uni E S X ad"
  have "admin_ok uni E S X (snd (run_rewrite_web W cmd ad))" for cmd
    by (cases cmd) (auto simp: with_rewrites_ok [OF ok] split: prod.split sum.split)
  then show ?thesis by (simp add: edit_rewrites_def ok split: sum.split)
qed

lemma apply_raw_service:
  assumes "apply_raw tj pj os L body rt d = (r, rt', d')"
  shows "\<exists>a. rt_service rt' = (rt_service rt)\<lparr>sv_listen := a\<rparr>"
proof -
  have same: "\<exists>a. sv = sv\<lparr>sv_listen := a\<rparr>" for sv :: "'a dns_service" by (rule exI [of _ "sv_listen sv"]) simp
  have stop: "rt_service (stop_old rt) = rt_service rt" by (simp add: stop_old_def shutdown_def split: option.split)
  have inst: "rt_service (fst (install tj L w en li h x d)) = rt_service x" for w en li h x d
    by (simp add: install_def Let_def case_prod_beta split: sum.split)
  have app: "\<exists>a. rt_service (fst (snd (runtime_apply tj os L en li rt d))) = (rt_service rt)\<lparr>sv_listen := a\<rparr>" for en li
    using same [of "rt_service rt"]
    by (auto simp: runtime_apply_def Let_def start_def stop case_prod_beta inst split: sum.split)
  show ?thesis using assms app same [of "rt_service rt"]
    by (auto simp: apply_raw_def Let_def split: sum.splits option.splits prod.splits if_splits) (metis fst_conv snd_conv)+
qed

lemma apply_dns_ok:
  assumes "admin_ok uni E S X ad"
  shows "admin_ok uni E S X (snd (apply_dns W body ad))"
proof -
  let ?rt = "(ad_dns ad)\<lparr>rt_state := ad_state ad\<rparr>"
  obtain r rt d where r: "apply_raw (we_listen_to W) (we_json W) (we_dns_os W) (we_log W) body ?rt (ad_disk ad) = (r, rt, d)"
    by (metis prod_cases3)
  have "runtime_inv ?rt" using assms by (simp add: admin_ok_def runtime_inv_def cong: option.case_cong)
  then have "runtime_inv rt" by (rule apply_raw_inv [OF r])
  moreover have "service_inv (rt_service rt)"
    using apply_raw_service [OF r] admin_ok_service [OF assms] by (auto simp: service_inv_def service_ok_def)
  ultimately show ?thesis using assms by (simp add: apply_dns_def r admin_ok_def)
qed

lemma proxy_raw_inv:
  "proxy_apply_raw T pj os L body rt d = (r, rt', d') \<Longrightarrow> proxy_inv rt \<Longrightarrow> proxy_inv rt'"
  by (auto simp: proxy_apply_raw_def Let_def dest: proxy_apply_inv(1) split: sum.splits option.splits prod.splits if_splits)

lemma apply_proxy_ok:
  assumes "admin_ok uni E S X ad"
  shows "admin_ok uni E S X (snd (apply_proxy W body ad))"
proof -
  let ?rt = "(ad_proxy ad)\<lparr>pr_state := ad_state ad\<rparr>"
  obtain r rt d where r: "proxy_apply_raw (we_text W) (we_json W) (we_proxy_os W) (we_log W) body ?rt (ad_disk ad) = (r, rt, d)"
    by (metis prod_cases3)
  have "proxy_inv ?rt" using assms by (simp add: admin_ok_def proxy_inv_def cong: option.case_cong)
  then have "proxy_inv rt" by (rule proxy_raw_inv [OF r])
  then show ?thesis using assms by (simp add: apply_proxy_def r admin_ok_def)
qed

lemma server_config_ok:
  assumes "admin_ok uni E S X ad"
  shows "admin_ok uni E S X (snd (edit_server_config W body ad))"
proof -
  obtain r ad1 where r: "apply_proxy W body ad = (r, ad1)" by (cases "apply_proxy W body ad")
  have "admin_ok uni E S X ad1" using apply_proxy_ok [OF assms, of W body] r by simp
  then show ?thesis using apply_dns_ok [of uni E S X ad1 W body] by (simp add: edit_server_config_def r case_prod_beta split: sum.split)
qed

lemma from_lists_ok:
  "admin_ok uni E S X ad \<Longrightarrow> curation_reach uni E S (la_cur w) \<Longrightarrow> admin_ok uni E S X (from_lists W w ad)"
  by (simp add: from_lists_def with_lists_def admin_ok_def)

lemma to_lists_reach: "admin_ok uni E S X ad \<Longrightarrow> curation_reach uni E S (la_cur (to_lists ad))"
  by (simp add: to_lists_def admin_ok_def)

lemma blocklists_ok:
  assumes "admin_ok (we_uni W) (we_engine W) (we_store W) X ad"
  shows "admin_ok (we_uni W) (we_engine W) (we_store W) X (snd (post_blocklists W body ad))"
proof -
  have "curation_reach (we_uni W) (we_engine W) (we_store W) (la_cur (snd (add_blocklist (we_json W) (we_uni W) (we_engine W)
      (we_store W) (we_log W) (we_fetch W) body (to_lists ad))))"
    using to_lists_reach [OF assms] by (simp add: add_blocklist_def run_blocklist_reach split: sum.split)
  then show ?thesis using from_lists_ok [OF assms] by (simp add: post_blocklists_def case_prod_beta)
qed

lemma scriptlets_ok:
  assumes "admin_ok (we_uni W) (we_engine W) (we_store W) X ad"
  shows "admin_ok (we_uni W) (we_engine W) (we_store W) X (snd (post_scriptlets W ad))"
proof -
  have "curation_reach (we_uni W) (we_engine W) (we_store W) (la_cur (snd (update_scriptlets (we_engine W)
      (we_store W) (we_log W) (we_show_scriptlets W) (we_scriptlets W) (to_lists ad))))"
    using refresh_reach [OF to_lists_reach [OF assms], of "we_scriptlets W"]
    by (auto simp: update_scriptlets_def case_prod_beta split: sum.split)
  then show ?thesis using from_lists_ok [OF assms] by (simp add: post_scriptlets_def case_prod_beta)
qed

lemma adblock_config_ok: "admin_ok uni E S X ad \<Longrightarrow> admin_ok uni E S X (snd (edit_adblock_config W body ad))"
  by (auto simp: edit_adblock_config_def set_decisions_def admin_ok_def case_prod_beta split: sum.split)

lemma certs_ok:
  assumes "admin_ok uni E S (we_certs W) ad"
  shows "admin_ok uni E S (we_certs W) (snd (post_certs W body ad))"
proof -
  have "cas_ok (we_certs W) (ad_certs ad)" using assms by (simp add: admin_ok_def)
  then have "cas_ok (we_certs W) (fst (snd (edit_certs (we_certs W) (we_log W) (we_cert_raw W) body (ad_certs ad) (ad_state ad))))"
    by (auto simp: edit_certs_def dest: cas_ok_run split: sum.split prod.split)
  then show ?thesis using assms by (simp add: post_certs_def case_prod_beta admin_ok_def)
qed

lemma tester_config_ok: "admin_ok uni E S X ad \<Longrightarrow> admin_ok uni E S X (snd (set_tester_enabled W body ad))"
  by (auto simp: set_tester_enabled_def tester_set_enabled_def Let_def admin_ok_def split: sum.split option.split prod.split)

lemma stats_config_ok: "admin_ok uni E S X ad \<Longrightarrow> admin_ok uni E S X (snd (stats_config W body ad))"
  by (auto simp: stats_config_def split: sum.split prod.split)

lemma stats_exclusions_ok: "admin_ok uni E S X ad \<Longrightarrow> admin_ok uni E S X (snd (edit_stats_exclusions W body ad))"
  by (auto simp: edit_stats_exclusions_def with_stats_exclusions_def split: sum.split prod.split option.split se_command.split)

lemma proxy_config_ok: "admin_ok uni E S X ad \<Longrightarrow> admin_ok uni E S X (snd (edit_proxy_config W body ad))"
  by (auto simp: edit_proxy_config_def split: sum.split prod.split)

lemma exclusions_ok: "admin_ok uni E S X ad \<Longrightarrow> admin_ok uni E S X (snd (post_exclusions W body ad))"
  by (auto simp: post_exclusions_def split: sum.split prod.split option.split)

lemma clear_errors_ok: "admin_ok uni E S X ad \<Longrightarrow> admin_ok uni E S X (snd (clear_errors W ad))"
  by (simp add: clear_errors_def)

lemmas handlers_ok =
  blocklists_ok scriptlets_ok adblock_config_ok certs_ok tester_config_ok stats_config_ok stats_exclusions_ok proxy_config_ok
  exclusions_ok clear_errors_ok server_config_ok rewrites_ok flush_web_ok reset_stats_ok probe_ok dns_upstreams_ok dns_config_ok

lemma execute_ok:
  assumes "admin_ok (we_uni W) (we_engine W) (we_store W) (we_certs W) ad"
  shows "admin_ok (we_uni W) (we_engine W) (we_store W) (we_certs W) (snd (execute W pth body ad))"
  unfolding execute_def by (simp add: handlers_ok [OF assms] assms)

lemma route_ok:
  assumes "admin_ok (we_uni W) (we_engine W) (we_store W) (we_certs W) ad"
  shows "admin_ok (we_uni W) (we_engine W) (we_store W) (we_certs W) (snd (route W m pth q h body ad))"
proof -
  let ?te = "snd (tester_route (we_tester W) m pth q h (ad_tester ad))"
  have "length (te_hits (ad_tester ad)) \<le> Suc MAX_RUNS" using assms by (simp add: admin_ok_def MAX_RUNS_def)
  then have "length (te_hits ?te) \<le> Suc MAX_RUNS"
    using tester_route_hits [of "we_tester W" m pth q h "ad_tester ad"] record_hit_len by metis
  then have te: "admin_ok (we_uni W) (we_engine W) (we_store W) (we_certs W) (ad\<lparr>ad_tester := ?te\<rparr>)"
    using assms by (simp add: admin_ok_def MAX_RUNS_def)
  then show ?thesis using execute_ok [OF te, of pth]
    by (auto simp: route_def case_prod_beta split: option.split)
qed

text \<open>Any requests, each met by its own circumstances: clock, network, sockets, parsers.\<close>

inductive admin_runs for Ws ad0 where
  start: "admin_runs Ws ad0 ad0"
| request: "admin_runs Ws ad0 ad \<Longrightarrow> W \<in> Ws \<Longrightarrow> admin_runs Ws ad0 (snd (route W m pth q h body ad))"

lemma admin_runs_ok:
  assumes "admin_runs Ws ad0 ad" "\<forall>W \<in> Ws. we_uni W = uni \<and> we_engine W = E \<and> we_store W = S \<and> we_certs W = X" "admin_ok uni E S X ad0"
  shows "admin_ok uni E S X ad"
  using assms(1)
proof induction
  case (request ad W m pth q h body)
  then show ?case using route_ok [of W ad m pth q h body] assms(2) by auto
qed (rule assms(3))

text \<open>C5: no sequence of requests to the admin server, whatever their contents, and whatever fails meanwhile,
  leaves the parts inconsistent: the DNS listener owns exactly the sockets of its address, the
  resolver and cache are those of the settings, the proxy listener owns exactly its socket, requests
  are decided with the engine compiled from the enabled lists (up to a cache file with the same 64-bit
  key), and the CA selected for the next start loads (removing a CA folder is assumed to work).\<close>

theorem admin_requests_consistent:
  assumes "admin_runs Ws ad0 ad" "engine E" "admin_ok uni E S X ad0"
    and "\<forall>W \<in> Ws. we_uni W = uni \<and> we_engine W = E \<and> we_store W = S \<and> we_certs W = X"
  shows "(case rt_handles (ad_dns ad) of None \<Rightarrow> rt_sockets (ad_dns ad) = {}
      | Some a \<Rightarrow> a = rt_listen (ad_dns ad) \<and> rt_sockets (ad_dns ad) = {(UdpSocket, a), (TcpListener, a)}) \<and>
    service_ok (rt_service (ad_dns ad)) \<and>
    (case pr_task (ad_proxy ad) of None \<Rightarrow> pr_sockets (ad_proxy ad) = {} | Some a \<Rightarrow> a = pr_listen (ad_proxy ad) \<and> pr_sockets (ad_proxy ad) = {a}) \<and>
    (\<exists>R. en_hash E R = en_hash E (rules_of (ab_lists (ad_blocker ad))) \<and>
      ab_engine (ad_blocker ad) = with_resources E (cu_resources (ad_lists ad)) (en_compile E (map snd R))) \<and>
    load_ca X (ca_files (ad_certs ad) (active_paths X (ad_certs ad))) = Inr ()"
proof -
  have ok: "admin_ok uni E S X ad" by (rule admin_runs_ok [OF assms(1,4,3)])
  have "engine.engine_ok E (ad_lists ad)"
    using engine.reach_ok [OF assms(2), of uni S "ad_lists ad"] ok by (simp add: admin_ok_def)
  then have "\<exists>R. en_hash E R = en_hash E (rules_of (cu_lists (ad_lists ad))) \<and>
      cu_engine (ad_lists ad) = with_resources E (cu_resources (ad_lists ad)) (en_compile E (map snd R))"
    unfolding engine.engine_ok_def [OF assms(2)] by metis
  moreover have "load_ca X (ca_files (ad_certs ad) (active_paths X (ad_certs ad))) = Inr ()"
    by (rule cas_ok_active_loads) (use ok in \<open>simp add: admin_ok_def\<close>)
  ultimately show ?thesis using ok
    by (auto simp: admin_ok_def runtime_inv_def proxy_inv_def service_inv_def split: option.splits)
qed

text \<open>C16: an update for both listeners is not one change: when the proxy's half is valid and the DNS half is
  not, the proxy has been stopped although the reply is an error.\<close>

theorem server_config_half_applied:
  assumes "we_json W body = Inr v" "is_object v" "get_bool ''proxy_enabled'' v = Some False" "get_str ''proxy_listen'' v = None"
    and "get_str ''dns_listen'' v = Some a" "parse_socket_addr (trim a) = None"
    and "pr_control (ad_proxy ad)" "pr_enabled (ad_proxy ad)"
  shows "fst (edit_server_config W body ad) = BAD_REQUEST \<and> \<not> pr_enabled (ad_proxy (snd (edit_server_config W body ad)))"
proof -
  let ?rt = "(ad_proxy ad)\<lparr>pr_state := ad_state ad\<rparr>"
  obtain rt d where i: "proxy_install (we_text W) (we_log W) (then_some (pr_enabled ?rt) (pr_listen ?rt)) False (pr_listen ?rt) None
      (proxy_stop ?rt) (ad_disk ad) = (rt, d)" by fastforce
  have p: "proxy_apply (we_text W) (we_proxy_os W) (we_log W) False (pr_listen ?rt) ?rt (ad_disk ad) = (Inr (), rt, d)" "\<not> pr_enabled rt"
    using assms(7) i proxy_install_simps [OF i] by (simp_all add: proxy_apply_def Let_def)
  have "\<exists>s. proxy_apply_raw (we_text W) (we_json W) (we_proxy_os W) (we_log W) body ?rt (ad_disk ad) = (Inr s, rt, d)"
    using assms p(1) by (auto simp: proxy_apply_raw_def parse_proxy_overrides_def wanted_proxy_def)
  then obtain s ad1 where a1: "apply_proxy W body ad = (Inr s, ad1)" "\<not> pr_enabled (ad_proxy ad1)"
    using p(2) by (auto simp: apply_proxy_def)
  have "\<exists>e ad2. apply_dns W body ad1 = (Inl e, ad2) \<and> ad_proxy ad2 = ad_proxy ad1"
    using assms(1,2,5,6) by (auto simp: apply_dns_def apply_raw_def parse_server_overrides_def)
  then show ?thesis using a1 by (auto simp: edit_server_config_def ok_status_def)
qed

section \<open>An example\<close>

definition web_match :: "(string list \<times> nat list, string) match_ops" where
  "web_match = \<lparr>new_request = new_request sample_match, check_network_request = (\<lambda>e. check_network_request sample_match (fst e)),
     get_csp_directives = (\<lambda>e. get_csp_directives sample_match (fst e)),
     url_cosmetic_resources = (\<lambda>e. url_cosmetic_resources sample_match (fst e)),
     hidden_class_id_selectors = (\<lambda>e. hidden_class_id_selectors sample_match (fst e)),
     as_css = as_css sample_match, b64_decode = b64_decode sample_match\<rparr>"

definition stop_and_misplace :: json where
  "stop_and_misplace = JObject [(''proxy_enabled'', JBool False), (''dns_listen'', JString ''nowhere'')]"

definition sample_web where
  "sample_web = \<lparr>we_log = sample_log_env, we_json = (\<lambda>_ :: bytes. Inr stop_and_misplace), we_uni = id, we_text = sample_text, we_engine = text_engine,
     we_store = memory_store, we_fetch = sample_fetch retitled_text,
     we_scriptlets = \<lparr>sr_path = [], sr_source = Inl [], sr_write = None, sr_load = Inl [], sr_age = None\<rparr>,
     we_library = (\<lambda>_. ab_scriptlets (sample_blocker True)), we_show_scriptlets = (\<lambda>_. []), we_match = web_match,
     we_decisions = sample_to_json, we_deps = sample_deps, we_dns_to = sample_tj, we_dns_of = sample_oj,
     we_ask = (\<lambda>_. BootNothing), we_probe = (\<lambda>_. None), we_attempts = (\<lambda>_. TimedOut), we_mode = (\<lambda>_. None),
     we_listen_to = sample_srv_tj, we_dns_os = (\<lambda>_ _. None), we_proxy_os = (\<lambda>_. None), we_addrs = list_lru, we_echs = (list_lru :: (nat \<times> (string \<times> bytes option \<times> instant) list) ech_lru),
     we_certs = sample_certs, we_cert_raw = (\<lambda>_. Inl []), we_stats = (\<lambda>_. Inl []), we_bodies = letter_codec,
     we_decoders = capture_decoders, we_lossy = id, we_header_ok = visible, we_tester = sample_tester_env\<rparr>"

definition sample_admin where
  "sample_admin = \<lparr>ad_state = sample_state, ad_disk = empty_disk, ad_lists = la_cur sample_lists, ad_net = (0 :: nat),
     ad_blocker = \<lparr>ab_core_enabled = True, ab_engine = cu_engine (la_cur sample_lists), ab_lists = cu_lists (la_cur sample_lists),
       ab_scriptlets = ab_scriptlets (sample_blocker True), ab_decisions = ab_decisions (sample_blocker True), ab_runtime = None\<rparr>,
     ad_exclusions = sample_exclusions, ad_proxy = sample_proxy_rt, ad_dns = sample_rt\<lparr>rt_service := sample_start\<rparr>,
     ad_egress = \<lparr>eg_settings = eg_settings sample_egress, eg_path = no_path, eg_addrs = eg_addrs sample_egress, eg_echs = (4 :: nat, [] :: (string \<times> bytes option \<times> instant) list)\<rparr>,
     ad_certs = sample_cert_store, ad_tester = sample_tester\<rparr>"

lemma sample_admin_ok: "admin_ok id text_engine memory_store sample_certs sample_admin"
proof -
  have "service_inv sample_start" by (rule service_reach_inv [OF sample_reach])
  moreover have "proxy_inv sample_proxy_rt" by (simp add: proxy_inv_def sample_proxy_rt_def)
  ultimately show ?thesis using sample_lists_reach sample_cas_ok
    by (simp add: admin_ok_def sample_admin_def runtime_inv_def sample_rt_def sample_tester_def)
qed

theorem admin_requests_consistent_witness:
  "let ad = snd (route sample_web ''POST'' ''/api/server/config'' [] ''localhost'' (Some []) sample_admin) in
   service_ok (rt_service (ad_dns ad)) \<and> load_ca sample_certs (ca_files (ad_certs ad) (active_paths sample_certs (ad_certs ad))) = Inr ()"
proof -
  have w: "\<forall>W \<in> {sample_web}. we_uni W = id \<and> we_engine W = text_engine \<and> we_store W = memory_store \<and> we_certs W = sample_certs"
    by (simp add: sample_web_def)
  have "admin_runs {sample_web} sample_admin (snd (route sample_web ''POST'' ''/api/server/config'' [] ''localhost'' (Some []) sample_admin))"
    by (rule admin_runs.request [OF admin_runs.start]) simp
  from admin_requests_consistent [OF this texts_only.engine_axioms sample_admin_ok w] show ?thesis unfolding Let_def by blast
qed

theorem server_config_half_applied_witness:
  "fst (edit_server_config sample_web [] sample_admin) = BAD_REQUEST \<and>
   pr_enabled (ad_proxy sample_admin) \<and> \<not> pr_enabled (ad_proxy (snd (edit_server_config sample_web [] sample_admin)))"
proof -
  have j: "we_json sample_web [] = Inr stop_and_misplace" by (simp add: sample_web_def)
  have a: "parse_socket_addr (trim ''nowhere'') = None" by code_simp
  have p: "pr_control (ad_proxy sample_admin)" "pr_enabled (ad_proxy sample_admin)" by (simp_all add: sample_admin_def sample_proxy_rt_def)
  show ?thesis using server_config_half_applied [OF j _ _ _ _ a p] p by (simp add: stop_and_misplace_def get_bool_def get_str_def)
qed

end
