(* ===== verification/Spec2Isabelle.thy ===== *)
theory Spec2Isabelle
  imports Dns_Control Proxy_Server Web_Admin
begin

text \<open>
  Verification of an ad-blocking forward proxy with its own DNS server (Rust, under \<open>src/src\<close>). The
  program has four modules: \<^emph>\<open>DNS\<close> answers queries (rewrites, blocking, cache, upstream resolvers),
  \<^emph>\<open>Adblock\<close> owns the filter lists and decides about requests and pages, \<^emph>\<open>Proxy\<close> forwards HTTP
  traffic, and \<^emph>\<open>Stats\<close> counts and logs what the others report; a web application and a rule tester
  sit on top.

  \<^bold>\<open>Conventions.\<close> A string is the list of the bytes of its UTF-8 encoding. Machine integers keep their
  width as words; element counts are \<^typ>\<open>nat\<close>; instants and durations are nanoseconds. Errors are
  values of a datatype in \<^typ>\<open>'e + 'a\<close>. The disk is an explicit state whose faults are part of it.
  Clock readings, random numbers, what the network answers and the operations of third-party crates
  are arguments; where the code relies on a crate, a locale states the documented behaviour and is
  interpreted on a concrete instance.

  \<^bold>\<open>Libraries.\<close> \<open>Prelude\<close> (options, results, iterators, lemma collections), \<open>Rust_Str\<close> (strings),
  \<open>Rust_Net\<close> (integers and addresses as text, with the parse/print round trips), \<open>Json\<close> (JSON values),
  \<open>Http\<close> (header maps: locale \<open>header_map\<close>), \<open>Lru\<close> (locale \<open>lru_cache\<close>), \<open>Persist\<close> (\<open>*/persist.rs\<close>:
  record files and settings files; locale \<open>entry_codec\<close>, interpreted by \<open>Dns_Rewrites\<close>).

  \<^bold>\<open>DNS\<close> (\<open>src/src/dns\<close>).
  \<^item> \<open>Dns_Rewrites\<close>: \<open>rewrites.rs\<close>. Commands change the records exactly as specified and keep the set
    well formed; the lookup is the most specific live pattern; the file loads back as it was.
  \<^item> \<open>Dns_Message\<close>, \<open>Dns_Cache\<close>: \<open>response.rs\<close>, \<open>cache.rs\<close>. The cache refines a bounded map with
    recency; what it serves is fresh and aged; TTL clamping.
  \<^item> \<open>Dns_Settings\<close>, \<open>Dns_Upstream\<close>: \<open>settings.rs\<close>, \<open>config.rs\<close>, \<open>commands.rs\<close>, \<open>upstream.rs\<close>. The three
    resolution modes, when resolution succeeds, failover order, weighted choice, statistics, framing.
  \<^item> \<open>Dns_Service\<close>: \<open>plan.rs\<close>, \<open>lookup.rs\<close> and the request half of \<open>mod.rs\<close>. Planning order, blocked
    answers, counting, ECH stripping, caching across two requests.
  \<^item> \<open>Dns_Admin\<close>: the administrative half of \<open>mod.rs\<close>. Consistency of settings, resolver and cache in
    every reachable state; atomic changes; settings survive a restart.
  \<^item> \<open>Dns_Server\<close>, \<open>Dns_Control\<close>: \<open>server.rs\<close>, \<open>control.rs\<close>. Connections are answered in order; the
    sockets open are those of the configured address; listener settings survive a restart.

  \<^bold>\<open>Stats\<close> (\<open>src/src/stats\<close>).
  \<^item> \<open>Stats_History\<close>: \<open>history.rs\<close>. The snapshot counts exactly the events of the window; it panics when
    the clock steps back.
  \<^item> \<open>Stats_Logs\<close>, \<open>Stats_Exclude\<close>, \<open>Stats_State\<close>: \<open>logs.rs\<close>, \<open>errors.rs\<close>, \<open>exclude.rs\<close>, \<open>mod.rs\<close>, \<open>records.rs\<close>.
    Bounded error log, rotating files, pages, excluded hosts, settings.
  \<^item> \<open>Stats_Capture\<close>: captured bodies and their decoding. A captured body is served as it was, and reading
    a decompressor ends: the loop is a function proved total, bounded by the decoding limit.

  \<^bold>\<open>Adblock\<close> (\<open>src/src/adblock\<close>).
  \<^item> \<open>Adblock_Rewrite\<close>, \<open>Adblock_Scriptlets\<close>: \<open>rewrite.rs\<close>, \<open>scriptlets.rs\<close>. Splicing changes nothing of a
    page but what it inserts; the scan for names is exact; the scriptlet library.
  \<^item> \<open>Adblock_Store\<close>, \<open>Adblock_Lists\<close>, \<open>Adblock_Curation\<close>: \<open>store.rs\<close>, \<open>curation.rs\<close> and the engine core of
    \<open>mod.rs\<close> (locales \<open>list_store\<close>, interpreted by both stores, and \<open>engine\<close>). Whatever is done to the lists,
    the engine is the one compiled from the enabled ones; lists survive a restart.
  \<^item> \<open>Adblock_Decide\<close>: \<open>classify.rs\<close>, \<open>decisions.rs\<close> and the deciding half of \<open>mod.rs\<close>. When a request is blocked,
    the headers forwarded, the switches.
  \<^item> \<open>Adblock_Admin\<close>: \<open>commands.rs\<close>, \<open>fetch.rs\<close>, \<open>maintenance.rs\<close>, \<open>updater.rs\<close>. A download makes at most six
    exchanges (the loop counts down from \<open>MAX_REDIRECTS\<close> and one more) and is bounded in size; commands
    and updates keep engine and lists together; a list that changes its title comes back switched on.

  \<^bold>\<open>Proxy\<close> (\<open>src/src/proxy\<close>).
  \<^item> \<open>Proxy_Store\<close>, \<open>Proxy_Exclusions\<close>, \<open>Proxy_Control\<close>: \<open>persist.rs\<close> (locale \<open>settings_group\<close>), \<open>exclusions.rs\<close>,
    \<open>control.rs\<close>. Settings groups share one file without disturbing each other; the listener.
  \<^item> \<open>Proxy_Route\<close>, \<open>Proxy_Egress\<close>, \<open>Proxy_Client\<close>: targets and plans, \<open>egress.rs\<close>, \<open>http_client.rs\<close>. No name is
    looked up outside the program's own DNS when that is required; a request is sent at most twice; the
    pool is bounded.
  \<^item> \<open>Proxy_Server\<close>: \<open>server.rs\<close> (locale \<open>upstream_inv\<close>). A blocked request never leaves; every request is
    accounted for; with filtering off the proxy is transparent; what a tunnel reveals.
  \<^item> \<open>Proxy_Certs\<close>: \<open>certs.rs\<close> and the loading half of \<open>ca.rs\<close>. Names stay inside the folder; the CA of the
    next start loads; the one chosen is the one served.

  \<^bold>\<open>Web and tester\<close> (\<open>src/src/web\<close>, \<open>src/src/tester\<close>). \<open>Web_Query\<close>: query strings, pages of the logs, the
  certificate download. \<open>Tester\<close>: its switch, its record of arrivals, its routes. \<open>Web_Admin\<close> puts all components
  into one state, with the statistics they share, and sends every request to its component; no
  sequence of requests leaves the parts inconsistent (\<open>admin_requests_consistent\<close>).

  \<^bold>\<open>Not modelled.\<close> Sockets, TLS, task scheduling and locks (each operation is atomic, in the order the
  code performs it); the wire format of DNS and HTTP; JSON text; the filter engine; the minting of leaf
  certificates and the root stores (the work of crates); the converter of scriptlet sources (an external
  program); the timers of the periodic tasks; the live stream, the dashboard and the other pages, which
  are text; rendering of replies; the wiring in \<open>main.rs\<close>; tracing output.
\<close>

end
